(* ===== verification/Prelude.thy ===== *)
theory Prelude
  imports "HOL-Library.Word"
begin

text \<open>
  Shared types and lemmas of the codecserver development: bytes and byte buffers as the
  C++ code sees them through a \<^verbatim>\<open>char*\<close>, the ways an operation can end other than by
  returning (a crash of the process or a C++ exception), and 16-bit integers in network
  byte order.

  A buffer is a list of bytes. Every access through a pointer is checked: reading or writing
  outside the allocation is \<open>Crash Out_of_bounds\<close>, so a theorem that an operation returns a
  value also says that it stays inside its buffers.
\<close>

unbundle bit_operations_syntax

type_synonym byte = "8 word"
type_synonym bytes = "byte list"
type_synonym short = "16 word"

section \<open>Results\<close>

text \<open>
  A fault ends the process or is undefined behaviour; the program is built without
  \<^verbatim>\<open>NDEBUG\<close> (\<^verbatim>\<open>CMakeLists.txt\<close> replaces the release flags by \<^verbatim>\<open>-O3 -rdynamic\<close>), so a failed
  \<^verbatim>\<open>assert\<close> aborts. An exception is the C++ exception that is in flight.
\<close>

datatype fault = Assert_failed | Out_of_bounds | Null_deref | Use_after_free | Invalid_free

datatype exn =
    Invalid_argument
  | Out_of_range
  | Runtime_error string
  | Device_exception string
  | Connection_exception string
  | Queue_full_exception
  | Config_exception string

text \<open>\<open>Waits\<close> is a call that does not return: it blocks until another thread makes room.\<close>

datatype error = Crash fault | Raise exn | Waits

definition bindE :: "'e + 'a \<Rightarrow> ('a \<Rightarrow> 'e + 'b) \<Rightarrow> 'e + 'b" where
  "bindE m f = (case m of Inl e \<Rightarrow> Inl e | Inr x \<Rightarrow> f x)"

lemma bindE_simps [simp]:
  "bindE (Inl e) f = Inl e"
  "bindE (Inr x) f = f x"
  by (simp_all add: bindE_def)

lemma bindE_eq_Inr [simp]:
  "bindE m f = Inr y \<longleftrightarrow> (\<exists>x. m = Inr x \<and> f x = Inr y)"
  by (cases m) simp_all

lemma bindE_eq_Inl:
  "bindE m f = Inl e \<longleftrightarrow> m = Inl e \<or> (\<exists>x. m = Inr x \<and> f x = Inl e)"
  by (cases m) simp_all

text \<open>
  Operations on a state that keep the state reached when they end with an error, as an
  exception that passes through C++ code does.
\<close>

type_synonym ('s, 'a) operation = "'s \<Rightarrow> (error + 'a) \<times> 's"

definition bindS :: "('s, 'a) operation \<Rightarrow> ('a \<Rightarrow> ('s, 'b) operation) \<Rightarrow> ('s, 'b) operation" where
  "bindS m f s = (case m s of (Inl e, s') \<Rightarrow> (Inl e, s') | (Inr x, s') \<Rightarrow> f x s')"

definition liftS :: "error + 'a \<Rightarrow> ('s, 'a) operation" where
  "liftS r s = (r, s)"

lemma bindS_simps [simp]:
  "m s = (Inl e, s') \<Longrightarrow> bindS m f s = (Inl e, s')"
  "m s = (Inr x, s') \<Longrightarrow> bindS m f s = f x s'"
  by (simp_all add: bindS_def)

lemma bindS_liftS [simp]:
  "bindS (liftS (Inl e)) f s = (Inl e, s)"
  "bindS (liftS (Inr x)) f s = f x s"
  by (simp_all add: bindS_def liftS_def)

section \<open>Byte buffers\<close>

named_theorems mem_simps \<open>evaluation of buffer accesses\<close>

definition get_byte :: "bytes \<Rightarrow> nat \<Rightarrow> error + byte" where
  "get_byte b i = (if i < length b then Inr (b ! i) else Inl (Crash Out_of_bounds))"

definition set_byte :: "bytes \<Rightarrow> nat \<Rightarrow> byte \<Rightarrow> error + bytes" where
  "set_byte b i v = (if i < length b then Inr (b[i := v]) else Inl (Crash Out_of_bounds))"

text \<open>\<^verbatim>\<open>memcpy\<close> out of and into a buffer.\<close>

definition read_bytes :: "bytes \<Rightarrow> nat \<Rightarrow> nat \<Rightarrow> error + bytes" where
  "read_bytes b i n =
     (if i + n \<le> length b then Inr (take n (drop i b)) else Inl (Crash Out_of_bounds))"

definition write_bytes :: "bytes \<Rightarrow> nat \<Rightarrow> bytes \<Rightarrow> error + bytes" where
  "write_bytes b i xs =
     (if i + length xs \<le> length b then Inr (take i b @ xs @ drop (i + length xs) b)
      else Inl (Crash Out_of_bounds))"

text \<open>
  The \<^verbatim>\<open>std::string(const char*)\<close> constructor: the bytes up to the first NUL. A buffer
  without a NUL after the start is read past its end.
\<close>

fun c_string :: "bytes \<Rightarrow> error + bytes" where
  "c_string [] = Inl (Crash Out_of_bounds)"
| "c_string (x # xs) = (if x = 0 then Inr [] else bindE (c_string xs) (\<lambda>s. Inr (x # s)))"

definition get_cstring :: "bytes \<Rightarrow> nat \<Rightarrow> error + bytes" where
  "get_cstring b i = c_string (drop i b)"

lemma get_byte_cases:
  assumes "get_byte b i = r"
  obtains (ok) "i < length b" "r = Inr (b ! i)" | (fault) "length b \<le> i" "r = Inl (Crash Out_of_bounds)"
  using assms by (auto simp: get_byte_def split: if_splits)

lemma get_byte_eq_Inr [simp]: "get_byte b i = Inr v \<longleftrightarrow> i < length b \<and> b ! i = v"
  by (auto simp: get_byte_def)

lemma get_byte_append [mem_simps]:
  "i < length pre \<Longrightarrow> get_byte (pre @ xs) i = get_byte pre i"
  "get_byte (pre @ xs) (length pre) = get_byte xs 0"
  "get_byte (pre @ xs) (length pre + i) = get_byte xs i"
  "get_byte (pre @ xs) (Suc (length pre)) = get_byte xs 1"
  by (auto simp: get_byte_def nth_append)

lemma get_byte_Cons [mem_simps]:
  "get_byte (x # xs) 0 = Inr x"
  "get_byte (x # xs) (Suc i) = get_byte xs i"
  by (auto simp: get_byte_def)

lemma set_byte_same: "get_byte b i = Inr v \<Longrightarrow> set_byte b i v = Inr b"
  by (auto simp: set_byte_def)

lemma set_byte_length: "set_byte b i v = Inr b' \<Longrightarrow> length b' = length b"
  by (auto simp: set_byte_def split: if_splits)

lemma set_byte_append [mem_simps]:
  "set_byte (pre @ x # xs) (length pre) v = Inr (pre @ v # xs)"
  by (simp add: set_byte_def)

lemma write_bytes_length: "write_bytes b i xs = Inr b' \<Longrightarrow> length b' = length b"
  by (auto simp: write_bytes_def split: if_splits)

lemma write_bytes_append [mem_simps]:
  "length ys = length xs \<Longrightarrow> write_bytes (pre @ ys @ zs) (length pre) xs = Inr (pre @ xs @ zs)"
  by (simp add: write_bytes_def)

lemma read_bytes_append [mem_simps]:
  "n = length xs \<Longrightarrow> read_bytes (pre @ xs @ zs) (length pre) n = Inr xs"
  by (simp add: read_bytes_def)

lemma c_string_terminated [mem_simps]:
  "0 \<notin> set s \<Longrightarrow> c_string (s @ 0 # rest) = Inr s"
  by (induction s) auto

lemma c_string_Inr:
  "c_string b = Inr s \<Longrightarrow> 0 \<notin> set s \<and> length s < length b \<and> b = s @ 0 # drop (Suc (length s)) b"
proof (induction b arbitrary: s)
  case Nil
  then show ?case by simp
next
  case (Cons x xs)
  then show ?case by (auto split: if_splits)
qed

text \<open>Evaluation of updates at numeral positions.\<close>

lemma list_update_Cons_numeral [simp]:
  "(x # xs)[numeral v := y] = x # xs[pred_numeral v := y]"
  by (simp add: numeral_eq_Suc)

lemma replicate_numeral [mem_simps]:
  "replicate (numeral v) x = x # replicate (pred_numeral v) x"
  by (simp add: numeral_eq_Suc)

section \<open>Network byte order\<close>

text \<open>
  The model fixes a little-endian host, as every platform the packages are built for:
  \<^verbatim>\<open>htons\<close> and \<^verbatim>\<open>ntohs\<close> swap the two bytes, and a \<^verbatim>\<open>short\<close> in memory has its low byte
  first.
\<close>

definition htons :: "short \<Rightarrow> short" where
  "htons w = push_bit 8 w OR drop_bit 8 w"

definition ntohs :: "short \<Rightarrow> short" where
  "ntohs w = htons w"

definition le16 :: "short \<Rightarrow> bytes" where
  "le16 w = [ucast w, ucast (drop_bit 8 w)]"

definition be16 :: "short \<Rightarrow> bytes" where
  "be16 w = [ucast (drop_bit 8 w), ucast w]"

text \<open>The \<^verbatim>\<open>short\<close> whose two bytes in memory are \<open>lo\<close> and \<open>hi\<close>.\<close>

definition short_of :: "byte \<Rightarrow> byte \<Rightarrow> short" where
  "short_of lo hi = ucast lo OR push_bit 8 (ucast hi)"

fun shorts_of :: "bytes \<Rightarrow> short list" where
  "shorts_of (lo # hi # bs) = short_of lo hi # shorts_of bs"
| "shorts_of _ = []"

definition bytes_of_shorts :: "short list \<Rightarrow> bytes" where
  "bytes_of_shorts ws = concat (map le16 ws)"

lemma length_le16 [simp]: "length (le16 w) = 2"
  by (simp add: le16_def)

lemma length_be16 [simp]: "length (be16 w) = 2"
  by (simp add: be16_def)

lemma htons_htons [simp]: "htons (htons w) = w"
  by (rule bit_word_eqI) (auto simp: htons_def bit_simps)

lemma ntohs_htons [simp]: "ntohs (htons w) = w"
  by (simp add: ntohs_def)

lemma le16_htons [simp]: "le16 (htons w) = be16 w"
proof -
  have "(ucast (htons w) :: byte) = ucast (drop_bit 8 w)"
    by (rule bit_word_eqI) (auto simp: htons_def bit_simps)
  moreover have "(ucast (drop_bit 8 (htons w)) :: byte) = ucast w"
    by (rule bit_word_eqI) (auto simp: htons_def bit_simps)
  ultimately show ?thesis by (simp add: le16_def be16_def)
qed

lemma short_of_le16: "short_of (ucast w) (ucast (drop_bit 8 w)) = w"
  by (rule bit_word_eqI) (auto simp: short_of_def bit_simps)

lemma short_of_be16: "short_of (ucast (drop_bit 8 w)) (ucast w) = htons w"
  by (rule bit_word_eqI)
    (auto simp: short_of_def htons_def bit_simps dest: bit_imp_le_length)

lemma shorts_of_bytes_of_shorts [simp]: "shorts_of (bytes_of_shorts ws) = ws"
  by (induction ws) (simp_all add: bytes_of_shorts_def le16_def short_of_le16)

lemma length_bytes_of_shorts [simp]: "length (bytes_of_shorts ws) = 2 * length ws"
  by (induction ws) (simp_all add: bytes_of_shorts_def)

lemma length_shorts_of [simp]: "length (shorts_of bs) = length bs div 2"
  by (induction bs rule: shorts_of.induct) auto

lemma le16_short_of: "le16 (short_of lo hi) = [lo, hi]"
proof -
  have "(ucast (short_of lo hi) :: byte) = lo"
    by (rule bit_word_eqI) (auto simp: short_of_def bit_simps)
  moreover have "(ucast (drop_bit 8 (short_of lo hi)) :: byte) = hi"
    by (rule bit_word_eqI) (auto simp: short_of_def bit_simps dest: bit_imp_le_length)
  ultimately show ?thesis by (simp add: le16_def)
qed

lemma bytes_of_shorts_of: "even (length bs) \<Longrightarrow> concat (map le16 (shorts_of bs)) = bs"
  by (induction bs rule: shorts_of.induct) (auto simp: le16_short_of)

lemma shorts_of_take: "shorts_of (take (2 * n) bs) = take n (shorts_of bs)"
proof (induction bs arbitrary: n rule: shorts_of.induct)
  case (1 lo hi bs)
  then show ?case by (cases n) simp_all
qed (simp_all add: take_Cons')

lemma shorts_of_be16: "shorts_of (concat (map be16 ws)) = map htons ws"
  by (induction ws) (simp_all add: be16_def short_of_be16)

lemma length_concat_be16 [simp]: "length (concat (map be16 ws)) = 2 * length ws"
  by (induction ws) simp_all

section \<open>Exclusive or over a buffer\<close>

definition xor_bytes :: "bytes \<Rightarrow> byte" where
  "xor_bytes bs = foldl (XOR) 0 bs"

lemma foldl_xor: "foldl (XOR) (a :: byte) bs = a XOR foldl (XOR) 0 bs"
proof (induction bs arbitrary: a)
  case Nil
  then show ?case by simp
next
  case (Cons b bs)
  from Cons.IH [of "a XOR b"] Cons.IH [of b] show ?case by (simp add: xor.assoc)
qed

lemma xor_bytes_simps [simp]:
  "xor_bytes [] = 0"
  "xor_bytes (b # bs) = b XOR xor_bytes bs"
  using foldl_xor [of b bs] by (simp_all add: xor_bytes_def)

lemma xor_bytes_append [simp]: "xor_bytes (as @ bs) = xor_bytes as XOR xor_bytes bs"
  by (induction as) (simp_all add: xor.assoc)

lemma xor_left_cancel [simp]: "(a :: byte) XOR b = a XOR c \<longleftrightarrow> b = c"
  by (metis xor.assoc xor_self_eq xor.left_neutral)

lemma xor_right_cancel [simp]: "(b :: byte) XOR a = c XOR a \<longleftrightarrow> b = c"
  by (metis xor.commute xor_left_cancel)

lemma xor_bytes_update:
  assumes "i < length bs"
  shows "xor_bytes (bs[i := v]) = xor_bytes bs \<longleftrightarrow> v = bs ! i"
proof -
  have "xor_bytes bs = xor_bytes (take i bs) XOR (bs ! i XOR xor_bytes (drop (Suc i) bs))"
    using arg_cong [OF id_take_nth_drop [OF assms], of xor_bytes] by simp
  moreover have "xor_bytes (bs[i := v]) = xor_bytes (take i bs) XOR (v XOR xor_bytes (drop (Suc i) bs))"
    using assms by (simp add: upd_conv_take_nth_drop)
  ultimately show ?thesis by simp
qed

end
