(* ===== verification/Blocking_Queue.thy ===== *)
theory Blocking_Queue
  imports Prelude
begin

text \<open>
  \<^verbatim>\<open>BlockingQueue\<close> of \<^verbatim>\<open>src/modules/ambe3k/blockingqueue.hpp\<close> and \<^verbatim>\<open>blockingqueue.cpp\<close>, as
  seen by the thread that holds its mutex: what one call does to the queue, or that it has to wait.
  The threads that wait, the condition variables and the race with the destructor are in the
  theory \<open>Queue_Monitor\<close>.

  The interface that channels, devices and the queue worker rely on is the locale \<open>fifo\<close>: a
  bounded first-in first-out buffer, stated over any implementation, with the facts about whole
  runs proved from its laws; it is interpreted on the queue at the end.
\<close>

section \<open>The queue\<close>

record 'a bqueue =
  bq_items :: "'a list"
  bq_maxSize :: int
  bq_run :: bool

definition new_BlockingQueue :: "int \<Rightarrow> 'a bqueue" where
  "new_BlockingQueue maxSize = \<lparr>bq_items = [], bq_maxSize = maxSize, bq_run = True\<rparr>"

text \<open>\<^verbatim>\<open>size() >= maxSize\<close> compares as \<^verbatim>\<open>size_t\<close>: a negative size would never be reached.\<close>

definition full :: "'a bqueue \<Rightarrow> bool" where
  "full q \<longleftrightarrow> int (length (bq_items q)) \<ge> bq_maxSize q mod 2 ^ 64"

datatype 'a push_outcome = Push_returns "'a bqueue" | Push_waits | Push_throws

definition push :: "'a bqueue \<Rightarrow> 'a \<Rightarrow> bool \<Rightarrow> 'a push_outcome" where
  "push q item block =
     (if block then
        (if bq_run q \<and> full q then Push_waits
         else if \<not> bq_run q then Push_returns q
         else Push_returns (q\<lparr>bq_items := bq_items q @ [item]\<rparr>))
      else if full q then Push_throws
      else Push_returns (q\<lparr>bq_items := bq_items q @ [item]\<rparr>))"

datatype 'a pop_outcome = Pop_returns 'a "'a bqueue" | Pop_null | Pop_waits

definition pop :: "'a bqueue \<Rightarrow> 'a pop_outcome" where
  "pop q =
     (if bq_run q \<and> bq_items q = [] then Pop_waits
      else if \<not> bq_run q then Pop_null
      else Pop_returns (hd (bq_items q)) (q\<lparr>bq_items := tl (bq_items q)\<rparr>))"

text \<open>The destructor's effect on a thread that still looks at the queue.\<close>

definition close_queue :: "'a bqueue \<Rightarrow> 'a bqueue" where
  "close_queue q = q\<lparr>bq_run := False\<rparr>"

text \<open>The size of a queue is the number of its items, as \<^verbatim>\<open>std::queue::size\<close> says.\<close>

instantiation bqueue_ext :: (type, type) size
begin

definition size_bqueue_ext :: "('a, 'b) bqueue_ext \<Rightarrow> nat" where
  "size_bqueue_ext q = length (bq_items q)"

instance ..

end

lemma size_bqueue [simp]: "size (q :: ('a, 'b) bqueue_scheme) = length (bq_items q)"
  by (simp add: size_bqueue_ext_def)

lemma new_BlockingQueue_sel [simp]:
  "bq_items (new_BlockingQueue n) = []"
  "bq_maxSize (new_BlockingQueue n) = n"
  "bq_run (new_BlockingQueue n) = True"
  by (simp_all add: new_BlockingQueue_def)

section \<open>Bounded first-in first-out buffers\<close>

datatype 'a buffer_op = Put 'a | Take

locale fifo =
  fixes contents :: "'q \<Rightarrow> 'a list"
    and capacity :: "'q \<Rightarrow> nat"
    and put :: "'q \<Rightarrow> 'a \<Rightarrow> 'q option"
    and get :: "'q \<Rightarrow> ('a \<times> 'q) option"
    and usable :: "'q \<Rightarrow> bool"
  assumes put_Some: "usable q \<Longrightarrow> put q x = Some q' \<Longrightarrow>
      contents q' = contents q @ [x] \<and> capacity q' = capacity q \<and> usable q'"
    and put_None: "usable q \<Longrightarrow> put q x = None \<longleftrightarrow> capacity q \<le> length (contents q)"
    and get_Some: "usable q \<Longrightarrow> get q = Some (x, q') \<Longrightarrow>
      contents q = x # contents q' \<and> capacity q' = capacity q \<and> usable q'"
    and get_None: "usable q \<Longrightarrow> get q = None \<longleftrightarrow> contents q = []"
begin

text \<open>
  A run of operations from one state to another, with what was put in and what came out. An
  operation that is refused changes nothing.
\<close>

inductive run :: "'q \<Rightarrow> 'a buffer_op list \<Rightarrow> 'a list \<Rightarrow> 'a list \<Rightarrow> 'q \<Rightarrow> bool" where
  run_Nil: "run q [] [] [] q"
| run_put: "put q x = Some q1 \<Longrightarrow> run q1 ops ins outs q2 \<Longrightarrow> run q (Put x # ops) (x # ins) outs q2"
| run_refused: "put q x = None \<Longrightarrow> run q ops ins outs q2 \<Longrightarrow> run q (Put x # ops) ins outs q2"
| run_get: "get q = Some (x, q1) \<Longrightarrow> run q1 ops ins outs q2 \<Longrightarrow> run q (Take # ops) ins (x # outs) q2"
| run_empty: "get q = None \<Longrightarrow> run q ops ins outs q2 \<Longrightarrow> run q (Take # ops) ins outs q2"

lemma run_conserves:
  assumes "run q ops ins outs q'" "usable q"
  shows "contents q @ ins = outs @ contents q' \<and> capacity q' = capacity q \<and> usable q'"
  using assms
proof (induction rule: run.induct)
  case (run_put q x q1 ops ins outs q2)
  with put_Some [of q x q1] show ?case by auto
next
  case (run_get q x q1 ops ins outs q2)
  with get_Some [of q x q1] show ?case by auto
qed auto

lemma run_bounded:
  assumes "run q ops ins outs q'" "usable q" "length (contents q) \<le> capacity q"
  shows "length (contents q') \<le> capacity q"
  using assms
proof (induction rule: run.induct)
  case (run_put q x q1 ops ins outs q2)
  with put_Some [of q x q1] put_None [of q x] show ?case by auto
next
  case (run_get q x q1 ops ins outs q2)
  with get_Some [of q x q1] show ?case by auto
qed auto

text \<open>Runs grow at their end, the way a history of concurrent calls does.\<close>

lemma run_append:
  assumes "run q ops ins outs q1" "run q1 ops' ins' outs' q2"
  shows "run q (ops @ ops') (ins @ ins') (outs @ outs') q2"
  using assms by (induction rule: run.induct) (auto intro: run.intros)

lemma run_snoc_put:
  "run q ops ins outs q1 \<Longrightarrow> put q1 x = Some q2 \<Longrightarrow> run q (ops @ [Put x]) (ins @ [x]) outs q2"
  using run_append [of q ops ins outs q1 "[Put x]" "[x]" "[]" q2] by (auto intro: run.intros)

lemma run_snoc_get:
  "run q ops ins outs q1 \<Longrightarrow> get q1 = Some (x, q2) \<Longrightarrow> run q (ops @ [Take]) ins (outs @ [x]) q2"
  using run_append [of q ops ins outs q1 "[Take]" "[]" "[x]" q2] by (auto intro: run.intros)

text \<open>A whole list of items goes in if there is room for it, and comes out again in order.\<close>

primrec put_all :: "'q \<Rightarrow> 'a list \<Rightarrow> 'q option" where
  "put_all q [] = Some q"
| "put_all q (x # xs) = (case put q x of None \<Rightarrow> None | Some q' \<Rightarrow> put_all q' xs)"

lemma put_all_fits:
  "usable q \<Longrightarrow> length (contents q) + length xs \<le> capacity q \<Longrightarrow>
   \<exists>q'. put_all q xs = Some q' \<and> contents q' = contents q @ xs \<and> capacity q' = capacity q \<and> usable q'"
proof (induction xs arbitrary: q)
  case (Cons x xs)
  then obtain q1 where q1: "put q x = Some q1"
    using put_None [of q x] by (cases "put q x") auto
  from put_Some [OF Cons.prems(1) q1] Cons.prems Cons.IH [of q1] show ?case by (auto simp: q1)
qed simp

lemma put_all_overflows:
  "usable q \<Longrightarrow> length (contents q) \<le> capacity q \<Longrightarrow>
   capacity q < length (contents q) + length xs \<Longrightarrow> put_all q xs = None"
proof (induction xs arbitrary: q)
  case (Cons x xs)
  show ?case
  proof (cases "put q x")
    case (Some q1)
    with put_Some [OF Cons.prems(1) Some] put_None [OF Cons.prems(1), of x] Cons.prems Cons.IH [of q1]
    show ?thesis by auto
  qed simp
qed simp

text \<open>What comes out of an empty buffer is a prefix of what was put in.\<close>

lemma run_order:
  assumes "run q ops ins outs q'" "usable q" "contents q = []"
  shows "outs = take (length outs) ins"
  using run_conserves [OF assms(1,2)] assms(3) by simp

end

section \<open>The queue is such a buffer\<close>

definition queue_put :: "'a bqueue \<Rightarrow> 'a \<Rightarrow> 'a bqueue option" where
  "queue_put q x = (case push q x True of Push_returns q' \<Rightarrow> Some q' | _ \<Rightarrow> None)"

definition queue_get :: "'a bqueue \<Rightarrow> ('a \<times> 'a bqueue) option" where
  "queue_get q = (case pop q of Pop_returns x q' \<Rightarrow> Some (x, q') | _ \<Rightarrow> None)"

definition queue_open :: "'a bqueue \<Rightarrow> bool" where
  "queue_open q \<longleftrightarrow> bq_run q \<and> 0 \<le> bq_maxSize q \<and> bq_maxSize q < 2 ^ 31"

definition queue_capacity :: "'a bqueue \<Rightarrow> nat" where
  "queue_capacity q = nat (bq_maxSize q)"

lemma full_iff: "queue_open q \<Longrightarrow> full q \<longleftrightarrow> queue_capacity q \<le> length (bq_items q)"
  by (auto simp: full_def queue_open_def queue_capacity_def)

interpretation bq: fifo bq_items queue_capacity queue_put queue_get queue_open
  by unfold_locales
    (auto simp: queue_put_def queue_get_def push_def pop_def queue_open_def full_iff
      queue_capacity_def full_def split: if_splits push_outcome.splits pop_outcome.splits)

end
