(* ===== verification/Queue_Monitor.thy ===== *)
theory Queue_Monitor
  imports Blocking_Queue
begin

text \<open>
  \<^verbatim>\<open>BlockingQueue\<close> with the threads that use it: a step relation in which any number of threads
  push and pop, wait on the two condition variables and are woken, while another thread runs the
  destructor. The queue operations themselves are \<open>push\<close> and \<open>pop\<close> of \<open>Blocking_Queue\<close>.

  A thread holds the mutex from \<^verbatim>\<open>unique_lock\<close> to the end of the call or to \<^verbatim>\<open>wait\<close>. Only the
  destructor writes without the mutex, and only \<^verbatim>\<open>run\<close>; so a call is one step as long as it does
  not wait (if \<^verbatim>\<open>run\<close> changes between the loop's test and \<^verbatim>\<open>if (!run)\<close>, the call acts as if it
  had started after the change), and a call that waits has a step for the test and a step for
  \<^verbatim>\<open>wait\<close>, between which the destructor can run.
\<close>

section \<open>States and steps\<close>

datatype 'a call = Push_call 'a bool | Pop_call

datatype 'a pc =
    Idle
  | Entering "'a call"       \<comment> \<open>wants the mutex\<close>
  | Inside "'a call"         \<comment> \<open>holds the mutex, in front of the loop's test\<close>
  | Committed "'a call"      \<comment> \<open>holds the mutex, has decided to wait\<close>
  | Asleep "'a call"         \<comment> \<open>in \<^verbatim>\<open>wait\<close>\<close>

datatype destructor = Alive | Cleared | Empty_notified | Destroyed

record 'a monitor =
  mon_queue :: "'a bqueue"
  mon_owner :: "nat option"
  mon_pc :: "nat \<Rightarrow> 'a pc"
  mon_destructor :: destructor
  mon_pushed :: "'a list"    \<comment> \<open>history: what has been pushed\<close>
  mon_popped :: "'a list"    \<comment> \<open>history: what has been popped\<close>

definition new_monitor :: "int \<Rightarrow> 'a monitor" where
  "new_monitor n = \<lparr>mon_queue = new_BlockingQueue n, mon_owner = None, mon_pc = (\<lambda>_. Idle),
     mon_destructor = Alive, mon_pushed = [], mon_popped = []\<rparr>"

text \<open>\<^verbatim>\<open>notify_all\<close> on \<^verbatim>\<open>isEmpty\<close> (poppers wait there) and on \<^verbatim>\<open>isFull\<close> (pushers).\<close>

fun wake_popper :: "'a pc \<Rightarrow> 'a pc" where
  "wake_popper (Asleep Pop_call) = Entering Pop_call"
| "wake_popper p = p"

fun wake_pusher :: "'a pc \<Rightarrow> 'a pc" where
  "wake_pusher (Asleep (Push_call x b)) = Entering (Push_call x b)"
| "wake_pusher p = p"

definition notify_isEmpty :: "'a monitor \<Rightarrow> 'a monitor" where
  "notify_isEmpty s = s\<lparr>mon_pc := wake_popper \<circ> mon_pc s\<rparr>"

definition notify_isFull :: "'a monitor \<Rightarrow> 'a monitor" where
  "notify_isFull s = s\<lparr>mon_pc := wake_pusher \<circ> mon_pc s\<rparr>"

definition set_pc :: "nat \<Rightarrow> 'a pc \<Rightarrow> 'a monitor \<Rightarrow> 'a monitor" where
  "set_pc t p s = s\<lparr>mon_pc := (mon_pc s)(t := p)\<rparr>"

text \<open>The end of a call: the mutex is released when \<^verbatim>\<open>unique_lock\<close> goes out of scope.\<close>

definition leave :: "nat \<Rightarrow> 'a monitor \<Rightarrow> 'a monitor" where
  "leave t s = set_pc t Idle (s\<lparr>mon_owner := None\<rparr>)"

text \<open>What the thread that holds the mutex does in front of the loop's test.\<close>

definition run_push :: "nat \<Rightarrow> 'a \<Rightarrow> bool \<Rightarrow> 'a monitor \<Rightarrow> 'a monitor" where
  "run_push t x block s =
     (case push (mon_queue s) x block of
        Push_waits \<Rightarrow> set_pc t (Committed (Push_call x block)) s
      | Push_throws \<Rightarrow> leave t s
      | Push_returns q' \<Rightarrow>
          if block \<and> \<not> bq_run (mon_queue s) then leave t s
          else notify_isEmpty (leave t (s\<lparr>mon_queue := q', mon_pushed := mon_pushed s @ [x]\<rparr>)))"

definition run_pop :: "nat \<Rightarrow> 'a monitor \<Rightarrow> 'a monitor" where
  "run_pop t s =
     (case pop (mon_queue s) of
        Pop_waits \<Rightarrow> set_pc t (Committed Pop_call) s
      | Pop_null \<Rightarrow> leave t s
      | Pop_returns x q' \<Rightarrow>
          notify_isFull (leave t (s\<lparr>mon_queue := q', mon_popped := mon_popped s @ [x]\<rparr>)))"

inductive step :: "'a monitor \<Rightarrow> 'a monitor \<Rightarrow> bool" where
  step_call: "mon_pc s t = Idle \<Longrightarrow> step s (set_pc t (Entering c) s)"
| step_lock: "mon_pc s t = Entering c \<Longrightarrow> mon_owner s = None \<Longrightarrow>
    step s (set_pc t (Inside c) (s\<lparr>mon_owner := Some t\<rparr>))"
| step_push: "mon_pc s t = Inside (Push_call x b) \<Longrightarrow> step s (run_push t x b s)"
| step_pop: "mon_pc s t = Inside Pop_call \<Longrightarrow> step s (run_pop t s)"
| step_wait: "mon_pc s t = Committed c \<Longrightarrow> step s (set_pc t (Asleep c) (s\<lparr>mon_owner := None\<rparr>))"
| step_spurious: "mon_pc s t = Asleep c \<Longrightarrow> step s (set_pc t (Entering c) s)"
| step_clear: "mon_destructor s = Alive \<Longrightarrow>
    step s (s\<lparr>mon_queue := close_queue (mon_queue s), mon_destructor := Cleared\<rparr>)"
| step_notify_empty: "mon_destructor s = Cleared \<Longrightarrow>
    step s (notify_isEmpty (s\<lparr>mon_destructor := Empty_notified\<rparr>))"
| step_notify_full: "mon_destructor s = Empty_notified \<Longrightarrow>
    step s (notify_isFull (s\<lparr>mon_destructor := Destroyed\<rparr>))"

inductive reachable :: "int \<Rightarrow> 'a monitor \<Rightarrow> bool" for n where
  reachable_init: "reachable n (new_monitor n)"
| reachable_step: "reachable n s \<Longrightarrow> step s s' \<Longrightarrow> reachable n s'"

section \<open>Invariants\<close>

fun holds_mutex :: "'a pc \<Rightarrow> bool" where
  "holds_mutex (Inside c) = True"
| "holds_mutex (Committed c) = True"
| "holds_mutex _ = False"

fun waits_for_item :: "'a pc \<Rightarrow> bool" where
  "waits_for_item (Committed Pop_call) = True"
| "waits_for_item (Asleep Pop_call) = True"
| "waits_for_item _ = False"

fun waits_for_space :: "'a pc \<Rightarrow> bool" where
  "waits_for_space (Committed (Push_call x b)) = True"
| "waits_for_space (Asleep (Push_call x b)) = True"
| "waits_for_space _ = False"

definition mutex_ok :: "'a monitor \<Rightarrow> bool" where
  "mutex_ok s \<longleftrightarrow> (\<forall>t. holds_mutex (mon_pc s t) \<longleftrightarrow> mon_owner s = Some t)"

definition waits_ok :: "'a monitor \<Rightarrow> bool" where
  "waits_ok s \<longleftrightarrow> (\<forall>t. (waits_for_item (mon_pc s t) \<longrightarrow> bq_items (mon_queue s) = [])
                       \<and> (waits_for_space (mon_pc s t) \<longrightarrow> full (mon_queue s)))"

definition history_ok :: "'a monitor \<Rightarrow> bool" where
  "history_ok s \<longleftrightarrow> mon_pushed s = mon_popped s @ bq_items (mon_queue s)"

definition bound_ok :: "int \<Rightarrow> 'a monitor \<Rightarrow> bool" where
  "bound_ok n s \<longleftrightarrow> bq_maxSize (mon_queue s) = n \<and> int (length (bq_items (mon_queue s))) \<le> n
     \<and> (bq_run (mon_queue s) \<longleftrightarrow> mon_destructor s = Alive)"

definition monitor_ok :: "int \<Rightarrow> 'a monitor \<Rightarrow> bool" where
  "monitor_ok n s \<longleftrightarrow> mutex_ok s \<and> waits_ok s \<and> history_ok s \<and> bound_ok n s"

lemma wake_popper_holds [simp]: "holds_mutex (wake_popper p) = holds_mutex p"
  by (cases p rule: wake_popper.cases) simp_all

lemma wake_pusher_holds [simp]: "holds_mutex (wake_pusher p) = holds_mutex p"
  by (cases p rule: wake_pusher.cases) simp_all

lemma wake_popper_waits:
  "waits_for_item (wake_popper p) \<Longrightarrow> p = Committed Pop_call"
  "waits_for_space (wake_popper p) \<longleftrightarrow> waits_for_space p"
  by (cases p rule: wake_popper.cases; auto elim: waits_for_item.elims)+

lemma wake_pusher_waits:
  "waits_for_space (wake_pusher p) \<Longrightarrow> \<exists>x b. p = Committed (Push_call x b)"
  "waits_for_item (wake_pusher p) \<longleftrightarrow> waits_for_item p"
  by (cases p rule: wake_pusher.cases; auto elim: waits_for_space.elims)+

lemma wake_still_waits:
  "waits_for_item (wake_popper p) \<Longrightarrow> waits_for_item p"
  "waits_for_space (wake_pusher p) \<Longrightarrow> waits_for_space p"
  by (auto dest: wake_popper_waits(1) wake_pusher_waits(1))

lemma waits_Committed:
  "waits_for_item (Committed c) \<longleftrightarrow> waits_for_item (Asleep c)"
  "waits_for_space (Committed c) \<longleftrightarrow> waits_for_space (Asleep c)"
  by (cases c; simp)+

lemmas monitor_ops = set_pc_def leave_def notify_isEmpty_def notify_isFull_def
lemmas monitor_invs = mutex_ok_def waits_ok_def history_ok_def bound_ok_def

lemma mutex_unique:
  "mutex_ok s \<Longrightarrow> holds_mutex (mon_pc s t) \<Longrightarrow> holds_mutex (mon_pc s t') \<Longrightarrow> t' = t"
  by (metis mutex_ok_def option.inject)

lemma run_push_mutex:
  assumes "mutex_ok s" "holds_mutex (mon_pc s t)"
  shows "mutex_ok (run_push t x b s)"
  using assms
  by (auto simp: run_push_def monitor_ops mutex_ok_def split: push_outcome.splits)

lemma run_pop_mutex:
  assumes "mutex_ok s" "holds_mutex (mon_pc s t)"
  shows "mutex_ok (run_pop t s)"
  using assms
  by (auto simp: run_pop_def monitor_ops mutex_ok_def split: pop_outcome.splits)

lemma step_mutex: "step s s' \<Longrightarrow> mutex_ok s \<Longrightarrow> mutex_ok s'"
proof (induction rule: step.induct)
  case (step_push s t x b)
  then show ?case by (simp add: run_push_mutex)
next
  case (step_pop s t)
  then show ?case by (simp add: run_pop_mutex)
next
  case (step_call s t c)
  then show ?case by (auto simp: monitor_ops mutex_ok_def) (metis holds_mutex.simps(3))
next
  case (step_wait s t c)
  then show ?case by (auto simp: monitor_ops mutex_ok_def)
next
  case (step_spurious s t c)
  then show ?case by (auto simp: monitor_ops mutex_ok_def) (metis holds_mutex.simps(5))
qed (auto simp: monitor_ops mutex_ok_def)

text \<open>A queue operation leaves the threads that wait with their reason to wait.\<close>

lemma run_push_waits:
  assumes "mutex_ok s" "waits_ok s" "mon_pc s t = Inside (Push_call x b)"
  shows "waits_ok (run_push t x b s)"
proof -
  have "p \<noteq> t \<Longrightarrow> \<not> holds_mutex (mon_pc s p)" for p
    using mutex_unique [OF assms(1), of t p] assms(3) by auto
  then have "p \<noteq> t \<Longrightarrow> wake_popper (mon_pc s p) \<noteq> Committed Pop_call \<and> mon_pc s p \<noteq> Committed Pop_call" for p
    by (metis holds_mutex.simps(2) wake_popper_holds)
  then show ?thesis
    using assms(2,3)
    by (auto simp: run_push_def monitor_ops waits_ok_def push_def full_def wake_popper_waits
        split: if_splits dest: wake_popper_waits(1))
qed

lemma run_pop_waits:
  assumes "mutex_ok s" "waits_ok s" "mon_pc s t = Inside Pop_call"
  shows "waits_ok (run_pop t s)"
proof -
  have "p \<noteq> t \<Longrightarrow> \<not> holds_mutex (mon_pc s p)" for p
    using mutex_unique [OF assms(1), of t p] assms(3) by auto
  then have "p \<noteq> t \<Longrightarrow> \<nexists>x b. mon_pc s p = Committed (Push_call x b)" for p
    by (metis holds_mutex.simps(2))
  then show ?thesis
    using assms(2,3)
    by (auto simp: run_pop_def monitor_ops waits_ok_def pop_def wake_pusher_waits
        split: if_splits dest: wake_pusher_waits(1))
qed

lemma step_waits:
  assumes "step s s'" "mutex_ok s" "waits_ok s"
  shows "waits_ok s'"
  using assms
proof (induction rule: step.induct)
  case (step_push s t x b)
  then show ?case by (simp add: run_push_waits)
next
  case (step_pop s t)
  then show ?case by (simp add: run_pop_waits)
next
  case (step_wait s t c)
  then have "waits_for_item (Asleep c) \<longrightarrow> bq_items (mon_queue s) = []"
    "waits_for_space (Asleep c) \<longrightarrow> full (mon_queue s)"
    unfolding waits_Committed [symmetric] by (metis waits_ok_def)+
  with step_wait show ?case by (simp add: monitor_ops waits_ok_def)
qed (auto simp: monitor_ops waits_ok_def close_queue_def full_def wake_popper_waits(2)
       wake_pusher_waits(2) dest!: wake_still_waits)

lemma step_history: "step s s' \<Longrightarrow> history_ok s \<Longrightarrow> history_ok s'"
  by (induction rule: step.induct)
    (auto simp: monitor_ops history_ok_def run_push_def run_pop_def push_def pop_def close_queue_def
      split: if_splits)

lemma step_bound:
  assumes "step s s'" "bound_ok n s" "n < 2 ^ 31"
  shows "bound_ok n s'"
  using assms
proof (induction rule: step.induct)
  case (step_push s t x b)
  then have "\<not> full (mon_queue s) \<Longrightarrow> int (length (bq_items (mon_queue s))) < n"
    by (auto simp: full_def bound_ok_def)
  with step_push show ?case
    by (auto simp: monitor_ops bound_ok_def run_push_def push_def)
qed (auto simp: monitor_ops bound_ok_def run_pop_def pop_def close_queue_def)

lemma step_monitor_ok: "step s s' \<Longrightarrow> monitor_ok n s \<Longrightarrow> n < 2 ^ 31 \<Longrightarrow> monitor_ok n s'"
  by (auto simp: monitor_ok_def step_mutex step_waits step_history step_bound)

lemma reachable_monitor_ok: "reachable n s \<Longrightarrow> 0 \<le> n \<Longrightarrow> n < 2 ^ 31 \<Longrightarrow> monitor_ok n s"
proof (induction rule: reachable.induct)
  case reachable_init
  then show ?case by (simp add: monitor_ok_def monitor_invs new_monitor_def)
next
  case (reachable_step s s')
  then show ?case by (blast intro: step_monitor_ok)
qed

section \<open>What the threads see\<close>

text \<open>
  While the queue lives, the calls that have completed are a run of the first-in first-out
  buffer, in the order in which they held the mutex.
\<close>

lemma run_push_runs:
  assumes "bq.run q ops (mon_pushed s) (mon_popped s) (mon_queue s)" "bq_run (mon_queue s)"
    "\<not> full (mon_queue s) \<or> b"
  shows "\<exists>ops. bq.run q ops (mon_pushed (run_push t x b s)) (mon_popped (run_push t x b s))
           (mon_queue (run_push t x b s))"
proof (cases "full (mon_queue s)")
  case True
  with assms show ?thesis by (auto simp: run_push_def monitor_ops push_def)
next
  case False
  with assms(2) have "queue_put (mon_queue s) x =
      Some (mon_queue s\<lparr>bq_items := bq_items (mon_queue s) @ [x]\<rparr>)"
    by (simp add: queue_put_def push_def)
  from bq.run_snoc_put [OF assms(1) this] False assms(2) show ?thesis
    by (auto simp: run_push_def monitor_ops push_def)
qed

lemma run_pop_runs:
  assumes "bq.run q ops (mon_pushed s) (mon_popped s) (mon_queue s)" "bq_run (mon_queue s)"
  shows "\<exists>ops. bq.run q ops (mon_pushed (run_pop t s)) (mon_popped (run_pop t s))
           (mon_queue (run_pop t s))"
proof (cases "bq_items (mon_queue s)")
  case Nil
  with assms show ?thesis by (auto simp: run_pop_def monitor_ops pop_def)
next
  case (Cons x xs)
  with assms(2) have "queue_get (mon_queue s) = Some (x, mon_queue s\<lparr>bq_items := xs\<rparr>)"
    by (simp add: queue_get_def pop_def)
  from bq.run_snoc_get [OF assms(1) this] Cons assms(2) show ?thesis
    by (auto simp: run_pop_def monitor_ops pop_def)
qed

definition linearized :: "int \<Rightarrow> 'a monitor \<Rightarrow> bool" where
  "linearized n s \<longleftrightarrow> (bq_run (mon_queue s) \<longrightarrow>
     (\<exists>ops. bq.run (new_BlockingQueue n) ops (mon_pushed s) (mon_popped s) (mon_queue s)))"

lemma step_linearized: "step s s' \<Longrightarrow> linearized n s \<Longrightarrow> linearized n s'"
proof (induction rule: step.induct)
  case (step_push s t x b)
  then show ?case
  proof (cases "bq_run (mon_queue s) \<and> (\<not> full (mon_queue s) \<or> b)")
    case True
    with step_push show ?thesis by (auto simp: linearized_def run_push_runs)
  next
    case False
    with step_push show ?thesis
      by (auto simp: linearized_def run_push_def push_def monitor_ops)
  qed
next
  case (step_pop s t)
  then show ?case
    by (cases "bq_run (mon_queue s)")
      (auto simp: linearized_def run_pop_runs, auto simp: run_pop_def pop_def monitor_ops)
qed (auto simp: linearized_def monitor_ops close_queue_def)

text \<open>C11: In every state that any number of pushing and popping threads can reach, at most one
  thread is inside the mutex, the queue is within its bound, what has been pushed is what has been
  popped followed by what is queued, and nobody sleeps without a reason: a sleeping popper sees an
  empty queue and a sleeping pusher a full one.\<close>

theorem queue_monitor_safe:
  assumes "reachable n s" "0 \<le> n" "n < 2 ^ 31"
  shows "(\<forall>t t'. holds_mutex (mon_pc s t) \<longrightarrow> holds_mutex (mon_pc s t') \<longrightarrow> t = t') \<and>
         int (length (bq_items (mon_queue s))) \<le> n \<and>
         mon_pushed s = mon_popped s @ bq_items (mon_queue s) \<and>
         (\<forall>t. mon_pc s t = Asleep Pop_call \<longrightarrow> bq_items (mon_queue s) = []) \<and>
         (\<forall>t x b. mon_pc s t = Asleep (Push_call x b) \<longrightarrow> full (mon_queue s))"
proof -
  from reachable_monitor_ok [OF assms]
  have ok: "mutex_ok s" "waits_ok s" "history_ok s" "bound_ok n s" by (simp_all add: monitor_ok_def)
  show ?thesis
  proof (intro conjI allI impI)
    fix t t'
    assume "holds_mutex (mon_pc s t)" "holds_mutex (mon_pc s t')"
    with ok(1) show "t = t'" by (metis mutex_unique)
  next
    fix t
    assume "mon_pc s t = Asleep Pop_call"
    with ok(2) show "bq_items (mon_queue s) = []" by (metis waits_ok_def waits_for_item.simps(2))
  next
    fix t x b
    assume "mon_pc s t = Asleep (Push_call x b)"
    with ok(2) show "full (mon_queue s)" by (metis waits_ok_def waits_for_space.simps(2))
  qed (use ok in \<open>simp_all add: history_ok_def bound_ok_def\<close>)
qed


text \<open>Concrete histories: thread 0 pushes 7, then thread 1 pops it.\<close>

definition after_push :: "nat monitor" where
  "after_push = run_push 0 7 True (set_pc 0 (Inside (Push_call 7 True))
     ((set_pc 0 (Entering (Push_call 7 True)) (new_monitor 10))\<lparr>mon_owner := Some 0\<rparr>))"

definition after_pop :: "nat monitor" where
  "after_pop = run_pop 1 (set_pc 1 (Inside Pop_call)
     ((set_pc 1 (Entering Pop_call) after_push)\<lparr>mon_owner := Some 1\<rparr>))"

lemma reachable_call:
  assumes "reachable n s" "mon_pc s t = Idle" "mon_owner s = None"
  shows "reachable n (set_pc t (Inside c) ((set_pc t (Entering c) s)\<lparr>mon_owner := Some t\<rparr>))"
proof -
  have "reachable n (set_pc t (Entering c) s)"
    using assms(1,2) by (blast intro: reachable_step step_call)
  moreover have "mon_pc (set_pc t (Entering c) s) t = Entering c"
    "mon_owner (set_pc t (Entering c) s) = None"
    using assms(3) by (simp_all add: set_pc_def)
  ultimately show ?thesis by (blast intro: reachable_step step_lock)
qed

lemma reachable_after_push: "reachable 10 after_push"
proof -
  have "reachable 10 (set_pc 0 (Inside (Push_call 7 True))
     ((set_pc 0 (Entering (Push_call 7 True)) (new_monitor 10))\<lparr>mon_owner := Some 0\<rparr>))"
    by (rule reachable_call [OF reachable_init]) (simp_all add: new_monitor_def)
  moreover have "mon_pc (set_pc 0 (Inside (Push_call (7 :: nat) True))
     ((set_pc 0 (Entering (Push_call 7 True)) (new_monitor 10))\<lparr>mon_owner := Some 0\<rparr>)) 0 =
     Inside (Push_call 7 True)"
    by (simp add: set_pc_def)
  ultimately show ?thesis unfolding after_push_def by (blast intro: reachable_step step_push)
qed

lemma after_push_simps:
  "mon_queue after_push = (new_BlockingQueue 10)\<lparr>bq_items := [7]\<rparr>"
  "mon_owner after_push = None" "mon_destructor after_push = Alive"
  "mon_pushed after_push = [7]" "mon_popped after_push = []" "mon_pc after_push t = Idle"
  by (simp_all add: after_push_def run_push_def push_def monitor_ops new_monitor_def full_def)

lemma reachable_after_pop: "reachable 10 after_pop"
proof -
  have "reachable 10 (set_pc 1 (Inside Pop_call)
     ((set_pc 1 (Entering Pop_call) after_push)\<lparr>mon_owner := Some 1\<rparr>))"
    by (rule reachable_call [OF reachable_after_push]) (simp_all add: after_push_simps)
  moreover have "mon_pc (set_pc 1 (Inside Pop_call)
     ((set_pc 1 (Entering Pop_call) after_push)\<lparr>mon_owner := Some 1\<rparr>)) 1 = Inside Pop_call"
    by (simp add: set_pc_def)
  ultimately show ?thesis unfolding after_pop_def by (blast intro: reachable_step step_pop)
qed

lemma after_pop_simps:
  "mon_destructor after_pop = Alive" "mon_pushed after_pop = [7]" "mon_popped after_pop = [7]"
  "mon_pc after_pop t = Idle" "bq_items (mon_queue after_pop) = []"
  by (simp_all add: after_pop_def run_pop_def pop_def monitor_ops after_push_simps)

theorem queue_monitor_safe_witness:
  "mon_pushed after_pop = mon_popped after_pop @ bq_items (mon_queue after_pop)
     \<and> mon_pushed after_pop = [7]"
  using queue_monitor_safe [OF reachable_after_pop] by (simp add: after_pop_simps)


section \<open>Destruction\<close>

text \<open>Once \<^verbatim>\<open>run\<close> is false and nobody is about to wait, nobody will wait again.\<close>

definition closing_ok :: "'a monitor \<Rightarrow> bool" where
  "closing_ok s \<longleftrightarrow> \<not> bq_run (mon_queue s) \<and> mon_destructor s \<noteq> Alive \<and>
     (\<forall>t c. mon_pc s t \<noteq> Committed c) \<and>
     (mon_destructor s \<noteq> Cleared \<longrightarrow> (\<forall>t. mon_pc s t \<noteq> Asleep Pop_call)) \<and>
     (mon_destructor s = Destroyed \<longrightarrow> (\<forall>t c. mon_pc s t \<noteq> Asleep c))"

lemma wake_popper_eq:
  "wake_popper p = Committed c \<longleftrightarrow> p = Committed c"
  "wake_popper p \<noteq> Asleep Pop_call"
  "wake_popper p = Asleep c \<longleftrightarrow> p = Asleep c \<and> c \<noteq> Pop_call"
  by (cases p rule: wake_popper.cases; auto)+

lemma wake_pusher_eq:
  "wake_pusher p = Committed c \<longleftrightarrow> p = Committed c"
  "wake_pusher p = Asleep c \<longleftrightarrow> p = Asleep c \<and> c = Pop_call"
  by (cases p rule: wake_pusher.cases; auto; cases c; auto)+

lemma step_closing: "step s s' \<Longrightarrow> closing_ok s \<Longrightarrow> closing_ok s'"
proof (induction rule: step.induct)
  case (step_push s t x b)
  then show ?case
    by (auto simp: closing_ok_def run_push_def push_def monitor_ops wake_popper_eq)
next
  case (step_pop s t)
  then show ?case by (auto simp: closing_ok_def run_pop_def pop_def monitor_ops)
qed (auto simp: closing_ok_def monitor_ops wake_popper_eq wake_pusher_eq)

text \<open>If no thread is between the test of its loop and \<^verbatim>\<open>wait\<close> when the destructor clears
  \<^verbatim>\<open>run\<close>, then whatever the threads do meanwhile, when the destructor has finished no thread is
  asleep in the queue or about to sleep.\<close>

theorem close_wakes_everyone:
  assumes "mon_destructor s = Alive" "\<forall>t c. mon_pc s t \<noteq> Committed c"
    and "step\<^sup>*\<^sup>* (s\<lparr>mon_queue := close_queue (mon_queue s), mon_destructor := Cleared\<rparr>) s'"
    and "mon_destructor s' = Destroyed"
  shows "mon_pc s' t \<noteq> Asleep c \<and> mon_pc s' t \<noteq> Committed c"
proof -
  have "closing_ok (s\<lparr>mon_queue := close_queue (mon_queue s), mon_destructor := Cleared\<rparr>)"
    using assms(2) by (simp add: closing_ok_def close_queue_def)
  with assms(3) have "closing_ok s'"
    by (induction rule: rtranclp_induct) (simp_all add: step_closing)
  with assms(4) show ?thesis by (simp add: closing_ok_def)
qed

definition destroy :: "'a monitor \<Rightarrow> 'a monitor" where
  "destroy s = notify_isFull (notify_isEmpty (s\<lparr>mon_queue := close_queue (mon_queue s)\<rparr>)
     \<lparr>mon_destructor := Destroyed\<rparr>)"

lemma destroy_steps:
  assumes "mon_destructor s = Alive"
  shows "step\<^sup>*\<^sup>* (s\<lparr>mon_queue := close_queue (mon_queue s), mon_destructor := Cleared\<rparr>) (destroy s)"
    and "step s (s\<lparr>mon_queue := close_queue (mon_queue s), mon_destructor := Cleared\<rparr>)"
proof -
  let ?s = "s\<lparr>mon_queue := close_queue (mon_queue s), mon_destructor := Cleared\<rparr>"
  have "step ?s (notify_isEmpty (?s\<lparr>mon_destructor := Empty_notified\<rparr>))" (is "step _ ?s1")
    by (rule step_notify_empty) simp
  moreover have "step ?s1 (notify_isFull (?s1\<lparr>mon_destructor := Destroyed\<rparr>))"
    by (rule step_notify_full) (simp add: notify_isEmpty_def)
  moreover have "notify_isFull (?s1\<lparr>mon_destructor := Destroyed\<rparr>) = destroy s"
    by (simp add: destroy_def notify_isEmpty_def notify_isFull_def)
  ultimately show "step\<^sup>*\<^sup>* ?s (destroy s)" by (metis converse_rtranclp_into_rtranclp rtranclp.rtrancl_refl)
  show "step s ?s" using assms by (rule step_clear)
qed

definition popper_asleep :: "nat monitor" where
  "popper_asleep = (new_monitor 10)\<lparr>mon_pc := (\<lambda>_. Idle)(0 := Asleep Pop_call)\<rparr>"

theorem close_wakes_everyone_witness:
  "mon_pc popper_asleep 0 = Asleep Pop_call \<and> mon_pc (destroy popper_asleep) 0 = Entering Pop_call
   \<and> mon_pc (destroy popper_asleep) 0 \<noteq> Asleep Pop_call"
proof -
  have "mon_destructor popper_asleep = Alive" "\<forall>t c. mon_pc popper_asleep t \<noteq> Committed c"
    by (simp_all add: popper_asleep_def new_monitor_def)
  from close_wakes_everyone [OF this destroy_steps(1) [OF this(1)], of 0 Pop_call]
  show ?thesis
    by (simp add: destroy_def notify_isEmpty_def notify_isFull_def popper_asleep_def)
qed

text \<open>
  The destructor does not take the mutex. A popper that has found the queue empty, and has not yet
  called \<^verbatim>\<open>wait\<close>, misses both notifications.
\<close>

definition popper_committed :: "nat monitor" where
  "popper_committed = run_pop 0 (set_pc 0 (Inside Pop_call)
     ((set_pc 0 (Entering Pop_call) (new_monitor 10))\<lparr>mon_owner := Some 0\<rparr>))"

definition wakeup_lost :: "nat monitor" where
  "wakeup_lost = set_pc 0 (Asleep Pop_call) (destroy popper_committed\<lparr>mon_owner := None\<rparr>)"

lemma reachable_popper_committed: "reachable 10 popper_committed"
proof -
  have "reachable 10 (set_pc 0 (Inside Pop_call)
     ((set_pc 0 (Entering Pop_call) (new_monitor 10 :: nat monitor))\<lparr>mon_owner := Some 0\<rparr>))"
    by (rule reachable_call [OF reachable_init]) (simp_all add: new_monitor_def)
  moreover have "mon_pc (set_pc 0 (Inside Pop_call)
     ((set_pc 0 (Entering Pop_call) (new_monitor 10 :: nat monitor))\<lparr>mon_owner := Some 0\<rparr>)) 0 =
     Inside Pop_call"
    by (simp add: set_pc_def)
  ultimately show ?thesis unfolding popper_committed_def by (blast intro: reachable_step step_pop)
qed

lemma popper_committed_simps:
  "mon_pc popper_committed 0 = Committed Pop_call" "t \<noteq> 0 \<Longrightarrow> mon_pc popper_committed t = Idle"
  "mon_destructor popper_committed = Alive"
  by (simp_all add: popper_committed_def run_pop_def pop_def set_pc_def new_monitor_def)

lemma reachable_steps: "step\<^sup>*\<^sup>* s s' \<Longrightarrow> reachable n s \<Longrightarrow> reachable n s'"
  by (induction rule: rtranclp_induct) (auto intro: reachable_step)

lemma reachable_wakeup_lost: "reachable 10 wakeup_lost"
proof -
  have "reachable 10 (destroy popper_committed)"
    using destroy_steps [OF popper_committed_simps(3)] reachable_popper_committed
    by (blast intro: reachable_steps reachable_step)
  moreover have "mon_pc (destroy popper_committed) 0 = Committed Pop_call"
    by (simp add: destroy_def notify_isEmpty_def notify_isFull_def popper_committed_simps)
  ultimately show ?thesis
    unfolding wakeup_lost_def by (blast intro: reachable_step step_wait)
qed

lemma wakeup_lost_simps:
  "mon_pc wakeup_lost 0 = Asleep Pop_call" "t \<noteq> 0 \<Longrightarrow> mon_pc wakeup_lost t = Idle"
  "mon_destructor wakeup_lost = Destroyed" "mon_owner wakeup_lost = None"
  by (simp_all add: wakeup_lost_def destroy_def set_pc_def notify_isEmpty_def notify_isFull_def
      popper_committed_simps)

text \<open>C13: The destructor sets \<^verbatim>\<open>run\<close> without holding the mutex, and so a wakeup can be lost: a state
  is reachable in which the destructor has finished, no thread is inside the mutex, and a popper is
  asleep that only a spurious wakeup ends; every other step leaves it asleep.\<close>

theorem destructor_loses_wakeup:
  "\<exists>s :: nat monitor. reachable 10 s \<and> mon_destructor s = Destroyed \<and> mon_owner s = None \<and>
     mon_pc s 0 = Asleep Pop_call \<and>
     {s'. step s s'} \<subseteq> {s'. mon_pc s' 0 = Asleep Pop_call} \<union> {set_pc 0 (Entering Pop_call) s}"
proof (intro exI conjI subsetI)
  fix s'
  assume "s' \<in> {s'. step wakeup_lost s'}"
  then have "step wakeup_lost s'" by simp
  then show "s' \<in> {s'. mon_pc s' 0 = Asleep Pop_call} \<union> {set_pc 0 (Entering Pop_call) wakeup_lost}"
  proof (cases rule: step.cases)
    case (step_call t c)
    then show ?thesis by (cases "t = 0") (simp_all add: wakeup_lost_simps set_pc_def)
  next
    case (step_spurious t c)
    then show ?thesis by (cases "t = 0") (simp_all add: wakeup_lost_simps)
  next
    case (step_lock t c)
    then show ?thesis by (cases "t = 0") (simp_all add: wakeup_lost_simps)
  next
    case (step_push t x b)
    then show ?thesis by (cases "t = 0") (simp_all add: wakeup_lost_simps)
  next
    case (step_pop t)
    then show ?thesis by (cases "t = 0") (simp_all add: wakeup_lost_simps)
  next
    case (step_wait t c)
    then show ?thesis by (cases "t = 0") (simp_all add: wakeup_lost_simps)
  qed (simp_all add: wakeup_lost_simps)
qed (simp_all add: reachable_wakeup_lost wakeup_lost_simps)

end
