(* ===== verification/Packet_Fields.thy ===== *)
theory Packet_Fields
  imports Prelude
begin

text \<open>
  The fields of an AMBE-3000 packet: the \<^verbatim>\<open>Field\<close> class hierarchy of
  \<^verbatim>\<open>src/modules/ambe3k/protocol.hpp\<close> and \<^verbatim>\<open>protocol.cpp\<close>.

  A C++ field object holds a pointer into the packet's buffer; here it holds the offset of
  that pointer. A constructor takes the buffer and the offset and returns the field and the
  buffer it leaves, since several constructors write through the pointer (the two that are
  also used when a packet is parsed write the opcode that is already there). Constructors
  that assert on the buffer's content fail with \<open>Assert_failed\<close>.
\<close>

section \<open>Constants of the protocol\<close>

definition AMBE3K_START_BYTE :: byte where [simp]: "AMBE3K_START_BYTE = 0x61"
definition AMBE3K_PARITY_BYTE :: byte where [simp]: "AMBE3K_PARITY_BYTE = 0x2f"

definition AMBE3K_TYPE_CONTROL :: byte where [simp]: "AMBE3K_TYPE_CONTROL = 0x00"
definition AMBE3K_TYPE_AMBE :: byte where [simp]: "AMBE3K_TYPE_AMBE = 0x01"
definition AMBE3K_TYPE_AUDIO :: byte where [simp]: "AMBE3K_TYPE_AUDIO = 0x02"

definition AMBE3K_CONTROL_RATEP :: byte where [simp]: "AMBE3K_CONTROL_RATEP = 0x0A"
definition AMBE3K_CONTROL_RATET :: byte where [simp]: "AMBE3K_CONTROL_RATET = 0x09"
definition AMBE3K_CONTROL_INIT :: byte where [simp]: "AMBE3K_CONTROL_INIT = 0x0B"
definition AMBE3K_CONTROL_PRODID :: byte where [simp]: "AMBE3K_CONTROL_PRODID = 0x30"
definition AMBE3K_CONTROL_VERSTRING :: byte where [simp]: "AMBE3K_CONTROL_VERSTRING = 0x31"
definition AMBE3K_CONTROL_RESET :: byte where [simp]: "AMBE3K_CONTROL_RESET = 0x33"
definition AMBE3K_CONTROL_READY :: byte where [simp]: "AMBE3K_CONTROL_READY = 0x39"

definition AMBE3K_DIRECTION_ENCODE :: byte where [simp]: "AMBE3K_DIRECTION_ENCODE = 0x01"
definition AMBE3K_DIRECTION_DECODE :: byte where [simp]: "AMBE3K_DIRECTION_DECODE = 0x02"

definition AMBE3K_CHANNEL_CHAND :: byte where [simp]: "AMBE3K_CHANNEL_CHAND = 0x01"
definition AMBE3K_SPEECH_SPEECHD :: byte where [simp]: "AMBE3K_SPEECH_SPEECHD = 0x00"

definition AMBE3K_FIFO_MAX_PENDING :: nat where [simp]: "AMBE3K_FIFO_MAX_PENDING = 3"

section \<open>The field objects\<close>

text \<open>
  The first argument of every constructor is the \<^verbatim>\<open>data\<close> pointer of the base class, as an
  offset into the packet's buffer. \<open>ProdIdResponseField\<close> keeps its copy of the string,
  \<open>ChanDField\<close> and \<open>SpeechDField\<close> their \<^verbatim>\<open>size_t\<close> counters.
\<close>

datatype (discs_sels) field =
    ChecksumField nat
  | ResetField nat
  | ReadyField nat
  | ProdIdRequestField nat
  | ProdIdResponseField nat bytes
  | VersionStringRequestField nat
  | VersionStringResponseField nat
  | ChannelField nat
  | ChannelResponseField nat
  | RateTRequestField nat
  | RateTResponseField nat
  | RatePRequestField nat
  | RatePResponseField nat
  | InitRequestField nat
  | InitResponseField nat
  | ChanDField nat nat
  | SpeechDField nat nat

primrec field_data :: "field \<Rightarrow> nat" where
  "field_data (ChecksumField d) = d"
| "field_data (ResetField d) = d"
| "field_data (ReadyField d) = d"
| "field_data (ProdIdRequestField d) = d"
| "field_data (ProdIdResponseField d s) = d"
| "field_data (VersionStringRequestField d) = d"
| "field_data (VersionStringResponseField d) = d"
| "field_data (ChannelField d) = d"
| "field_data (ChannelResponseField d) = d"
| "field_data (RateTRequestField d) = d"
| "field_data (RateTResponseField d) = d"
| "field_data (RatePRequestField d) = d"
| "field_data (RatePResponseField d) = d"
| "field_data (InitRequestField d) = d"
| "field_data (InitResponseField d) = d"
| "field_data (ChanDField d bits) = d"
| "field_data (SpeechDField d samples) = d"

text \<open>\<^verbatim>\<open>getLength\<close> of each class, and the virtual call.\<close>

definition ChecksumField_getLength :: nat where [simp]: "ChecksumField_getLength = 2"
definition ResetField_getLength :: nat where [simp]: "ResetField_getLength = 1"
definition ReadyField_getLength :: nat where [simp]: "ReadyField_getLength = 1"
definition ProdIdRequestField_getLength :: nat where [simp]: "ProdIdRequestField_getLength = 1"
definition ProdIdResponseField_getLength :: "bytes \<Rightarrow> nat" where
  [simp]: "ProdIdResponseField_getLength productId = length productId + 2"
definition VersionStringRequestField_getLength :: nat where [simp]: "VersionStringRequestField_getLength = 1"
definition VersionStringResponseField_getLength :: nat where [simp]: "VersionStringResponseField_getLength = 49"
definition ChannelField_getLength :: nat where [simp]: "ChannelField_getLength = 1"
definition ChannelResponseField_getLength :: nat where [simp]: "ChannelResponseField_getLength = 2"
definition RateTRequestField_getLength :: nat where [simp]: "RateTRequestField_getLength = 2"
definition RateTResponseField_getLength :: nat where [simp]: "RateTResponseField_getLength = 2"
definition RatePRequestField_getLength :: nat where [simp]: "RatePRequestField_getLength = 13"
definition RatePResponseField_getLength :: nat where [simp]: "RatePResponseField_getLength = 2"
definition InitRequestField_getLength :: nat where [simp]: "InitRequestField_getLength = 2"
definition InitResponseField_getLength :: nat where [simp]: "InitResponseField_getLength = 2"
definition ChanDField_getLength :: "nat \<Rightarrow> nat" where
  [simp]: "ChanDField_getLength bits = 2 + (bits + 7) div 8"
definition SpeechDField_getLength :: "nat \<Rightarrow> nat" where
  [simp]: "SpeechDField_getLength samples = 2 + samples * 2"

primrec getLength :: "field \<Rightarrow> nat" where
  "getLength (ChecksumField d) = ChecksumField_getLength"
| "getLength (ResetField d) = ResetField_getLength"
| "getLength (ReadyField d) = ReadyField_getLength"
| "getLength (ProdIdRequestField d) = ProdIdRequestField_getLength"
| "getLength (ProdIdResponseField d productId) = ProdIdResponseField_getLength productId"
| "getLength (VersionStringRequestField d) = VersionStringRequestField_getLength"
| "getLength (VersionStringResponseField d) = VersionStringResponseField_getLength"
| "getLength (ChannelField d) = ChannelField_getLength"
| "getLength (ChannelResponseField d) = ChannelResponseField_getLength"
| "getLength (RateTRequestField d) = RateTRequestField_getLength"
| "getLength (RateTResponseField d) = RateTResponseField_getLength"
| "getLength (RatePRequestField d) = RatePRequestField_getLength"
| "getLength (RatePResponseField d) = RatePResponseField_getLength"
| "getLength (InitRequestField d) = InitRequestField_getLength"
| "getLength (InitResponseField d) = InitResponseField_getLength"
| "getLength (ChanDField d bits) = ChanDField_getLength bits"
| "getLength (SpeechDField d samples) = SpeechDField_getLength samples"

lemma getLength_pos [simp]: "0 < getLength f"
  by (cases f) simp_all

section \<open>Constructors\<close>

definition new_ChecksumField :: "bytes \<Rightarrow> nat \<Rightarrow> error + field \<times> bytes" where
  "new_ChecksumField d off =
     bindE (set_byte d off AMBE3K_PARITY_BYTE) (\<lambda>d. Inr (ChecksumField off, d))"

definition new_ResetField :: "bytes \<Rightarrow> nat \<Rightarrow> error + field \<times> bytes" where
  "new_ResetField d off =
     bindE (set_byte d off AMBE3K_CONTROL_RESET) (\<lambda>d. Inr (ResetField off, d))"

definition new_ReadyField :: "bytes \<Rightarrow> nat \<Rightarrow> error + field \<times> bytes" where
  "new_ReadyField d off =
     bindE (set_byte d off AMBE3K_CONTROL_READY) (\<lambda>d. Inr (ReadyField off, d))"

definition new_ProdIdRequestField :: "bytes \<Rightarrow> nat \<Rightarrow> error + field \<times> bytes" where
  "new_ProdIdRequestField d off =
     bindE (set_byte d off AMBE3K_CONTROL_PRODID) (\<lambda>d. Inr (ProdIdRequestField off, d))"

definition new_ProdIdResponseField :: "bytes \<Rightarrow> nat \<Rightarrow> error + field \<times> bytes" where
  "new_ProdIdResponseField d off =
     bindE (get_cstring d (off + 1)) (\<lambda>s. Inr (ProdIdResponseField off s, d))"

definition new_VersionStringRequestField :: "bytes \<Rightarrow> nat \<Rightarrow> error + field \<times> bytes" where
  "new_VersionStringRequestField d off =
     bindE (set_byte d off AMBE3K_CONTROL_VERSTRING) (\<lambda>d. Inr (VersionStringRequestField off, d))"

definition new_VersionStringResponseField :: "bytes \<Rightarrow> nat \<Rightarrow> error + field \<times> bytes" where
  "new_VersionStringResponseField d off = Inr (VersionStringResponseField off, d)"

text \<open>The two constructors of \<^verbatim>\<open>ChannelField\<close>: around received data, and for sending.\<close>

definition new_ChannelField :: "bytes \<Rightarrow> nat \<Rightarrow> error + field \<times> bytes" where
  "new_ChannelField d off = Inr (ChannelField off, d)"

definition new_ChannelField_for :: "bytes \<Rightarrow> nat \<Rightarrow> byte \<Rightarrow> error + field \<times> bytes" where
  "new_ChannelField_for d off channel =
     (if channel \<le> 3
      then bindE (set_byte d off (0x40 + channel)) (\<lambda>d. Inr (ChannelField off, d))
      else Inl (Crash Assert_failed))"

text \<open>\<^verbatim>\<open>assert(data[1] == 0)\<close>, shared by four response fields.\<close>

definition assert_zero :: "bytes \<Rightarrow> nat \<Rightarrow> error + unit" where
  "assert_zero d i =
     bindE (get_byte d i) (\<lambda>b. if b = 0 then Inr () else Inl (Crash Assert_failed))"

definition new_ChannelResponseField :: "bytes \<Rightarrow> nat \<Rightarrow> error + field \<times> bytes" where
  "new_ChannelResponseField d off =
     bindE (assert_zero d (off + 1)) (\<lambda>_. Inr (ChannelResponseField off, d))"

definition new_RateTRequestField :: "bytes \<Rightarrow> nat \<Rightarrow> byte \<Rightarrow> error + field \<times> bytes" where
  "new_RateTRequestField d off index =
     bindE (set_byte d off AMBE3K_CONTROL_RATET) (\<lambda>d.
     bindE (set_byte d (off + 1) index) (\<lambda>d. Inr (RateTRequestField off, d)))"

definition new_RateTResponseField :: "bytes \<Rightarrow> nat \<Rightarrow> error + field \<times> bytes" where
  "new_RateTResponseField d off =
     bindE (assert_zero d (off + 1)) (\<lambda>_. Inr (RateTResponseField off, d))"

text \<open>The loop of \<^verbatim>\<open>RatePRequestField\<close>: \<^verbatim>\<open>output[i] = htons(cwds[i])\<close>.\<close>

fun put_shorts :: "bytes \<Rightarrow> nat \<Rightarrow> short list \<Rightarrow> error + bytes" where
  "put_shorts d off [] = Inr d"
| "put_shorts d off (w # ws) =
     bindE (write_bytes d off (le16 (htons w))) (\<lambda>d. put_shorts d (off + 2) ws)"

definition new_RatePRequestField :: "bytes \<Rightarrow> nat \<Rightarrow> short list \<Rightarrow> error + field \<times> bytes" where
  "new_RatePRequestField d off cwds =
     bindE (set_byte d off AMBE3K_CONTROL_RATEP) (\<lambda>d.
     if length cwds < 6 then Inl (Crash Out_of_bounds)
     else bindE (put_shorts d (off + 1) (take 6 cwds)) (\<lambda>d. Inr (RatePRequestField off, d)))"

definition new_RatePResponseField :: "bytes \<Rightarrow> nat \<Rightarrow> error + field \<times> bytes" where
  "new_RatePResponseField d off =
     bindE (assert_zero d (off + 1)) (\<lambda>_. Inr (RatePResponseField off, d))"

definition new_InitRequestField :: "bytes \<Rightarrow> nat \<Rightarrow> byte \<Rightarrow> error + field \<times> bytes" where
  "new_InitRequestField d off direction =
     bindE (set_byte d off AMBE3K_CONTROL_INIT) (\<lambda>d.
     bindE (set_byte d (off + 1) direction) (\<lambda>d. Inr (InitRequestField off, d)))"

definition new_InitResponseField :: "bytes \<Rightarrow> nat \<Rightarrow> error + field \<times> bytes" where
  "new_InitResponseField d off =
     bindE (assert_zero d (off + 1)) (\<lambda>_. Inr (InitResponseField off, d))"

definition new_ChanDField :: "bytes \<Rightarrow> nat \<Rightarrow> error + field \<times> bytes" where
  "new_ChanDField d off = bindE (get_byte d (off + 1)) (\<lambda>b. Inr (ChanDField off (unat b), d))"

definition new_ChanDField_for :: "bytes \<Rightarrow> nat \<Rightarrow> bytes \<Rightarrow> byte \<Rightarrow> error + field \<times> bytes" where
  "new_ChanDField_for d off channelData bits =
     bindE (set_byte d off AMBE3K_CHANNEL_CHAND) (\<lambda>d.
     bindE (set_byte d (off + 1) bits) (\<lambda>d.
     bindE (read_bytes channelData 0 ((unat bits + 7) div 8)) (\<lambda>cd.
     bindE (write_bytes d (off + 2) cd) (\<lambda>d. Inr (ChanDField off (unat bits), d)))))"

definition new_SpeechDField :: "bytes \<Rightarrow> nat \<Rightarrow> error + field \<times> bytes" where
  "new_SpeechDField d off = bindE (get_byte d (off + 1)) (\<lambda>b. Inr (SpeechDField off (unat b), d))"

text \<open>The speech samples are copied as they are, without \<^verbatim>\<open>htons\<close>.\<close>

definition new_SpeechDField_for :: "bytes \<Rightarrow> nat \<Rightarrow> bytes \<Rightarrow> byte \<Rightarrow> error + field \<times> bytes" where
  "new_SpeechDField_for d off speechData samples =
     bindE (set_byte d off AMBE3K_SPEECH_SPEECHD) (\<lambda>d.
     bindE (set_byte d (off + 1) samples) (\<lambda>d.
     bindE (read_bytes speechData 0 (unat samples * 2)) (\<lambda>sd.
     bindE (write_bytes d (off + 2) sd) (\<lambda>d. Inr (SpeechDField off (unat samples), d)))))"

section \<open>Accessors\<close>

definition setChecksum :: "bytes \<Rightarrow> field \<Rightarrow> byte \<Rightarrow> error + bytes" where
  "setChecksum d f checksum = set_byte d (field_data f + 1) checksum"

definition isCorrect :: "bytes \<Rightarrow> field \<Rightarrow> byte \<Rightarrow> error + bool" where
  "isCorrect d f checksum = bindE (get_byte d (field_data f + 1)) (\<lambda>b. Inr (b = checksum))"

fun productId :: "field \<Rightarrow> bytes" where
  "productId (ProdIdResponseField d s) = s"
| "productId _ = []"

definition getVersionId :: "bytes \<Rightarrow> field \<Rightarrow> error + bytes" where
  "getVersionId d f = read_bytes d (field_data f + 1) 48"

text \<open>\<^verbatim>\<open>getChannel\<close> of \<^verbatim>\<open>ChannelField\<close> and of \<^verbatim>\<open>ChannelResponseField\<close>.\<close>

definition field_getChannel :: "bytes \<Rightarrow> field \<Rightarrow> error + byte" where
  "field_getChannel d f = bindE (get_byte d (field_data f)) (\<lambda>b. Inr (b - 0x40))"

text \<open>
  The accessors of the data fields copy into the caller's buffer and return the number of
  bytes; the model returns the bytes, or the samples in host order.
\<close>

definition field_getChannelData :: "bytes \<Rightarrow> field \<Rightarrow> error + bytes" where
  "field_getChannelData d f = read_bytes d (field_data f + 2) (getLength f - 2)"

definition field_getSpeechData :: "bytes \<Rightarrow> field \<Rightarrow> error + short list" where
  "field_getSpeechData d f =
     bindE (read_bytes d (field_data f + 2) (getLength f - 2)) (\<lambda>src. Inr (map ntohs (shorts_of src)))"

lemma put_shorts_append:
  "length ys = 2 * length ws \<Longrightarrow>
   put_shorts (pre @ ys @ zs) (length pre) ws = Inr (pre @ concat (map be16 ws) @ zs)"
proof (induction ws arbitrary: pre ys)
  case Nil
  then show ?case by simp
next
  case (Cons w ws)
  then obtain y1 y2 ys' where ys: "ys = y1 # y2 # ys'" and len: "length ys' = 2 * length ws"
    by (cases ys; cases "tl ys") auto
  have "write_bytes (pre @ ys @ zs) (length pre) (le16 (htons w)) = Inr ((pre @ be16 w) @ ys' @ zs)"
    using write_bytes_append [of "[y1, y2]" "le16 (htons w)" pre "ys' @ zs"] by (simp add: ys)
  then show ?case
    using Cons.IH [OF len, of "pre @ be16 w"] by simp
qed

lemmas field_ctor_defs =
  new_ChecksumField_def new_ResetField_def new_ReadyField_def new_ProdIdRequestField_def
  new_ProdIdResponseField_def new_VersionStringRequestField_def
  new_VersionStringResponseField_def new_ChannelField_def new_ChannelField_for_def
  new_ChannelResponseField_def new_RateTRequestField_def new_RateTResponseField_def
  new_RatePRequestField_def new_RatePResponseField_def new_InitRequestField_def
  new_InitResponseField_def new_ChanDField_def new_ChanDField_for_def new_SpeechDField_def
  new_SpeechDField_for_def

text \<open>
  A constructor that is used on received data leaves the buffer as it was, when the opcode
  under the pointer is the one that selected it, and only fails by an assertion or by
  looking at the byte(s) after the opcode.
\<close>

lemma response_ctors_keep_buffer:
  "new_ProdIdResponseField d off = Inr (f, d') \<Longrightarrow> d' = d"
  "new_VersionStringResponseField d off = Inr (f, d') \<Longrightarrow> d' = d"
  "new_ChannelField d off = Inr (f, d') \<Longrightarrow> d' = d"
  "new_ChannelResponseField d off = Inr (f, d') \<Longrightarrow> d' = d"
  "new_RateTResponseField d off = Inr (f, d') \<Longrightarrow> d' = d"
  "new_RatePResponseField d off = Inr (f, d') \<Longrightarrow> d' = d"
  "new_InitResponseField d off = Inr (f, d') \<Longrightarrow> d' = d"
  "new_ChanDField d off = Inr (f, d') \<Longrightarrow> d' = d"
  "new_SpeechDField d off = Inr (f, d') \<Longrightarrow> d' = d"
  by (auto simp: field_ctor_defs)

lemma opcode_ctors_keep_buffer:
  "get_byte d off = Inr AMBE3K_PARITY_BYTE \<Longrightarrow> new_ChecksumField d off = Inr (ChecksumField off, d)"
  "get_byte d off = Inr AMBE3K_CONTROL_READY \<Longrightarrow> new_ReadyField d off = Inr (ReadyField off, d)"
  by (simp_all only: field_ctor_defs set_byte_same bindE_simps)

end
