(* ===== verification/Packets.thy ===== *)
theory Packets
  imports Packet_Fields
begin

text \<open>
  Packets: the \<^verbatim>\<open>Packet\<close> class, its subclasses \<^verbatim>\<open>ControlPacket\<close>, \<^verbatim>\<open>ChannelPacket\<close> and
  \<^verbatim>\<open>SpeechPacket\<close>, and the request packets, of \<^verbatim>\<open>src/modules/ambe3k/protocol.cpp\<close>.

  A packet owns its buffer; the pointers to its fields are options. \<open>p_kind\<close> is the dynamic
  type that virtual calls and \<^verbatim>\<open>dynamic_cast\<close> look at. The request subclasses of
  \<^verbatim>\<open>ControlPacket\<close> differ from it only by pointers that their destructors read
  (\<open>p_request\<close>, \<open>p_init\<close>). Log output is not modelled; what is allocated and deleted is in
  \<^verbatim>\<open>Packet_Memory\<close>.
\<close>

section \<open>State\<close>

datatype packet_kind = ControlPacket | ChannelPacket | SpeechPacket

record packet =
  p_kind :: packet_kind
  p_data :: bytes
  p_dataSize :: nat
  p_checksum :: "field option"
  p_channel :: "field option"
  p_ready :: "field option"
  p_prodid :: "field option"
  p_version :: "field option"
  p_rateTResponse :: "field option"
  p_ratePResponse :: "field option"
  p_initResponse :: "field option"
  p_channelResponse :: "field option"
  p_chanD :: "field option"
  p_speechD :: "field option"
  p_request :: "field option"
  p_init :: "field option"

section \<open>Construction\<close>

text \<open>\<^verbatim>\<open>Packet::Packet(char*, size_t)\<close>: around an existing buffer.\<close>

definition Packet_around :: "packet_kind \<Rightarrow> bytes \<Rightarrow> nat \<Rightarrow> error + packet" where
  "Packet_around k d sz =
     (if sz \<ge> 4
      then Inr \<lparr>p_kind = k, p_data = d, p_dataSize = sz, p_checksum = None, p_channel = None,
                p_ready = None, p_prodid = None, p_version = None, p_rateTResponse = None,
                p_ratePResponse = None, p_initResponse = None, p_channelResponse = None,
                p_chanD = None, p_speechD = None, p_request = None, p_init = None\<rparr>
      else Inl (Crash Assert_failed))"

text \<open>
  \<^verbatim>\<open>Packet::Packet(size_t)\<close> and \<^verbatim>\<open>Packet::Packet(size_t, char)\<close>: a zeroed buffer with its
  header. The length field is written as a \<^verbatim>\<open>short\<close> that has been through \<^verbatim>\<open>htons\<close>.
\<close>

definition Packet_alloc :: "packet_kind \<Rightarrow> nat \<Rightarrow> error + packet" where
  "Packet_alloc k sz =
     bindE (Packet_around k (replicate sz 0) sz) (\<lambda>p.
     bindE (set_byte (p_data p) 0 AMBE3K_START_BYTE) (\<lambda>d.
     bindE (write_bytes d 1 (le16 (htons (of_nat (p_dataSize p - 4))))) (\<lambda>d.
     Inr (p\<lparr>p_data := d\<rparr>))))"

definition Packet_new :: "packet_kind \<Rightarrow> nat \<Rightarrow> byte \<Rightarrow> error + packet" where
  "Packet_new k sz type =
     bindE (Packet_alloc k sz) (\<lambda>p.
     bindE (set_byte (p_data p) 3 type) (\<lambda>d. Inr (p\<lparr>p_data := d\<rparr>)))"

definition ControlPacket_new :: "nat \<Rightarrow> error + packet" where
  "ControlPacket_new bytes = Packet_new ControlPacket bytes AMBE3K_TYPE_CONTROL"

text \<open>The payload starts four bytes into the buffer; the constructors advance an offset in it.\<close>

definition ResetPacket :: "error + packet" where
  "ResetPacket =
     bindE (ControlPacket_new 7) (\<lambda>p.
     bindE (new_ResetField (p_data p) (4 + 0)) (\<lambda>(reset, d).
     bindE (new_ChecksumField d (4 + getLength reset)) (\<lambda>(checksum, d).
     Inr (p\<lparr>p_data := d, p_request := Some reset, p_checksum := Some checksum\<rparr>))))"

definition ProdIdRequest :: "error + packet" where
  "ProdIdRequest =
     bindE (ControlPacket_new 7) (\<lambda>p.
     bindE (new_ProdIdRequestField (p_data p) (4 + 0)) (\<lambda>(request, d).
     bindE (new_ChecksumField d (4 + getLength request)) (\<lambda>(checksum, d).
     Inr (p\<lparr>p_data := d, p_request := Some request, p_checksum := Some checksum\<rparr>))))"

definition VersionStringRequest :: "error + packet" where
  "VersionStringRequest =
     bindE (ControlPacket_new 7) (\<lambda>p.
     bindE (new_VersionStringRequestField (p_data p) (4 + 0)) (\<lambda>(request, d).
     bindE (new_ChecksumField d (4 + getLength request)) (\<lambda>(checksum, d).
     Inr (p\<lparr>p_data := d, p_request := Some request, p_checksum := Some checksum\<rparr>))))"

text \<open>The two constructors of \<^verbatim>\<open>SetupRequest\<close>: by codec index, and by rate parameters.\<close>

definition SetupRequest_index :: "byte \<Rightarrow> byte \<Rightarrow> byte \<Rightarrow> error + packet" where
  "SetupRequest_index channel index direction =
     bindE (ControlPacket_new 11) (\<lambda>p.
     if \<not> channel \<le> 3 then Inl (Crash Assert_failed) else
     let offset = 4 + 0 in
     bindE (new_ChannelField_for (p_data p) offset channel) (\<lambda>(ch, d).
     let offset = offset + getLength ch in
     bindE (new_RateTRequestField d offset index) (\<lambda>(request, d).
     let offset = offset + getLength request in
     bindE (new_InitRequestField d offset direction) (\<lambda>(init, d).
     let offset = offset + getLength init in
     bindE (new_ChecksumField d offset) (\<lambda>(checksum, d).
     Inr (p\<lparr>p_data := d, p_channel := Some ch, p_request := Some request, p_init := Some init,
            p_checksum := Some checksum\<rparr>))))))"

definition SetupRequest_ratep :: "byte \<Rightarrow> short list \<Rightarrow> byte \<Rightarrow> error + packet" where
  "SetupRequest_ratep channel cwds direction =
     bindE (ControlPacket_new 22) (\<lambda>p.
     if \<not> channel \<le> 3 then Inl (Crash Assert_failed) else
     let offset = 4 + 0 in
     bindE (new_ChannelField_for (p_data p) offset channel) (\<lambda>(ch, d).
     let offset = offset + getLength ch in
     bindE (new_RatePRequestField d offset cwds) (\<lambda>(request, d).
     let offset = offset + getLength request in
     bindE (new_InitRequestField d offset direction) (\<lambda>(init, d).
     let offset = offset + getLength init in
     bindE (new_ChecksumField d offset) (\<lambda>(checksum, d).
     Inr (p\<lparr>p_data := d, p_channel := Some ch, p_request := Some request, p_init := Some init,
            p_checksum := Some checksum\<rparr>))))))"

definition new_ChannelPacket :: "byte \<Rightarrow> bytes \<Rightarrow> byte \<Rightarrow> error + packet" where
  "new_ChannelPacket channel channelData bits =
     bindE (Packet_new ChannelPacket ((unat bits + 7) div 8 + 9) AMBE3K_TYPE_AMBE) (\<lambda>p.
     let offset = 4 + 0 in
     bindE (new_ChannelField_for (p_data p) offset channel) (\<lambda>(ch, d).
     let offset = offset + getLength ch in
     bindE (new_ChanDField_for d offset channelData bits) (\<lambda>(chanD, d).
     let offset = offset + getLength chanD in
     bindE (new_ChecksumField d offset) (\<lambda>(checksum, d).
     Inr (p\<lparr>p_data := d, p_channel := Some ch, p_chanD := Some chanD,
            p_checksum := Some checksum\<rparr>)))))"

definition new_SpeechPacket :: "byte \<Rightarrow> bytes \<Rightarrow> byte \<Rightarrow> error + packet" where
  "new_SpeechPacket channel speechData samples =
     bindE (Packet_new SpeechPacket (unat samples * 2 + 9) AMBE3K_TYPE_AUDIO) (\<lambda>p.
     let offset = 4 + 0 in
     bindE (new_ChannelField_for (p_data p) offset channel) (\<lambda>(ch, d).
     let offset = offset + getLength ch in
     bindE (new_SpeechDField_for d offset speechData samples) (\<lambda>(speechD, d).
     let offset = offset + getLength speechD in
     bindE (new_ChecksumField d offset) (\<lambda>(checksum, d).
     Inr (p\<lparr>p_data := d, p_channel := Some ch, p_speechD := Some speechD,
            p_checksum := Some checksum\<rparr>)))))"

section \<open>Scanning a received buffer\<close>

text \<open>The overrides of \<^verbatim>\<open>buildField\<close>; \<open>None\<close> is the null pointer for an unknown opcode.\<close>

definition built :: "error + field \<times> bytes \<Rightarrow> error + (field \<times> bytes) option" where
  "built m = bindE m (\<lambda>r. Inr (Some r))"

definition Packet_buildField :: "bytes \<Rightarrow> nat \<Rightarrow> error + (field \<times> bytes) option" where
  "Packet_buildField d cur =
     bindE (get_byte d cur) (\<lambda>opcode.
     if opcode = AMBE3K_PARITY_BYTE then built (new_ChecksumField d cur)
     else if opcode = 0x40 \<or> opcode = 0x41 \<or> opcode = 0x42 then built (new_ChannelField d cur)
     else Inr None)"

definition ControlPacket_buildField :: "bytes \<Rightarrow> nat \<Rightarrow> error + (field \<times> bytes) option" where
  "ControlPacket_buildField d cur =
     bindE (get_byte d cur) (\<lambda>opcode.
     if opcode = AMBE3K_CONTROL_READY then built (new_ReadyField d cur)
     else if opcode = AMBE3K_CONTROL_PRODID then built (new_ProdIdResponseField d cur)
     else if opcode = AMBE3K_CONTROL_VERSTRING then built (new_VersionStringResponseField d cur)
     else if opcode = AMBE3K_CONTROL_RATET then built (new_RateTResponseField d cur)
     else if opcode = AMBE3K_CONTROL_RATEP then built (new_RatePResponseField d cur)
     else if opcode = AMBE3K_CONTROL_INIT then built (new_InitResponseField d cur)
     else if opcode = 0x40 \<or> opcode = 0x41 \<or> opcode = 0x42
       then built (new_ChannelResponseField d cur)
     else Packet_buildField d cur)"

definition ChannelPacket_buildField :: "bytes \<Rightarrow> nat \<Rightarrow> error + (field \<times> bytes) option" where
  "ChannelPacket_buildField d cur =
     bindE (get_byte d cur) (\<lambda>opcode.
     if opcode = AMBE3K_CHANNEL_CHAND then built (new_ChanDField d cur)
     else Packet_buildField d cur)"

definition SpeechPacket_buildField :: "bytes \<Rightarrow> nat \<Rightarrow> error + (field \<times> bytes) option" where
  "SpeechPacket_buildField d cur =
     bindE (get_byte d cur) (\<lambda>opcode.
     if opcode = AMBE3K_SPEECH_SPEECHD then built (new_SpeechDField d cur)
     else Packet_buildField d cur)"

primrec buildField :: "packet_kind \<Rightarrow> bytes \<Rightarrow> nat \<Rightarrow> error + (field \<times> bytes) option" where
  "buildField ControlPacket d cur = ControlPacket_buildField d cur"
| "buildField ChannelPacket d cur = ChannelPacket_buildField d cur"
| "buildField SpeechPacket d cur = SpeechPacket_buildField d cur"

text \<open>The overrides of \<^verbatim>\<open>storeField\<close>, by the dynamic type of the field.\<close>

definition Packet_storeField :: "packet \<Rightarrow> field \<Rightarrow> packet" where
  "Packet_storeField p f =
     (if is_ChecksumField f then p\<lparr>p_checksum := Some f\<rparr>
      else if is_ChannelField f then p\<lparr>p_channel := Some f\<rparr>
      else p)"

definition ControlPacket_storeField :: "packet \<Rightarrow> field \<Rightarrow> packet" where
  "ControlPacket_storeField p f =
     (if is_ReadyField f then p\<lparr>p_ready := Some f\<rparr>
      else if is_ProdIdResponseField f then p\<lparr>p_prodid := Some f\<rparr>
      else if is_VersionStringResponseField f then p\<lparr>p_version := Some f\<rparr>
      else if is_RatePResponseField f then p\<lparr>p_ratePResponse := Some f\<rparr>
      else if is_RateTResponseField f then p\<lparr>p_rateTResponse := Some f\<rparr>
      else if is_InitResponseField f then p\<lparr>p_initResponse := Some f\<rparr>
      else if is_ChannelResponseField f then p\<lparr>p_channelResponse := Some f\<rparr>
      else Packet_storeField p f)"

definition ChannelPacket_storeField :: "packet \<Rightarrow> field \<Rightarrow> packet" where
  "ChannelPacket_storeField p f =
     (if is_ChanDField f then p\<lparr>p_chanD := Some f\<rparr> else Packet_storeField p f)"

definition SpeechPacket_storeField :: "packet \<Rightarrow> field \<Rightarrow> packet" where
  "SpeechPacket_storeField p f =
     (if is_SpeechDField f then p\<lparr>p_speechD := Some f\<rparr> else Packet_storeField p f)"

definition storeField :: "packet \<Rightarrow> field \<Rightarrow> packet" where
  "storeField p f =
     (case p_kind p of
        ControlPacket \<Rightarrow> ControlPacket_storeField p f
      | ChannelPacket \<Rightarrow> ChannelPacket_storeField p f
      | SpeechPacket \<Rightarrow> SpeechPacket_storeField p f)"

text \<open>
  The loop of \<^verbatim>\<open>Packet::scanFields\<close>. It stops at an unknown opcode and at a field that is
  longer than what remains; every field is at least one byte long.
\<close>

function scan_loop :: "packet \<Rightarrow> nat \<Rightarrow> nat \<Rightarrow> error + packet" where
  "scan_loop p current remaining =
     (if remaining = 0 then Inr p
      else case buildField (p_kind p) (p_data p) current of
          Inl e \<Rightarrow> Inl e
        | Inr None \<Rightarrow> Inr p
        | Inr (Some (f, d)) \<Rightarrow>
            (let p = p\<lparr>p_data := d\<rparr>; l = getLength f in
             if l > remaining then Inr p
             else scan_loop (storeField p f) (current + l) (remaining - l)))"
  by pat_completeness auto
termination
  by (relation "measure (\<lambda>(p, current, remaining). remaining)") auto

declare scan_loop.simps [simp del]

definition scanFields :: "packet \<Rightarrow> error + packet" where
  "scanFields p = scan_loop p 4 (p_dataSize p - 4)"

section \<open>Checksum\<close>

text \<open>The exclusive or of all bytes but the first and the last.\<close>

definition getChecksum :: "packet \<Rightarrow> error + byte" where
  "getChecksum p = bindE (read_bytes (p_data p) 1 (p_dataSize p - 2)) (\<lambda>bs. Inr (xor_bytes bs))"

definition hasChecksum :: "packet \<Rightarrow> bool" where
  "hasChecksum p \<longleftrightarrow> p_checksum p \<noteq> None"

definition updateChecksum :: "packet \<Rightarrow> error + packet" where
  "updateChecksum p =
     (case p_checksum p of
        None \<Rightarrow> Inr p
      | Some c \<Rightarrow>
          bindE (getChecksum p) (\<lambda>parity.
          bindE (setChecksum (p_data p) c parity) (\<lambda>d. Inr (p\<lparr>p_data := d\<rparr>))))"

definition isChecksumValid :: "packet \<Rightarrow> error + bool" where
  "isChecksumValid p =
     (case p_checksum p of
        None \<Rightarrow> Inr True
      | Some c \<Rightarrow> bindE (getChecksum p) (\<lambda>parity. isCorrect (p_data p) c parity))"

definition getPayloadLength :: "packet \<Rightarrow> nat" where
  "getPayloadLength p = p_dataSize p - 4 - (if hasChecksum p then 1 else 0) * 2"

section \<open>\<^verbatim>\<open>Packet::parse\<close>\<close>

definition parse_as :: "packet_kind \<Rightarrow> bytes \<Rightarrow> nat \<Rightarrow> error + packet option" where
  "parse_as k d sz =
     bindE (Packet_around k d sz) (\<lambda>p.
     bindE (scanFields p) (\<lambda>p.
     bindE (isChecksumValid p) (\<lambda>valid.
     Inr (if valid then Some p else None))))"

definition parse :: "bytes \<Rightarrow> nat \<Rightarrow> error + packet option" where
  "parse d sz =
     bindE (get_byte d 3) (\<lambda>type.
     if type = AMBE3K_TYPE_CONTROL then parse_as ControlPacket d sz
     else if type = AMBE3K_TYPE_AUDIO then parse_as SpeechPacket d sz
     else if type = AMBE3K_TYPE_AMBE then parse_as ChannelPacket d sz
     else Inr None)"

section \<open>Accessors\<close>

definition hasReadyField :: "packet \<Rightarrow> bool" where
  "hasReadyField p \<longleftrightarrow> p_ready p \<noteq> None"

definition hasProductId :: "packet \<Rightarrow> bool" where
  "hasProductId p \<longleftrightarrow> p_prodid p \<noteq> None"

definition getProductId :: "packet \<Rightarrow> error + bytes" where
  "getProductId p =
     (case p_prodid p of None \<Rightarrow> Inl (Crash Null_deref) | Some f \<Rightarrow> Inr (productId f))"

definition hasVersionString :: "packet \<Rightarrow> bool" where
  "hasVersionString p \<longleftrightarrow> p_version p \<noteq> None"

definition getVersionString :: "packet \<Rightarrow> error + bytes" where
  "getVersionString p =
     (case p_version p of None \<Rightarrow> Inl (Crash Null_deref) | Some f \<Rightarrow> getVersionId (p_data p) f)"

definition hasRatePResponse :: "packet \<Rightarrow> bool" where
  "hasRatePResponse p \<longleftrightarrow> p_ratePResponse p \<noteq> None"

definition hasRateTResponse :: "packet \<Rightarrow> bool" where
  "hasRateTResponse p \<longleftrightarrow> p_rateTResponse p \<noteq> None"

definition hasInitResponse :: "packet \<Rightarrow> bool" where
  "hasInitResponse p \<longleftrightarrow> p_initResponse p \<noteq> None"

text \<open>\<^verbatim>\<open>hasChannel\<close> and \<^verbatim>\<open>getChannel\<close> are virtual; control packets look at their own field.\<close>

definition ControlPacket_hasChannel :: "packet \<Rightarrow> bool" where
  [simp]: "ControlPacket_hasChannel p \<longleftrightarrow> p_channelResponse p \<noteq> None"

definition ControlPacket_getChannel :: "packet \<Rightarrow> error + byte" where
  [simp]: "ControlPacket_getChannel p =
     (case p_channelResponse p of
        None \<Rightarrow> Inl (Crash Null_deref)
      | Some f \<Rightarrow> field_getChannel (p_data p) f)"

definition hasChannel :: "packet \<Rightarrow> bool" where
  "hasChannel p \<longleftrightarrow>
     (if p_kind p = ControlPacket then ControlPacket_hasChannel p else p_channel p \<noteq> None)"

definition getChannel :: "packet \<Rightarrow> error + byte" where
  "getChannel p =
     (if p_kind p = ControlPacket then ControlPacket_getChannel p
      else (case p_channel p of
              None \<Rightarrow> Inr 0
            | Some f \<Rightarrow> field_getChannel (p_data p) f))"

definition getChannelData :: "packet \<Rightarrow> error + bytes" where
  "getChannelData p =
     (case p_chanD p of None \<Rightarrow> Inr [] | Some f \<Rightarrow> field_getChannelData (p_data p) f)"

definition getSpeechData :: "packet \<Rightarrow> error + short list" where
  "getSpeechData p =
     (case p_speechD p of None \<Rightarrow> Inr [] | Some f \<Rightarrow> field_getSpeechData (p_data p) f)"

lemmas buildField_defs =
  built_def Packet_buildField_def ControlPacket_buildField_def ChannelPacket_buildField_def
  SpeechPacket_buildField_def

lemmas storeField_defs =
  storeField_def Packet_storeField_def ControlPacket_storeField_def
  ChannelPacket_storeField_def SpeechPacket_storeField_def

end
