(* ===== verification/Packet_Safety.thy ===== *)
theory Packet_Safety
  imports Packets
begin

text \<open>
  Memory safety of received packets (\<^verbatim>\<open>src/modules/ambe3k/protocol.cpp\<close>): what
  \<^verbatim>\<open>Packet::scanFields\<close> leaves behind is well-formed, that is, each stored field lies inside the
  buffer, so no accessor leaves it; and where scanning itself can run over the end.
\<close>

unbundle bit_operations_syntax

section \<open>The buffer and the fields in it\<close>

definition slot :: "(field \<Rightarrow> bool) \<Rightarrow> nat \<Rightarrow> field option \<Rightarrow> bool" where
  "slot Q n s \<longleftrightarrow>
     (case s of None \<Rightarrow> True | Some f \<Rightarrow> Q f \<and> field_data f + getLength f \<le> n)"

lemma slot_simps [simp]:
  "slot Q n None"
  "slot Q n (Some f) \<longleftrightarrow> Q f \<and> field_data f + getLength f \<le> n"
  by (simp_all add: slot_def)

definition wf_packet :: "packet \<Rightarrow> bool" where
  "wf_packet p \<longleftrightarrow>
     length (p_data p) = p_dataSize p \<and> 4 \<le> p_dataSize p \<and>
     slot is_ChecksumField (p_dataSize p) (p_checksum p) \<and>
     slot is_ChannelField (p_dataSize p) (p_channel p) \<and>
     slot is_ReadyField (p_dataSize p) (p_ready p) \<and>
     slot is_ProdIdResponseField (p_dataSize p) (p_prodid p) \<and>
     slot is_VersionStringResponseField (p_dataSize p) (p_version p) \<and>
     slot is_RateTResponseField (p_dataSize p) (p_rateTResponse p) \<and>
     slot is_RatePResponseField (p_dataSize p) (p_ratePResponse p) \<and>
     slot is_InitResponseField (p_dataSize p) (p_initResponse p) \<and>
     slot is_ChannelResponseField (p_dataSize p) (p_channelResponse p) \<and>
     slot is_ChanDField (p_dataSize p) (p_chanD p) \<and>
     slot is_SpeechDField (p_dataSize p) (p_speechD p)"

lemma buildField_keeps:
  assumes "buildField k d cur = Inr (Some (f, d'))"
  shows "d' = d" "field_data f = cur"
  using assms
  by (cases k; auto simp: buildField_defs field_ctor_defs set_byte_def list_update_same_conv
      simp del: AMBE3K_PARITY_BYTE_def split: if_splits)+

lemma storeField_frame [simp]:
  "p_kind (storeField p f) = p_kind p"
  "p_data (storeField p f) = p_data p"
  "p_dataSize (storeField p f) = p_dataSize p"
  by (simp_all add: storeField_defs split: packet_kind.splits)

lemma storeField_wf:
  assumes "wf_packet p" "field_data f + getLength f \<le> p_dataSize p"
  shows "wf_packet (storeField p f)"
  using assms
  by (cases f; cases "p_kind p") (simp_all add: wf_packet_def storeField_defs)

lemma scan_loop_end [simp]: "scan_loop p current 0 = Inr p"
  by (subst scan_loop.simps) simp

lemma scan_loop_error:
  "0 < remaining \<Longrightarrow> buildField (p_kind p) (p_data p) current = Inl e \<Longrightarrow>
   scan_loop p current remaining = Inl e"
  by (subst scan_loop.simps) simp

lemma scan_loop_unknown:
  "buildField (p_kind p) (p_data p) current = Inr None \<Longrightarrow> scan_loop p current remaining = Inr p"
  by (subst scan_loop.simps) simp

lemma packet_data_same: "p\<lparr>p_data := p_data p\<rparr> = (p :: packet)"
  by simp

lemma scan_loop_field:
  assumes "buildField (p_kind p) (p_data p) current = Inr (Some (f, d))" "0 < remaining"
  shows "scan_loop p current remaining =
    (if remaining < getLength f then Inr p
     else scan_loop (storeField p f) (current + getLength f) (remaining - getLength f))"
  using assms buildField_keeps(1) [OF assms(1)]
  by (subst scan_loop.simps) (simp add: packet_data_same Let_def)

text \<open>The shape of one turn of the loop, for inductions over it.\<close>

lemma scan_loop_induct [case_names finished error unknown too_long step]:
  assumes "\<And>p current. P p current 0"
    and "\<And>p current remaining e. 0 < remaining \<Longrightarrow>
       buildField (p_kind p) (p_data p) current = Inl e \<Longrightarrow> P p current remaining"
    and "\<And>p current remaining. 0 < remaining \<Longrightarrow>
       buildField (p_kind p) (p_data p) current = Inr None \<Longrightarrow> P p current remaining"
    and "\<And>p current remaining f. 0 < remaining \<Longrightarrow>
       buildField (p_kind p) (p_data p) current = Inr (Some (f, p_data p)) \<Longrightarrow>
       field_data f = current \<Longrightarrow> remaining < getLength f \<Longrightarrow> P p current remaining"
    and "\<And>p current remaining f. 0 < remaining \<Longrightarrow>
       buildField (p_kind p) (p_data p) current = Inr (Some (f, p_data p)) \<Longrightarrow>
       field_data f = current \<Longrightarrow> getLength f \<le> remaining \<Longrightarrow>
       P (storeField p f) (current + getLength f) (remaining - getLength f) \<Longrightarrow>
       P p current remaining"
  shows "P p current remaining"
proof (induction remaining arbitrary: p current rule: less_induct)
  case (less remaining)
  show ?case
  proof (cases "remaining = 0")
    case True
    with assms(1) show ?thesis by simp
  next
    case False
    show ?thesis
    proof (cases "buildField (p_kind p) (p_data p) current")
      case (Inl e)
      with False assms(2) show ?thesis by simp
    next
      case (Inr r)
      show ?thesis
      proof (cases r)
        case None
        with Inr False assms(3) show ?thesis by simp
      next
        case (Some fd)
        then obtain f d where "buildField (p_kind p) (p_data p) current = Inr (Some (f, d))"
          using Inr by (cases fd) simp
        with buildField_keeps [OF this]
        have b: "buildField (p_kind p) (p_data p) current = Inr (Some (f, p_data p))"
          and fc: "field_data f = current" by simp_all
        from less [of "remaining - getLength f"] False assms(4,5) [OF _ b fc] show ?thesis
          by (cases "remaining < getLength f") simp_all
      qed
    qed
  qed
qed

lemmas scan_loop_simps = scan_loop_error scan_loop_unknown scan_loop_field

lemma scan_loop_wf:
  assumes "wf_packet p" "current + remaining = p_dataSize p" "scan_loop p current remaining = Inr p'"
  shows "wf_packet p' \<and> p_kind p' = p_kind p \<and> p_data p' = p_data p \<and> p_dataSize p' = p_dataSize p"
  using assms
proof (induction p current remaining rule: scan_loop_induct)
  case (step p current remaining f)
  then have "wf_packet (storeField p f)" by (intro storeField_wf) simp_all
  with step show ?case by (simp add: scan_loop_simps)
qed (simp_all add: scan_loop_simps)

lemma Packet_around_wf:
  "Packet_around k d (length d) = Inr p \<Longrightarrow>
   wf_packet p \<and> p_kind p = k \<and> p_data p = d \<and> p_dataSize p = length d"
  by (auto simp: Packet_around_def wf_packet_def split: if_splits)

lemma parse_as_wf:
  assumes "parse_as k d (length d) = Inr (Some p)"
  shows "wf_packet p" "p_kind p = k" "p_data p = d" "p_dataSize p = length d"
proof -
  from assms obtain q where q: "Packet_around k d (length d) = Inr q" "scanFields q = Inr p"
    by (auto simp: parse_as_def split: if_splits)
  from Packet_around_wf [OF q(1)] have *: "wf_packet q" "p_kind q = k" "p_data q = d" "p_dataSize q = length d"
    by simp_all
  then have "4 \<le> p_dataSize q" by (simp add: wf_packet_def)
  with q(2) * scan_loop_wf [of q 4 "p_dataSize q - 4" p]
  show "wf_packet p" "p_kind p = k" "p_data p = d" "p_dataSize p = length d"
    by (simp_all add: scanFields_def)
qed

lemma parse_wf:
  assumes "parse d (length d) = Inr (Some p)"
  shows "wf_packet p" "p_data p = d" "p_dataSize p = length d"
  using assms by (auto simp: parse_def dest: parse_as_wf split: if_splits)

section \<open>Accessors of a well-formed packet\<close>

lemma getVersionString_ok:
  "wf_packet p \<Longrightarrow> hasVersionString p \<Longrightarrow> \<exists>v. getVersionString p = Inr v \<and> length v = 48"
  by (auto simp: wf_packet_def hasVersionString_def getVersionString_def getVersionId_def
      read_bytes_def is_VersionStringResponseField_def)

lemma field_getChannel_ok:
  assumes "field_data f + getLength f \<le> length d"
  shows "\<exists>c. field_getChannel d f = Inr c"
proof -
  have "0 < getLength f" by simp
  with assms have "field_data f < length d" by linarith
  then show ?thesis by (simp add: field_getChannel_def get_byte_def)
qed

lemma getChannel_ok: "wf_packet p \<Longrightarrow> hasChannel p \<Longrightarrow> \<exists>c. getChannel p = Inr c"
  by (auto simp: wf_packet_def hasChannel_def getChannel_def intro!: field_getChannel_ok split: if_splits)

lemma getChannelData_ok:
  "wf_packet p \<Longrightarrow> \<exists>cd. getChannelData p = Inr cd \<and> length cd \<le> p_dataSize p"
  by (cases "p_chanD p")
    (auto simp: wf_packet_def getChannelData_def field_getChannelData_def read_bytes_def
      is_ChanDField_def)

lemma getSpeechData_ok:
  "wf_packet p \<Longrightarrow> \<exists>ws. getSpeechData p = Inr ws \<and> 2 * length ws \<le> p_dataSize p"
  by (cases "p_speechD p")
    (auto simp: wf_packet_def getSpeechData_def field_getSpeechData_def read_bytes_def
      is_SpeechDField_def)

lemma getChecksum_ok: "wf_packet p \<Longrightarrow> \<exists>x. getChecksum p = Inr x"
  by (auto simp: wf_packet_def getChecksum_def read_bytes_def)

lemma isChecksumValid_ok: "wf_packet p \<Longrightarrow> \<exists>b. isChecksumValid p = Inr b"
  using getChecksum_ok [of p]
  by (cases "p_checksum p")
    (auto simp: isChecksumValid_def isCorrect_def wf_packet_def get_byte_def is_ChecksumField_def)

lemma updateChecksum_ok:
  "wf_packet p \<Longrightarrow> \<exists>q. updateChecksum p = Inr q \<and> wf_packet q \<and> p_kind q = p_kind p"
  using getChecksum_ok [of p]
  by (cases "p_checksum p")
    (auto simp: updateChecksum_def setChecksum_def wf_packet_def set_byte_def is_ChecksumField_def)

section \<open>What can go wrong while scanning\<close>

text \<open>The opcode of the data field of a channel or speech packet.\<close>

definition data_opcode :: "packet_kind \<Rightarrow> byte" where
  "data_opcode k = (if k = SpeechPacket then AMBE3K_SPEECH_SPEECHD else AMBE3K_CHANNEL_CHAND)"

lemma buildField_data_fault:
  assumes "k \<noteq> ControlPacket" "cur < length d" "buildField k d cur = Inl e"
  shows "Suc cur = length d \<and> d ! cur = data_opcode k \<and> e = Crash Out_of_bounds"
  using assms
  by (cases k)
    (auto simp: buildField_defs field_ctor_defs data_opcode_def get_byte_def set_byte_def bindE_eq_Inl
      split: if_splits)

lemma scan_loop_data_total:
  assumes "p_kind p \<noteq> ControlPacket" "wf_packet p" "current + remaining = p_dataSize p"
    and "last (p_data p) \<noteq> data_opcode (p_kind p)"
  shows "\<exists>p'. scan_loop p current remaining = Inr p'"
  using assms
proof (induction p current remaining rule: scan_loop_induct)
  case (error p current remaining e)
  then have len: "length (p_data p) = current + remaining" by (simp add: wf_packet_def)
  with buildField_data_fault [OF error(3) _ error(2)] error(1)
  have "Suc current = length (p_data p)" "p_data p ! current = data_opcode (p_kind p)" by simp_all
  then have "last (p_data p) = data_opcode (p_kind p)"
    by (metis diff_Suc_1 last_conv_nth length_0_conv nat.distinct(1))
  with error show ?case by simp
next
  case (step p current remaining f)
  then have "wf_packet (storeField p f)" by (intro storeField_wf) simp_all
  with step show ?case by (simp add: scan_loop_simps)
qed (simp_all add: scan_loop_simps)

lemma parse_as_data_total:
  assumes "k \<noteq> ControlPacket" "4 \<le> length d" "last d \<noteq> data_opcode k"
  shows "\<exists>r. parse_as k d (length d) = Inr r"
proof -
  from assms(2) obtain q where q: "Packet_around k d (length d) = Inr q" by (simp add: Packet_around_def)
  from Packet_around_wf [OF this]
  have wf: "wf_packet q" "p_kind q = k" "p_data q = d" "p_dataSize q = length d" by simp_all
  with assms scan_loop_data_total [of q 4 "length d - 4"]
  obtain p where p: "scan_loop q 4 (length d - 4) = Inr p" by auto
  with wf assms(2) scan_loop_wf [of q 4 "length d - 4" p] have "wf_packet p" by simp
  with isChecksumValid_ok obtain b where "isChecksumValid p = Inr b" by blast
  with q p wf(4) show ?thesis by (simp add: parse_as_def scanFields_def)
qed


section \<open>Properties\<close>



text \<open>scanning a channel or speech packet always ends normally, with a packet or with the
null pointer, unless the last byte of the buffer is the opcode of the data field, whose length
byte would then lie behind the buffer.\<close>

theorem parse_data_packet_total:
  assumes "4 \<le> length d" "d ! 3 = AMBE3K_TYPE_AMBE \<and> last d \<noteq> AMBE3K_CHANNEL_CHAND \<or>
    d ! 3 = AMBE3K_TYPE_AUDIO \<and> last d \<noteq> AMBE3K_SPEECH_SPEECHD"
  shows "\<exists>r. parse d (length d) = Inr r"
  using assms parse_as_data_total [of ChannelPacket d] parse_as_data_total [of SpeechPacket d]
  by (auto simp: parse_def get_byte_def data_opcode_def)

theorem parse_data_packet_total_witness:
  "\<exists>r. parse [0x61, 0, 3, 2, 0x40, 0, 9] (length [0x61, 0, 3, 2, 0x40, 0, 9 :: byte]) = Inr r"
  by (rule parse_data_packet_total) simp_all

text \<open>C9: a product id that is not terminated is read past the end of the buffer, for every
header and every text without a NUL; so is the length byte of a data field whose opcode is the
last byte of a packet.\<close>

theorem parse_overread:
  fixes hi lo :: byte
  assumes "0 \<notin> set s"
  shows "parse ([0x61, hi, lo, AMBE3K_TYPE_CONTROL, AMBE3K_CONTROL_PRODID] @ s) (5 + length s) =
      Inl (Crash Out_of_bounds) \<and>
    parse [0x61, hi, lo, AMBE3K_TYPE_AMBE, AMBE3K_CHANNEL_CHAND] 5 = Inl (Crash Out_of_bounds) \<and>
    parse [0x61, hi, lo, AMBE3K_TYPE_AUDIO, AMBE3K_SPEECH_SPEECHD] 5 = Inl (Crash Out_of_bounds)"
proof -
  have "c_string s = Inl (Crash Out_of_bounds)" using assms by (induction s) auto
  then show ?thesis
    by (simp add: parse_def parse_as_def Packet_around_def scanFields_def scan_loop.simps
        get_byte_def buildField_defs field_ctor_defs get_cstring_def)
qed

theorem parse_overread_witness:
  "parse ([0x61, 0, 3, AMBE3K_TYPE_CONTROL, AMBE3K_CONTROL_PRODID] @ [0x41, 0x42]) (5 + length [0x41, 0x42 :: byte]) =
     Inl (Crash Out_of_bounds)"
  using parse_overread [of "[0x41, 0x42]" 0 3] by simp

text \<open>C10: a response whose status byte is not zero (the device reports that it refused a rate, a
rate table index or an initialisation) fails the assertion in the field's constructor, whatever
follows it.\<close>

theorem parse_refused_request_aborts:
  assumes "opcode \<in> {AMBE3K_CONTROL_RATET, AMBE3K_CONTROL_RATEP, AMBE3K_CONTROL_INIT}" "status \<noteq> 0"
  shows "parse ([0x61, hi, lo, AMBE3K_TYPE_CONTROL, opcode, status] @ xs)
    (6 + length xs) = Inl (Crash Assert_failed)"
  using assms
  by (auto simp: parse_def parse_as_def Packet_around_def scanFields_def scan_loop.simps
        get_byte_def buildField_defs field_ctor_defs assert_zero_def)

theorem parse_refused_request_aborts_witness:
  "parse ([0x61, 0, 4, AMBE3K_TYPE_CONTROL, AMBE3K_CONTROL_RATET, 1] @ [0x2f, 0x23])
    (6 + length [0x2f, 0x23 :: byte]) = Inl (Crash Assert_failed)"
  by (rule parse_refused_request_aborts) simp_all

end
