(* ===== verification/Wire_Format.thy ===== *)
theory Wire_Format
  imports Packet_Safety
begin

text \<open>
  An abstract specification of the AMBE-3000 packet format and the proof that
  \<^verbatim>\<open>Packet::parse\<close> and the packet constructors of \<^verbatim>\<open>src/modules/ambe3k/protocol.cpp\<close>
  implement it: \<open>encode_field\<close> is the byte format of one field, \<open>frame\<close> of a packet,
  \<open>view\<close> is what a packet's accessors report. \<open>parse_body\<close> is the refinement lemma for
  received packets; the lemmas \<open>builds_*\<close> give the bytes of each packet the program sends.
\<close>

unbundle bit_operations_syntax

section \<open>Abstract fields and packets\<close>

datatype wire_field =
    WReady
  | WProdId bytes
  | WVersion bytes
  | WRateT
  | WRateP
  | WInit
  | WChannel byte
  | WChanD byte bytes
  | WSpeechD "short list"

primrec type_byte :: "packet_kind \<Rightarrow> byte" where
  "type_byte ControlPacket = AMBE3K_TYPE_CONTROL"
| "type_byte ChannelPacket = AMBE3K_TYPE_AMBE"
| "type_byte SpeechPacket = AMBE3K_TYPE_AUDIO"

fun encode_field :: "packet_kind \<Rightarrow> wire_field \<Rightarrow> bytes" where
  "encode_field k WReady = [0x39]"
| "encode_field k (WProdId s) = 0x30 # s @ [0]"
| "encode_field k (WVersion v) = 0x31 # v"
| "encode_field k WRateT = [0x09, 0]"
| "encode_field k WRateP = [0x0A, 0]"
| "encode_field k WInit = [0x0B, 0]"
| "encode_field k (WChannel c) = (if k = ControlPacket then [0x40 + c, 0] else [0x40 + c])"
| "encode_field k (WChanD bits cd) = 0x01 # bits # cd"
| "encode_field k (WSpeechD ws) = 0x00 # of_nat (length ws) # concat (map be16 ws)"

fun wf_field :: "packet_kind \<Rightarrow> wire_field \<Rightarrow> bool" where
  "wf_field k (WChannel c) \<longleftrightarrow> c \<le> 2"
| "wf_field k (WChanD bits cd) \<longleftrightarrow> k = ChannelPacket \<and> length cd = (unat bits + 7) div 8"
| "wf_field k (WSpeechD ws) \<longleftrightarrow> k = SpeechPacket \<and> length ws < 256"
| "wf_field k (WProdId s) \<longleftrightarrow> k = ControlPacket \<and> 0 \<notin> set s"
| "wf_field k (WVersion v) \<longleftrightarrow> k = ControlPacket \<and> length v = 48"
| "wf_field k _ \<longleftrightarrow> k = ControlPacket"

definition encode_fields :: "packet_kind \<Rightarrow> wire_field list \<Rightarrow> bytes" where
  "encode_fields k fs = concat (map (encode_field k) fs)"

text \<open>
  A whole packet: start byte, length in network order, type, fields, the parity opcode and the
  exclusive or of everything between the first byte and itself.
\<close>

definition frame_body :: "byte \<Rightarrow> bytes \<Rightarrow> bytes" where
  "frame_body ty body = be16 (of_nat (length body + 2)) @ ty # body @ [0x2f]"

definition frame :: "byte \<Rightarrow> bytes \<Rightarrow> bytes" where
  "frame ty body = 0x61 # frame_body ty body @ [xor_bytes (frame_body ty body)]"

text \<open>What the accessors of a packet report.\<close>

record packet_view =
  v_ready :: bool
  v_prodid :: "(error + bytes) option"
  v_version :: "(error + bytes) option"
  v_rateT :: bool
  v_rateP :: bool
  v_init :: bool
  v_channel :: "(error + byte) option"
  v_channelData :: "error + bytes"
  v_speechData :: "error + short list"

definition view :: "packet \<Rightarrow> packet_view" where
  "view p = \<lparr>v_ready = hasReadyField p,
     v_prodid = (if hasProductId p then Some (getProductId p) else None),
     v_version = (if hasVersionString p then Some (getVersionString p) else None),
     v_rateT = hasRateTResponse p, v_rateP = hasRatePResponse p, v_init = hasInitResponse p,
     v_channel = (if hasChannel p then Some (getChannel p) else None),
     v_channelData = getChannelData p, v_speechData = getSpeechData p\<rparr>"

definition empty_view :: packet_view where
  "empty_view = \<lparr>v_ready = False, v_prodid = None, v_version = None, v_rateT = False,
     v_rateP = False, v_init = False, v_channel = None, v_channelData = Inr [],
     v_speechData = Inr []\<rparr>"

primrec store_view :: "wire_field \<Rightarrow> packet_view \<Rightarrow> packet_view" where
  "store_view WReady v = v\<lparr>v_ready := True\<rparr>"
| "store_view (WProdId s) v = v\<lparr>v_prodid := Some (Inr s)\<rparr>"
| "store_view (WVersion s) v = v\<lparr>v_version := Some (Inr s)\<rparr>"
| "store_view WRateT v = v\<lparr>v_rateT := True\<rparr>"
| "store_view WRateP v = v\<lparr>v_rateP := True\<rparr>"
| "store_view WInit v = v\<lparr>v_init := True\<rparr>"
| "store_view (WChannel c) v = v\<lparr>v_channel := Some (Inr c)\<rparr>"
| "store_view (WChanD bits cd) v = v\<lparr>v_channelData := Inr cd\<rparr>"
| "store_view (WSpeechD ws) v = v\<lparr>v_speechData := Inr ws\<rparr>"

lemmas view_defs =
  view_def hasReadyField_def hasProductId_def getProductId_def hasVersionString_def
  getVersionString_def hasRateTResponse_def hasRatePResponse_def hasInitResponse_def
  hasChannel_def getChannel_def getChannelData_def getSpeechData_def

text \<open>Storing a field changes its own component of the view only.\<close>

lemma view_store:
  "view (p\<lparr>p_ready := Some f\<rparr>) = (view p)\<lparr>v_ready := True\<rparr>"
  "view (p\<lparr>p_prodid := Some f\<rparr>) = (view p)\<lparr>v_prodid := Some (Inr (productId f))\<rparr>"
  "view (p\<lparr>p_version := Some f\<rparr>) = (view p)\<lparr>v_version := Some (getVersionId (p_data p) f)\<rparr>"
  "view (p\<lparr>p_rateTResponse := Some f\<rparr>) = (view p)\<lparr>v_rateT := True\<rparr>"
  "view (p\<lparr>p_ratePResponse := Some f\<rparr>) = (view p)\<lparr>v_rateP := True\<rparr>"
  "view (p\<lparr>p_initResponse := Some f\<rparr>) = (view p)\<lparr>v_init := True\<rparr>"
  "p_kind p = ControlPacket \<Longrightarrow>
   view (p\<lparr>p_channelResponse := Some f\<rparr>) = (view p)\<lparr>v_channel := Some (field_getChannel (p_data p) f)\<rparr>"
  "p_kind p \<noteq> ControlPacket \<Longrightarrow>
   view (p\<lparr>p_channel := Some f\<rparr>) = (view p)\<lparr>v_channel := Some (field_getChannel (p_data p) f)\<rparr>"
  "view (p\<lparr>p_chanD := Some f\<rparr>) = (view p)\<lparr>v_channelData := field_getChannelData (p_data p) f\<rparr>"
  "view (p\<lparr>p_speechD := Some f\<rparr>) = (view p)\<lparr>v_speechData := field_getSpeechData (p_data p) f\<rparr>"
  "view (p\<lparr>p_checksum := Some f\<rparr>) = view p"
  by (simp_all add: view_defs cong: option.case_cong)

section \<open>Scanning encoded fields\<close>

text \<open>One turn of the scan loop over an encoded field.\<close>

lemma channel_opcode:
  "(c :: byte) \<le> 2 \<Longrightarrow> 0x40 + c = 0x40 \<or> 0x40 + c = 0x41 \<or> 0x40 + c = 0x42"
proof -
  assume "c \<le> 2"
  then have "unat c \<in> {0, 1, 2}" by (auto simp: word_le_nat_alt)
  then have "c \<in> {0, 1, 2}" by (simp add: word_unat_eq_iff)
  then show ?thesis by auto
qed

lemma ntohs_shorts_of_be16 [simp]: "map ntohs (shorts_of (concat (map be16 ws))) = ws"
  by (simp add: shorts_of_be16 comp_def)

text \<open>The object that is built for a field at some place of the buffer.\<close>

fun field_at :: "packet_kind \<Rightarrow> nat \<Rightarrow> wire_field \<Rightarrow> field" where
  "field_at k off WReady = ReadyField off"
| "field_at k off (WProdId s) = ProdIdResponseField off s"
| "field_at k off (WVersion v) = VersionStringResponseField off"
| "field_at k off WRateT = RateTResponseField off"
| "field_at k off WRateP = RatePResponseField off"
| "field_at k off WInit = InitResponseField off"
| "field_at k off (WChannel c) = (if k = ControlPacket then ChannelResponseField off else ChannelField off)"
| "field_at k off (WChanD bits cd) = ChanDField off (unat bits)"
| "field_at k off (WSpeechD ws) = SpeechDField off (length ws)"

lemmas scan_simps =
  buildField_defs field_ctor_defs mem_simps storeField_defs view_store assert_zero_def get_cstring_def
  read_bytes_def getVersionId_def field_getChannel_def field_getChannelData_def field_getSpeechData_def

lemma scan_field:
  assumes "wf_field k f" "p_kind p = k" "p_data p = pre @ encode_field k f @ post"
  obtains g where
    "buildField k (p_data p) (length pre) = Inr (Some (g, p_data p))"
    "getLength g = length (encode_field k f)"
    "view (storeField p g) = store_view f (view p)"
    "p_checksum (storeField p g) = p_checksum p"
proof (rule that [of "field_at k (length pre) f"])
  have "unat (of_nat (length ws) :: byte) = length ws" if "f = WSpeechD ws" for ws
    using assms(1) that by (simp add: unat_of_nat take_bit_nat_eq_self_iff)
  moreover have "c = 0 \<or> c = 1 \<or> c = 2" if "f = WChannel c" for c
    using assms(1) that channel_opcode [of c] by simp
  ultimately have facts: "wf_field k f" "p_kind p = k" "p_data p = pre @ encode_field k f @ post"
    "\<And>ws. f = WSpeechD ws \<Longrightarrow> unat (of_nat (length ws) :: byte) = length ws"
    "\<And>c. f = WChannel c \<Longrightarrow> c = 0 \<or> c = 1 \<or> c = 2"
    using assms by blast+
  show "buildField k (p_data p) (length pre) = Inr (Some (field_at k (length pre) f, p_data p))"
    by (cases f; cases k) (use facts in \<open>auto simp: scan_simps\<close>)
  show "getLength (field_at k (length pre) f) = length (encode_field k f)"
    by (cases f; cases k) (use facts in \<open>auto simp: scan_simps\<close>)
  show "view (storeField p (field_at k (length pre) f)) = store_view f (view p)"
    by (cases f; cases k) (use facts in \<open>auto simp: scan_simps\<close>)
  show "p_checksum (storeField p (field_at k (length pre) f)) = p_checksum p"
    by (cases f; cases k) (use facts in \<open>auto simp: scan_simps\<close>)
qed

lemma encode_fields_simps [simp]:
  "encode_fields k [] = []"
  "encode_fields k (f # fs) = encode_field k f @ encode_fields k fs"
  by (simp_all add: encode_fields_def)

lemma scan_fields:
  assumes "list_all (wf_field k) fs" "p_kind p = k" "p_data p = pre @ encode_fields k fs @ post"
  obtains q where
    "\<And>rest. scan_loop p (length pre) (length (encode_fields k fs) + rest) =
       scan_loop q (length pre + length (encode_fields k fs)) rest"
    "p_kind q = k" "p_data q = p_data p" "p_dataSize q = p_dataSize p"
    "view q = fold store_view fs (view p)" "p_checksum q = p_checksum p"
  using assms
proof (induction fs arbitrary: p pre thesis)
  case Nil
  then show ?case by simp
next
  case (Cons f fs)
  let ?e = "encode_field k f"
  from Cons.prems(2-4) obtain g where g:
    "buildField k (p_data p) (length pre) = Inr (Some (g, p_data p))"
    "getLength g = length ?e" "view (storeField p g) = store_view f (view p)"
    "p_checksum (storeField p g) = p_checksum p"
    using scan_field [of k f p pre "encode_fields k fs @ post"] by auto
  have "0 < length ?e" using getLength_pos [of g] g(2) by simp
  with g(1,2) Cons.prems(3) have step:
    "scan_loop p (length pre) (length ?e + n) = scan_loop (storeField p g) (length pre + length ?e) n" for n
    by (subst scan_loop_field [of p _ g "p_data p"]) simp_all
  from Cons.prems(2-4) obtain q where q:
    "\<And>rest. scan_loop (storeField p g) (length (pre @ ?e)) (length (encode_fields k fs) + rest) =
       scan_loop q (length (pre @ ?e) + length (encode_fields k fs)) rest"
    "p_kind q = k" "p_data q = p_data p" "p_dataSize q = p_dataSize p"
    "view q = fold store_view fs (view (storeField p g))"
    "p_checksum q = p_checksum (storeField p g)"
    using Cons.IH [of "storeField p g" "pre @ ?e"] by auto
  show ?case
  proof (rule Cons.prems(1))
    fix rest
    show "scan_loop p (length pre) (length (encode_fields k (f # fs)) + rest) =
      scan_loop q (length pre + length (encode_fields k (f # fs))) rest"
      using step [of "length (encode_fields k fs) + rest"] q(1) [of rest] by (simp add: add.assoc)
  qed (use q g in simp_all)
qed

lemma buildField_parity:
  "buildField k (pre @ 0x2f # post) (length pre) = Inr (Some (ChecksumField (length pre), pre @ 0x2f # post))"
  by (cases k) (simp_all add: buildField_defs field_ctor_defs mem_simps)

text \<open>
  A buffer of well-formed fields that ends in a parity field, whatever its first three bytes
  and its checksum byte are: it is accepted exactly when the checksum byte is right, and an
  accepted packet reports the fields.
\<close>

lemma parse_body:
  fixes start hi lo cs :: byte
  assumes "list_all (wf_field k) fs"
  defines "d \<equiv> [start, hi, lo, type_byte k] @ encode_fields k fs @ [0x2f, cs]"
  obtains p where
    "parse d (length d) =
       Inr (if cs = xor_bytes (hi # lo # type_byte k # encode_fields k fs @ [0x2f]) then Some p else None)"
    "p_kind p = k" "hasChecksum p" "p_data p = d" "view p = fold store_view fs empty_view"
proof -
  obtain p0 where p0: "Packet_around k d (length d) = Inr p0" by (simp add: Packet_around_def d_def)
  from Packet_around_wf [OF p0]
  have k0: "p_kind p0 = k" "p_data p0 = d" "p_dataSize p0 = length d" by simp_all
  have v0: "view p0 = empty_view"
    using p0 by (auto simp: Packet_around_def view_defs empty_view_def split: if_splits)
  have four: "length [start, hi, lo, type_byte k] = 4" by simp
  obtain q where q':
    "\<And>rest. scan_loop p0 4 (length (encode_fields k fs) + rest) =
       scan_loop q (4 + length (encode_fields k fs)) rest"
    "p_kind q = k" "p_data q = p_data p0" "p_dataSize q = p_dataSize p0"
    "view q = fold store_view fs (view p0)"
    using scan_fields [OF assms(1) k0(1) k0(2) [unfolded d_def], unfolded four] by metis
  note q = q' [unfolded k0 v0]
  let ?pre = "[start, hi, lo, type_byte k] @ encode_fields k fs"
  have pre_len: "length ?pre = 4 + length (encode_fields k fs)" by simp
  have d_pre: "d = ?pre @ 0x2f # [cs]" by (simp add: d_def)
  let ?c = "ChecksumField (4 + length (encode_fields k fs))"
  let ?p = "q\<lparr>p_checksum := Some ?c\<rparr>"
  have store: "storeField q ?c = ?p"
    by (cases k) (simp_all add: storeField_defs q)
  have "buildField k d (4 + length (encode_fields k fs)) = Inr (Some (?c, d))"
    using buildField_parity [of k ?pre "[cs]"] by (simp only: pre_len d_pre)
  then have scan: "scanFields p0 = Inr ?p"
    using q(1) [of 2] q store
    by (simp add: scanFields_def k0 scan_loop_field [of q _ ?c d] d_def)
  have sum: "getChecksum ?p = Inr (xor_bytes (hi # lo # type_byte k # encode_fields k fs @ [0x2f]))"
    by (simp add: getChecksum_def q read_bytes_def d_def)
  have valid: "isChecksumValid ?p =
      Inr (cs = xor_bytes (hi # lo # type_byte k # encode_fields k fs @ [0x2f]))"
    by (simp add: isChecksumValid_def sum isCorrect_def get_byte_def q d_def nth_append)
  have "parse d (length d) = parse_as k d (length d)"
    by (cases k) (simp_all add: parse_def get_byte_def d_def)
  also have "\<dots> = Inr (if cs = xor_bytes (hi # lo # type_byte k # encode_fields k fs @ [0x2f])
      then Some ?p else None)"
    by (simp only: parse_as_def p0 scan valid bindE_simps)
  finally show ?thesis
    by (intro that [of ?p]) (simp_all add: q view_store hasChecksum_def)
qed

section \<open>Outgoing packets\<close>

text \<open>A fresh packet without fields.\<close>

definition blank_packet :: "packet_kind \<Rightarrow> bytes \<Rightarrow> packet" where
  "blank_packet k d =
     \<lparr>p_kind = k, p_data = d, p_dataSize = length d, p_checksum = None, p_channel = None,
      p_ready = None, p_prodid = None, p_version = None, p_rateTResponse = None,
      p_ratePResponse = None, p_initResponse = None, p_channelResponse = None,
      p_chanD = None, p_speechD = None, p_request = None, p_init = None\<rparr>"

lemma blank_packet_sel [simp]:
  "p_kind (blank_packet k d) = k"
  "p_data (blank_packet k d) = d"
  "p_dataSize (blank_packet k d) = length d"
  by (simp_all add: blank_packet_def)

lemma replicate_4_add: "replicate (4 + n) x = x # x # x # x # replicate n x"
  by (simp add: numeral_eq_Suc)

lemma Packet_new_eq:
  "Packet_new k (4 + n) ty =
     Inr (blank_packet k (0x61 # be16 (of_nat n) @ ty # replicate n 0))"
  by (simp add: Packet_new_def Packet_alloc_def Packet_around_def blank_packet_def set_byte_def
      write_bytes_def be16_def replicate_4_add)

lemma length_frame_body [simp]: "length (frame_body ty body) = length body + 4"
  by (simp add: frame_body_def)

text \<open>
  A packet that is ready to be sent: its buffer is the frame of \<open>body\<close> but for the checksum
  byte, and its checksum field points at the right place.
\<close>

definition outgoing :: "packet \<Rightarrow> byte \<Rightarrow> bytes \<Rightarrow> bool" where
  "outgoing p ty body \<longleftrightarrow>
     p_data p = 0x61 # frame_body ty body @ [0] \<and> p_dataSize p = length body + 6 \<and>
     p_checksum p = Some (ChecksumField (length body + 4))"

lemma updateChecksum_frame:
  assumes "outgoing p ty body"
  shows "updateChecksum p = Inr (p\<lparr>p_data := frame ty body\<rparr>)"
proof -
  have "getChecksum p = Inr (xor_bytes (frame_body ty body))"
    using assms by (simp add: outgoing_def getChecksum_def read_bytes_def)
  moreover have "setChecksum (p_data p) (ChecksumField (length body + 4)) c =
      Inr (0x61 # frame_body ty body @ [c])" for c
    using assms by (simp add: outgoing_def setChecksum_def set_byte_def list_update_append)
  ultimately show ?thesis
    using assms by (simp add: outgoing_def updateChecksum_def frame_def)
qed

lemma length_frame [simp]: "length (frame ty body) = length body + 6"
  by (simp add: frame_def)

definition builds :: "error + packet \<Rightarrow> packet_kind \<Rightarrow> bytes \<Rightarrow> bool" where
  "builds m k body \<longleftrightarrow>
     (case m of Inl e \<Rightarrow> False | Inr p \<Rightarrow> p_kind p = k \<and> outgoing p (type_byte k) body)"

lemma builds_simps [simp]:
  "\<not> builds (Inl e) k body"
  "builds (Inr p) k body \<longleftrightarrow> p_kind p = k \<and> outgoing p (type_byte k) body"
  by (simp_all add: builds_def)

lemma buildsE:
  assumes "builds m k body"
  obtains p where "m = Inr p" "p_kind p = k" "outgoing p (type_byte k) body"
  using assms by (cases m) auto

lemmas request_defs =
  ResetPacket_def ProdIdRequest_def VersionStringRequest_def SetupRequest_index_def
  SetupRequest_ratep_def ControlPacket_new_def

lemma ControlPacket_new_eq:
  "ControlPacket_new 7 = Inr (blank_packet ControlPacket (0x61 # be16 3 @ 0 # replicate 3 0))"
  "ControlPacket_new 11 = Inr (blank_packet ControlPacket (0x61 # be16 7 @ 0 # replicate 7 0))"
  "ControlPacket_new 22 = Inr (blank_packet ControlPacket (0x61 # be16 18 @ 0 # replicate 18 0))"
  using Packet_new_eq [of ControlPacket 3 0] Packet_new_eq [of ControlPacket 7 0]
    Packet_new_eq [of ControlPacket 18 0]
  by (simp_all add: ControlPacket_new_def)

lemmas build_simps =
  ControlPacket_new_eq field_ctor_defs set_byte_def write_bytes_def be16_def mem_simps
  outgoing_def frame_body_def

lemma builds_ResetPacket: "builds ResetPacket ControlPacket [0x33]"
  by (simp add: ResetPacket_def build_simps)

lemma builds_ProdIdRequest: "builds ProdIdRequest ControlPacket [0x30]"
  by (simp add: ProdIdRequest_def build_simps)

lemma builds_VersionStringRequest: "builds VersionStringRequest ControlPacket [0x31]"
  by (simp add: VersionStringRequest_def build_simps)

lemma builds_SetupRequest_index:
  "channel \<le> 3 \<Longrightarrow> builds (SetupRequest_index channel index direction) ControlPacket
     [0x40 + channel, 0x09, index, 0x0B, direction]"
  by (simp add: SetupRequest_index_def build_simps)

lemma builds_SetupRequest_ratep:
  assumes "channel \<le> 3" "length cwds = 6"
  shows "builds (SetupRequest_ratep channel cwds direction) ControlPacket
    ([0x40 + channel, 0x0A] @ concat (map be16 cwds) @ [0x0B, direction])"
proof -
  from assms(2) obtain w1 w2 w3 w4 w5 w6 where cwds: "cwds = [w1, w2, w3, w4, w5, w6]"
    by (auto simp: length_Suc_conv numeral_eq_Suc)
  show ?thesis using assms(1) by (simp add: SetupRequest_ratep_def build_simps cwds)
qed

lemma replicate_add_5: "replicate (n + 5) x = x # x # x # replicate n x @ [x, x]"
  by (induction n) (simp_all add: numeral_eq_Suc)

lemma drop_7_add: "drop (7 + n) (a # b # c # d # e # f # g # xs) = drop n xs"
  by (simp add: numeral_eq_Suc)

lemma new_ChannelPacket_eq:
  assumes "channel \<le> 3" "n = (unat bits + 7) div 8" "n \<le> length channelData"
  shows "new_ChannelPacket channel channelData bits =
    Inr ((blank_packet ChannelPacket
       (0x61 # frame_body AMBE3K_TYPE_AMBE ([0x40 + channel, 0x01, bits] @ take n channelData) @ [0]))
     \<lparr>p_channel := Some (ChannelField 4), p_chanD := Some (ChanDField 5 (unat bits)),
      p_checksum := Some (ChecksumField (n + 7))\<rparr>)"
proof -
  have "Packet_new ChannelPacket (n + 9) AMBE3K_TYPE_AMBE =
      Inr (blank_packet ChannelPacket (0x61 # be16 (of_nat (n + 5)) @ 1 # 0 # 0 # 0 # replicate n 0 @ [0, 0]))"
    using Packet_new_eq [of ChannelPacket "n + 5" 1] by (simp add: replicate_add_5 add.commute)
  then show ?thesis
    using assms
    by (simp add: new_ChannelPacket_def field_ctor_defs set_byte_def be16_def read_bytes_def
        write_bytes_def frame_body_def blank_packet_def nth_append list_update_append drop_7_add
        Let_def add.commute)
qed

lemma new_SpeechPacket_eq:
  assumes "channel \<le> 3" "n = unat samples * 2" "n \<le> length speechData"
  shows "new_SpeechPacket channel speechData samples =
    Inr ((blank_packet SpeechPacket
       (0x61 # frame_body AMBE3K_TYPE_AUDIO ([0x40 + channel, 0x00, samples] @ take n speechData) @ [0]))
     \<lparr>p_channel := Some (ChannelField 4), p_speechD := Some (SpeechDField 5 (unat samples)),
      p_checksum := Some (ChecksumField (n + 7))\<rparr>)"
proof -
  have "Packet_new SpeechPacket (n + 9) AMBE3K_TYPE_AUDIO =
      Inr (blank_packet SpeechPacket (0x61 # be16 (of_nat (n + 5)) @ 2 # 0 # 0 # 0 # replicate n 0 @ [0, 0]))"
    using Packet_new_eq [of SpeechPacket "n + 5" 2] by (simp add: replicate_add_5 add.commute)
  then show ?thesis
    using assms
    by (simp add: new_SpeechPacket_def field_ctor_defs set_byte_def be16_def read_bytes_def
        write_bytes_def frame_body_def blank_packet_def nth_append list_update_append drop_7_add
        Let_def add.commute)
qed

lemma builds_ChannelPacket:
  assumes "channel \<le> 3" "(unat bits + 7) div 8 \<le> length channelData"
  shows "builds (new_ChannelPacket channel channelData bits) ChannelPacket
    ([0x40 + channel, 0x01, bits] @ take ((unat bits + 7) div 8) channelData)"
  unfolding new_ChannelPacket_eq [OF assms(1) refl assms(2)]
  using assms by (simp add: outgoing_def)

lemma builds_SpeechPacket:
  assumes "channel \<le> 3" "unat samples * 2 \<le> length speechData"
  shows "builds (new_SpeechPacket channel speechData samples) SpeechPacket
    ([0x40 + channel, 0x00, samples] @ take (unat samples * 2) speechData)"
  unfolding new_SpeechPacket_eq [OF assms(1) refl assms(2)]
  using assms by (simp add: outgoing_def)

text \<open>A channel number that no device has is caught by the constructor's assertion.\<close>

lemma builds_bad_channel:
  assumes "\<not> channel \<le> 3"
  shows "SetupRequest_index channel index direction = Inl (Crash Assert_failed)"
    and "SetupRequest_ratep channel cwds direction = Inl (Crash Assert_failed)"
  using assms by (simp_all add: SetupRequest_index_def SetupRequest_ratep_def ControlPacket_new_eq)

lemma parse_frame:
  assumes "list_all (wf_field k) fs"
  obtains p where
    "parse (frame (type_byte k) (encode_fields k fs)) (length (frame (type_byte k) (encode_fields k fs))) =
       Inr (Some p)"
    "p_kind p = k" "hasChecksum p" "view p = fold store_view fs empty_view"
proof -
  let ?b = "be16 (of_nat (length (encode_fields k fs) + 2))"
  have f: "frame (type_byte k) (encode_fields k fs) =
      [0x61, hd ?b, hd (tl ?b), type_byte k] @ encode_fields k fs @
      [0x2f, xor_bytes (hd ?b # hd (tl ?b) # type_byte k # encode_fields k fs @ [0x2f])]"
    by (simp add: frame_def frame_body_def be16_def)
  show ?thesis
    using parse_body [OF assms, where start = "0x61" and hi = "hd ?b" and lo = "hd (tl ?b)"
        and cs = "xor_bytes (hd ?b # hd (tl ?b) # type_byte k # encode_fields k fs @ [0x2f])"] that
    unfolding f [symmetric] by auto
qed


section \<open>Properties\<close>

text \<open>C2: parsing is the inverse of the packet format: for every sequence of well-formed fields of
its type, the framed packet is accepted, with a checksum field, and its accessors report exactly
the fields, the last one of each sort winning.\<close>

theorem parse_reports_fields:
  assumes "list_all (wf_field k) fs"
  shows "\<exists>p. parse (frame (type_byte k) (encode_fields k fs)) (6 + length (encode_fields k fs)) = Inr (Some p) \<and>
    p_kind p = k \<and> hasChecksum p \<and> view p = fold store_view fs empty_view"
proof -
  obtain p where
    "parse (frame (type_byte k) (encode_fields k fs)) (length (frame (type_byte k) (encode_fields k fs))) = Inr (Some p)"
    "p_kind p = k" "hasChecksum p" "view p = fold store_view fs empty_view"
    by (rule parse_frame [OF assms])
  then show ?thesis by (auto simp: add.commute)
qed

theorem parse_reports_fields_witness:
  "\<exists>p. parse (frame (type_byte SpeechPacket) (encode_fields SpeechPacket [WChannel 1, WSpeechD [0x1234, 0xFFFE]]))
      (6 + length (encode_fields SpeechPacket [WChannel 1, WSpeechD [0x1234, 0xFFFE]])) = Inr (Some p) \<and>
    p_kind p = SpeechPacket \<and> hasChecksum p \<and>
    view p = fold store_view [WChannel 1, WSpeechD [0x1234, 0xFFFE]] empty_view"
  by (rule parse_reports_fields) simp

text \<open>C5: the checksum decides: a packet of well-formed fields that ends in a parity field is
accepted if its last byte is the exclusive or of everything from the length to the parity opcode,
and is dropped if it is anything else.\<close>

theorem parse_checks_parity:
  fixes hi lo cs :: byte
  assumes "list_all (wf_field k) fs"
  shows "\<exists>p. parse ([0x61, hi, lo, type_byte k] @ encode_fields k fs @ [0x2f, cs]) (6 + length (encode_fields k fs)) =
    Inr (if cs = xor_bytes (hi # lo # type_byte k # encode_fields k fs @ [0x2f]) then Some p else None)"
proof -
  obtain p where
    "parse ([0x61, hi, lo, type_byte k] @ encode_fields k fs @ [0x2f, cs])
       (length ([0x61, hi, lo, type_byte k] @ encode_fields k fs @ [0x2f, cs])) =
     Inr (if cs = xor_bytes (hi # lo # type_byte k # encode_fields k fs @ [0x2f]) then Some p else None)"
    by (rule parse_body [OF assms])
  moreover have "length ([0x61, hi, lo, type_byte k] @ encode_fields k fs @ [0x2f, cs]) = 6 + length (encode_fields k fs)"
    by simp
  ultimately show ?thesis by metis
qed

theorem parse_checks_parity_witness:
  "parse ([0x61, 0, 3, type_byte ControlPacket] @ encode_fields ControlPacket [WReady] @ [0x2f, 0])
     (6 + length (encode_fields ControlPacket [WReady])) = Inr None"
  using parse_checks_parity [of ControlPacket "[WReady]" 0 3 0] by simp

end
