(* ===== verification/Serial_Port.thy ===== *)
theory Serial_Port
  imports Wire_Format
begin

text \<open>
  Packets on the serial line: \<^verbatim>\<open>Packet::writeTo\<close> and \<^verbatim>\<open>Packet::receiveFrom\<close> of
  \<^verbatim>\<open>src/modules/ambe3k/protocol.cpp\<close>.

  The file descriptor is a state of its own: the bytes that the device still sends (\<open>rx\<close>), the
  bytes written to it (\<open>tx\<close>), and a schedule that says for each call of \<^verbatim>\<open>read\<close> how many bytes
  have arrived by then, or that the call fails. The port is configured with a timeout, so a read
  on an exhausted schedule returns no bytes. A read with a count that is negative as a
  \<^verbatim>\<open>ssize_t\<close> is refused by the system.
\<close>

unbundle bit_operations_syntax

datatype read_event = Ready nat | Failed

record tty =
  rx :: bytes
  schedule :: "read_event list"
  tx :: bytes

text \<open>\<^verbatim>\<open>read(fd, buf, count)\<close>: the bytes it puts into the buffer, or \<open>None\<close> for the result -1.\<close>

definition tty_read :: "nat \<Rightarrow> tty \<Rightarrow> bytes option \<times> tty" where
  "tty_read count t =
     (if count \<ge> 2 ^ 63 then (None, t)
      else case schedule t of
          [] \<Rightarrow> (Some [], t)
        | Failed # es \<Rightarrow> (None, t\<lparr>schedule := es\<rparr>)
        | Ready k # es \<Rightarrow>
            (Some (take (min count k) (rx t)), t\<lparr>rx := drop (min count k) (rx t), schedule := es\<rparr>))"

section \<open>Sending\<close>

definition writeTo :: "packet \<Rightarrow> tty \<Rightarrow> error + packet \<times> tty" where
  "writeTo p t =
     bindE (updateChecksum p) (\<lambda>p.
     bindE (read_bytes (p_data p) 0 (p_dataSize p)) (\<lambda>out.
     Inr (p, t\<lparr>tx := tx t @ out\<rparr>)))"

section \<open>Receiving\<close>

text \<open>The counters of the read loops are \<^verbatim>\<open>short\<close>s; arithmetic on them wraps around.\<close>

definition to_short :: "int \<Rightarrow> int" where
  "to_short i = signed_take_bit 15 i"

text \<open>The bytes that one read stores at \<^verbatim>\<open>buf + off\<close>; no byte, no access.\<close>

definition store_read :: "bytes \<Rightarrow> int \<Rightarrow> bytes \<Rightarrow> error + bytes" where
  "store_read buf off xs =
     (if xs = [] then Inr buf
      else if off < 0 then Inl (Crash Out_of_bounds)
      else write_bytes buf (nat off) xs)"

text \<open>
  The two loops of at most ten reads: \<open>limit\<close> is the offset in the buffer at which the data to be
  read ends, \<open>remain\<close> the number of bytes that are missing. The result of \<^verbatim>\<open>read\<close> is subtracted
  from \<open>remain\<close> whether it is a count or -1. When \<open>remain\<close> is negative, the count that reaches
  \<^verbatim>\<open>read\<close> is its value as a \<^verbatim>\<open>size_t\<close>.
\<close>

fun read_loop :: "nat \<Rightarrow> int \<Rightarrow> int \<Rightarrow> bytes \<Rightarrow> tty \<Rightarrow> error + int \<times> bytes \<times> tty" where
  "read_loop 0 limit remain buf t = Inr (remain, buf, t)"
| "read_loop (Suc i) limit remain buf t =
     (case tty_read (nat (remain mod 2 ^ 64)) t of
        (None, t) \<Rightarrow>
          (let remain = to_short (remain - -1) in
           if remain = 0 then Inr (remain, buf, t) else read_loop i limit remain buf t)
      | (Some xs, t) \<Rightarrow>
          bindE (store_read buf (limit - remain) xs) (\<lambda>buf.
          let remain = to_short (remain - int (length xs)) in
          if remain = 0 then Inr (remain, buf, t) else read_loop i limit remain buf t))"

text \<open>
  Memory that was never written: its content at each offset is given by \<open>uninit\<close>.
  \<^verbatim>\<open>malloc\<close> returns nothing else; \<^verbatim>\<open>realloc\<close> to a positive size keeps the old content up to
  that size.
\<close>

definition fresh :: "(nat \<Rightarrow> byte) \<Rightarrow> nat \<Rightarrow> nat \<Rightarrow> bytes" where
  "fresh uninit i j = map uninit [i..<j]"

definition malloc :: "(nat \<Rightarrow> byte) \<Rightarrow> nat \<Rightarrow> bytes" where
  "malloc uninit n = fresh uninit 0 n"

definition realloc :: "(nat \<Rightarrow> byte) \<Rightarrow> bytes \<Rightarrow> nat \<Rightarrow> bytes" where
  "realloc uninit buf n = take n buf @ fresh uninit (length buf) n"

text \<open>
  \<^verbatim>\<open>Packet::receiveFrom\<close>. The length is read back as a signed \<^verbatim>\<open>short\<close>. When
  \<^verbatim>\<open>payloadLength + 4\<close> is zero or negative, \<^verbatim>\<open>realloc\<close> returns the null pointer; the reads of the
  second loop then have a count that the system refuses, and \<^verbatim>\<open>parse\<close> dereferences the null
  pointer.
\<close>

definition receiveFrom :: "(nat \<Rightarrow> byte) \<Rightarrow> tty \<Rightarrow> error + packet option \<times> tty" where
  "receiveFrom uninit t =
     (let buf = malloc uninit 1024 in
      bindE (read_loop 10 4 4 buf t) (\<lambda>(remain, buf, t).
      bindE (get_byte buf 0) (\<lambda>start.
      if remain > 0 \<or> start \<noteq> AMBE3K_START_BYTE then Inr (None, t)
      else
        bindE (get_byte buf 1) (\<lambda>lo.
        bindE (get_byte buf 2) (\<lambda>hi.
        let payloadLength = sint (ntohs (short_of lo hi)) in
        if payloadLength + 4 \<le> 0 then Inl (Crash Null_deref)
        else
          bindE (read_loop 10 (4 + payloadLength) payloadLength
             (realloc uninit buf (nat (payloadLength + 4))) t) (\<lambda>(remain, buf, t).
          bindE (parse buf (nat (payloadLength + 4))) (\<lambda>p. Inr (p, t))))))))"

section \<open>Sending a prepared packet\<close>

lemma writeTo_frame:
  assumes "outgoing p ty body"
  shows "writeTo p t = Inr (p\<lparr>p_data := frame ty body\<rparr>, t\<lparr>tx := tx t @ frame ty body\<rparr>)"
  using assms by (simp add: writeTo_def updateChecksum_frame [OF assms] read_bytes_def)
    (simp add: outgoing_def)

section \<open>The read loops\<close>

lemma to_short_id: "- 32768 \<le> i \<Longrightarrow> i < 32768 \<Longrightarrow> to_short i = i"
  by (simp add: to_short_def signed_take_bit_int_eq_self)

lemma read_count: "0 \<le> i \<Longrightarrow> i < 32768 \<Longrightarrow> nat (i mod 2 ^ 64) = nat i"
  by simp

lemma tty_read_ready:
  "count < 2 ^ 63 \<Longrightarrow> schedule t = Ready k # es \<Longrightarrow>
   tty_read count t = (Some (take (min count k) (rx t)), t\<lparr>rx := drop (min count k) (rx t), schedule := es\<rparr>)"
  by (simp add: tty_read_def)

lemma tty_read_quiet:
  "count < 2 ^ 63 \<Longrightarrow> schedule t = [] \<Longrightarrow> tty_read count t = (Some [], t)"
  by (simp add: tty_read_def)

text \<open>
  A list of arrivals \<open>covers\<close> a request when the loop needs exactly these reads for it: at most
  ten, and only the last one completes it.
\<close>

definition covers :: "nat list \<Rightarrow> nat \<Rightarrow> bool" where
  "covers ks n \<longleftrightarrow>
     ks \<noteq> [] \<and> length ks \<le> 10 \<and> sum_list (butlast ks) < n \<and> n \<le> sum_list ks"

lemma store_read_append:
  assumes "length xs \<le> length junk"
  shows "store_read (pre @ junk @ post) (int (length pre)) xs =
    Inr ((pre @ xs) @ drop (length xs) junk @ post)"
  using assms by (auto simp: store_read_def write_bytes_def)

lemma read_loop_covered:
  assumes "ks \<noteq> []" "length ks \<le> i" "sum_list (butlast ks) < n" "n \<le> sum_list ks"
    and "n < 32768" "n \<le> length (rx t)" "schedule t = map Ready ks @ es"
    and "length junk = n" "limit = int (length pre + n)"
  shows "read_loop i limit (int n) (pre @ junk @ post) t =
    Inr (0, pre @ take n (rx t) @ post, t\<lparr>rx := drop n (rx t), schedule := es\<rparr>)"
  using assms
proof (induction ks arbitrary: i n pre junk t)
  case Nil
  then show ?case by simp
next
  case (Cons k ks)
  then obtain j where i: "i = Suc j" by (cases i) auto
  let ?m = "min n k"
  let ?t = "t\<lparr>rx := drop ?m (rx t), schedule := map Ready ks @ es\<rparr>"
  have read: "tty_read (nat (int n mod 2 ^ 64)) t = (Some (take ?m (rx t)), ?t)"
    using Cons.prems by (simp add: read_count tty_read_ready)
  have len: "length (take ?m (rx t)) = ?m" using Cons.prems(6) by simp
  have store: "store_read (pre @ junk @ post) (limit - int n) (take ?m (rx t)) =
      Inr ((pre @ take ?m (rx t)) @ drop ?m junk @ post)"
    using store_read_append [of "take ?m (rx t)" junk pre post] Cons.prems(8,9) len by simp
  have short: "to_short (int n - int ?m) = int (n - ?m)"
    using Cons.prems(5) by (simp add: to_short_id of_nat_diff)
  show ?case
  proof (cases "ks = []")
    case True
    with Cons.prems have "?m = n" by simp
    with read store short len show ?thesis
      using Cons.prems(8) True by (simp add: i)
  next
    case False
    with Cons.prems have k: "k < n" by simp
    have "read_loop j limit (int (n - k)) ((pre @ take k (rx t)) @ drop k junk @ post) ?t =
        Inr (0, (pre @ take k (rx t)) @ take (n - k) (rx ?t) @ post,
          ?t\<lparr>rx := drop (n - k) (rx ?t), schedule := es\<rparr>)"
      using False Cons.prems k i by (intro Cons.IH) (auto simp: len)
    moreover have "take k (rx t) @ take (n - k) (drop k (rx t)) = take n (rx t)"
      using k by (metis le_add_diff_inverse less_imp_le take_add)
    ultimately show ?thesis
      using read store short len k by (simp add: i min_absorb2 drop_drop)
  qed
qed


lemma store_read_Nil [simp]: "store_read buf off [] = Inr buf"
  by (simp add: store_read_def)

lemma read_loop_quiet:
  assumes "schedule t = []" "0 < n" "n < 32768"
  shows "read_loop i limit (int n) buf t = Inr (int n, buf, t)"
  using assms by (induction i) (simp_all add: read_count tty_read_quiet to_short_id)

lemma read_loop_negative:
  assumes "- 32768 \<le> remain" "remain < 0"
  shows "\<exists>r. read_loop i limit remain buf t = Inr (r, buf, t)"
  using assms
proof (induction i arbitrary: remain)
  case 0
  then show ?case by simp
next
  case (Suc i)
  then have "(remain + 2 ^ 64) mod 2 ^ 64 = remain + 2 ^ 64"
    by (intro mod_pos_pos_trivial) simp_all
  then have "remain mod 2 ^ 64 = remain + 2 ^ 64" by simp
  moreover have "2 ^ 63 \<le> nat (remain + 2 ^ 64)"
    using Suc.prems by (simp add: le_nat_iff)
  ultimately have "tty_read (nat (remain mod 2 ^ 64)) t = (None, t)"
    using Suc.prems by (simp add: tty_read_def)
  then show ?case
    using Suc.IH [of "remain + 1"] Suc.prems by (simp add: to_short_id Let_def)
qed

section \<open>Receiving\<close>

lemma length_fresh [simp]: "length (fresh uninit i j) = j - i"
  by (simp add: fresh_def)

lemma fresh_split: "i \<le> j \<Longrightarrow> j \<le> k \<Longrightarrow> fresh uninit i k = fresh uninit i j @ fresh uninit j k"
  using upt_add_eq_append [of i j "k - j"] by (simp add: fresh_def)

lemma fresh_empty [simp]: "j \<le> i \<Longrightarrow> fresh uninit i j = []"
  by (simp add: fresh_def)

lemma realloc_fresh:
  assumes "length h \<le> n" "length h \<le> m"
  shows "realloc uninit (h @ fresh uninit (length h) m) n = h @ fresh uninit (length h) n"
proof (cases "n \<le> m")
  case True
  with assms show ?thesis
    by (simp add: realloc_def fresh_split [of "length h" n m])
next
  case False
  with assms show ?thesis
    by (simp add: realloc_def fresh_split [of "length h" m n])
qed

text \<open>The length that the header announces.\<close>

definition announced :: "byte \<Rightarrow> byte \<Rightarrow> int" where
  "announced b1 b2 = sint (ntohs (short_of b1 b2))"

lemma announced_be16:
  "n < 32768 \<Longrightarrow> announced (hd (be16 (of_nat n))) (hd (tl (be16 (of_nat n)))) = int n"
proof -
  assume n: "n < 32768"
  then have "(of_nat n :: short) = word_of_nat n" "n < 2 ^ 15" by simp_all
  then have "sint (of_nat n :: short) = int n"
    by (simp add: sint_uint unsigned_of_nat take_bit_nat_eq_self signed_take_bit_int_eq_self
        flip: uint_nat)
  then show ?thesis by (simp add: announced_def be16_def short_of_be16 ntohs_def)
qed

text \<open>What \<open>receiveFrom\<close> does once the header has arrived.\<close>

abbreviation header :: "byte \<Rightarrow> byte \<Rightarrow> byte \<Rightarrow> bytes" where
  "header b1 b2 ty \<equiv> [AMBE3K_START_BYTE, b1, b2, ty]"

lemma length_header: "length (header b1 b2 ty) = 4"
  by simp

lemma receiveFrom_header:
  assumes "covers hs 4" "rx t = header b1 b2 ty @ xs" "schedule t = map Ready hs @ es"
    and "announced b1 b2 = n"
  shows "receiveFrom uninit t =
    (if n + 4 \<le> 0 then Inl (Crash Null_deref)
     else bindE (read_loop 10 (4 + n) n
            (realloc uninit (header b1 b2 ty @ fresh uninit 4 1024) (nat (n + 4)))
            (t\<lparr>rx := xs, schedule := es\<rparr>))
          (\<lambda>(remain, buf, t2). bindE (parse buf (nat (n + 4))) (\<lambda>p. Inr (p, t2))))"
proof -
  have "malloc uninit 1024 = [] @ fresh uninit 0 4 @ fresh uninit 4 1024"
    by (simp add: malloc_def fresh_split [of 0 4 1024])
  then have "read_loop 10 4 4 (malloc uninit 1024) t =
      Inr (0, header b1 b2 ty @ fresh uninit 4 1024, t\<lparr>rx := xs, schedule := es\<rparr>)"
    using read_loop_covered [of hs 10 4 t es "fresh uninit 0 4" 4 "[]" "fresh uninit 4 1024"] assms
    by (simp add: covers_def)
  with assms(4) show ?thesis
    by (simp add: receiveFrom_def Let_def announced_def get_byte_def)
qed

lemma receiveFrom_payload:
  assumes "covers hs 4" "rx t = header b1 b2 ty @ xs" "schedule t = map Ready hs @ es"
    and "announced b1 b2 = int n"
    and "read_loop 10 (4 + int n) (int n) (header b1 b2 ty @ fresh uninit 4 (4 + n))
      (t\<lparr>rx := xs, schedule := es\<rparr>) = Inr (r, buf, t2)"
  shows "receiveFrom uninit t = bindE (parse buf (4 + n)) (\<lambda>p. Inr (p, t2))"
proof -
  have "realloc uninit (header b1 b2 ty @ fresh uninit 4 1024) (4 + n) = header b1 b2 ty @ fresh uninit 4 (4 + n)"
    using realloc_fresh [of "header b1 b2 ty" "4 + n" 1024 uninit, unfolded length_header] by simp
  moreover have "nat (int n + 4) = 4 + n" by simp
  ultimately show ?thesis
    using assms(5) by (simp only: receiveFrom_header [OF assms(1-4)]) simp
qed

text \<open>A whole packet, however the line splits it up.\<close>

lemma receiveFrom_packet:
  assumes "covers hs 4" "covers ks n" "length payload = n" "n < 32768"
    and "rx t = AMBE3K_START_BYTE # be16 (of_nat n) @ ty # payload @ rest"
    and "schedule t = map Ready hs @ map Ready ks @ es"
  shows "receiveFrom uninit t =
    bindE (parse (AMBE3K_START_BYTE # be16 (of_nat n) @ ty # payload) (4 + n))
      (\<lambda>p. Inr (p, t\<lparr>rx := rest, schedule := es\<rparr>))"
proof -
  define b1 b2 where "b1 = hd (be16 (of_nat n))" and "b2 = hd (tl (be16 (of_nat n)))"
  have be: "be16 (of_nat n) = [b1, b2]" by (simp add: b1_def b2_def be16_def)
  have ann: "announced b1 b2 = int n"
    using announced_be16 [OF assms(4)] by (simp add: b1_def b2_def)
  have "read_loop 10 (4 + int n) (int n) (header b1 b2 ty @ fresh uninit 4 (4 + n) @ [])
      (t\<lparr>rx := payload @ rest, schedule := map Ready ks @ es\<rparr>) =
      Inr (0, header b1 b2 ty @ payload @ [], t\<lparr>rx := rest, schedule := es\<rparr>)"
    using assms(2,3,4) by (subst read_loop_covered [of ks 10 n _ es]) (simp_all add: covers_def)
  with assms ann show ?thesis
    by (subst receiveFrom_payload [of hs t b1 b2 ty "payload @ rest" "map Ready ks @ es" n])
      (simp_all add: be)
qed

text \<open>The line falls silent within the payload: the packet is parsed all the same.\<close>

lemma receiveFrom_truncated:
  assumes "covers hs 4" "rx t = header b1 b2 ty @ got" "schedule t = map Ready hs @ [Ready k]"
    and "announced b1 b2 = int n" "length got = k" "k < n" "n < 32768"
  shows "receiveFrom uninit t =
    bindE (parse (header b1 b2 ty @ got @ fresh uninit (4 + k) (4 + n)) (4 + n))
      (\<lambda>p. Inr (p, t\<lparr>rx := [], schedule := []\<rparr>))"
proof -
  let ?t = "t\<lparr>rx := got, schedule := [Ready k]\<rparr>"
  have read: "tty_read (nat (int n mod 2 ^ 64)) ?t = (Some got, t\<lparr>rx := [], schedule := []\<rparr>)"
    using assms(5-7) by (simp add: read_count tty_read_ready)
  have "store_read (header b1 b2 ty @ fresh uninit 4 (4 + n)) 4 got =
      Inr (header b1 b2 ty @ got @ fresh uninit (4 + k) (4 + n))"
    using store_read_append [of got "fresh uninit 4 (4 + n)" "header b1 b2 ty" "[]"] assms(5,6)
      fresh_split [of 4 "4 + k" "4 + n" uninit] by simp
  with read have "read_loop (Suc i) (4 + int n) (int n) (header b1 b2 ty @ fresh uninit 4 (4 + n)) ?t =
      Inr (int (n - k), header b1 b2 ty @ got @ fresh uninit (4 + k) (4 + n), t\<lparr>rx := [], schedule := []\<rparr>)"
    for i
    using assms(5-7) by (simp add: to_short_id read_loop_quiet flip: of_nat_diff)
  from this [of 9] show ?thesis
    using assms by (subst receiveFrom_payload [of hs t b1 b2 ty got "[Ready k]" n]) simp_all
qed

lemma receiveFrom_frame:
  assumes "list_all (wf_field k) fs" "length (encode_fields k fs) < 32766"
    and "covers hs 4" "covers ks (length (encode_fields k fs) + 2)"
    and "rx t = frame (type_byte k) (encode_fields k fs) @ rest"
    and "schedule t = map Ready hs @ map Ready ks @ es"
  obtains p where "receiveFrom uninit t = Inr (Some p, t\<lparr>rx := rest, schedule := es\<rparr>)"
    "p_kind p = k" "hasChecksum p" "view p = fold store_view fs empty_view"
proof -
  let ?e = "encode_fields k fs" and ?n = "length (encode_fields k fs) + 2"
  let ?x = "xor_bytes (frame_body (type_byte k) ?e)"
  have f: "frame (type_byte k) ?e = AMBE3K_START_BYTE # be16 (of_nat ?n) @ type_byte k # (?e @ [0x2f, ?x])"
    by (simp add: frame_def frame_body_def)
  obtain p where p: "parse (frame (type_byte k) ?e) (length (frame (type_byte k) ?e)) = Inr (Some p)"
    "p_kind p = k" "hasChecksum p" "view p = fold store_view fs empty_view"
    by (rule parse_frame [OF assms(1)])
  have "4 + ?n = length (frame (type_byte k) ?e)" by simp
  with p(1) have p': "parse (AMBE3K_START_BYTE # be16 (of_nat ?n) @ type_byte k # (?e @ [0x2f, ?x])) (4 + ?n) = Inr (Some p)"
    unfolding f by (simp only:)
  have "receiveFrom uninit t = Inr (Some p, t\<lparr>rx := rest, schedule := es\<rparr>)"
    using receiveFrom_packet [OF assms(3,4), of "?e @ [0x2f, ?x]" t "type_byte k" rest es uninit] assms p'
    unfolding f by simp
  with p that show ?thesis by blast
qed

text \<open>The bytes that writing a packet, once it is constructed, adds to the line.\<close>

definition sent :: "tty \<Rightarrow> error + packet \<Rightarrow> error + bytes" where
  "sent t m = bindE m (\<lambda>p. bindE (writeTo p t) (\<lambda>(p, t'). Inr (drop (length (tx t)) (tx t'))))"

lemma sent_builds: "builds m k body \<Longrightarrow> sent t m = Inr (frame (type_byte k) body)"
  by (elim buildsE) (simp add: sent_def writeTo_frame)

lemma length_realloc [simp]: "length (realloc uninit buf n) = n"
  by (simp add: realloc_def)

lemma parse_short: "length d \<le> 3 \<Longrightarrow> parse d n = Inl (Crash Out_of_bounds)"
  by (simp add: parse_def get_byte_def)

lemma announced_negative:
  assumes "0x80 \<le> b1"
  shows "announced b1 b2 < 0" "- 32768 \<le> announced b1 b2"
proof -
  have "unat b1 div 2 ^ 7 = 1"
    using assms unsigned_less [of b1, where 'a = nat] by (simp add: word_le_nat_alt)
  then have "bit b1 7"
    by (simp add: bit_iff_odd word_arith_nat_div unat_drop_bit_eq flip: unat_drop_bit_eq)
  then have "bit (ntohs (short_of b1 b2)) 15"
    by (simp add: ntohs_def htons_def short_of_def bit_simps)
  then show "announced b1 b2 < 0"
    using bit_last_iff [of "ntohs (short_of b1 b2)"] by (simp add: announced_def)
  show "- 32768 \<le> announced b1 b2"
    using sint_ge [of "ntohs (short_of b1 b2)"] by (simp add: announced_def)
qed

section \<open>Properties\<close>

text \<open>C4: each packet that the program builds is written as the frame of the packet format, with
the right length, type, fields and checksum; a failed \<open>write\<close> is not noticed.\<close>

theorem requests_on_the_wire:
  assumes "channel \<le> 3" "length cwds = 6"
    and "(unat bits + 7) div 8 \<le> length channelData" "unat samples * 2 \<le> length speechData"
  shows "sent t ResetPacket = Inr (frame AMBE3K_TYPE_CONTROL [0x33]) \<and>
    sent t ProdIdRequest = Inr (frame AMBE3K_TYPE_CONTROL [0x30]) \<and>
    sent t VersionStringRequest = Inr (frame AMBE3K_TYPE_CONTROL [0x31]) \<and>
    sent t (SetupRequest_index channel index direction) =
      Inr (frame AMBE3K_TYPE_CONTROL [0x40 + channel, 0x09, index, 0x0B, direction]) \<and>
    sent t (SetupRequest_ratep channel cwds direction) =
      Inr (frame AMBE3K_TYPE_CONTROL ([0x40 + channel, 0x0A] @ concat (map be16 cwds) @ [0x0B, direction])) \<and>
    sent t (new_ChannelPacket channel channelData bits) =
      Inr (frame AMBE3K_TYPE_AMBE ([0x40 + channel, 0x01, bits] @ take ((unat bits + 7) div 8) channelData)) \<and>
    sent t (new_SpeechPacket channel speechData samples) =
      Inr (frame AMBE3K_TYPE_AUDIO ([0x40 + channel, 0x00, samples] @ take (unat samples * 2) speechData))"
  using sent_builds [OF builds_ResetPacket] sent_builds [OF builds_ProdIdRequest]
    sent_builds [OF builds_VersionStringRequest]
    sent_builds [OF builds_SetupRequest_index [OF assms(1)]]
    sent_builds [OF builds_SetupRequest_ratep [OF assms(1,2)]]
    sent_builds [OF builds_ChannelPacket [OF assms(1,3)]]
    sent_builds [OF builds_SpeechPacket [OF assms(1,4)]]
  by simp

theorem requests_on_the_wire_witness:
  "sent \<lparr>rx = [], schedule = [], tx = []\<rparr> ResetPacket = Inr (frame AMBE3K_TYPE_CONTROL [0x33])"
  using requests_on_the_wire [of 0 "[1, 2, 3, 4, 5, 6]" 8 "[7]" 1 "[8, 9]"]
  by simp



text \<open>if the line falls silent within the payload, the packet is parsed all the same, with
memory that was never written in place of the missing bytes.\<close>

theorem receive_truncated_payload:
  assumes "covers hs 4" "rx t = [0x61, b1, b2, ty] @ got" "schedule t = map Ready hs @ [Ready k]"
    and "announced b1 b2 = int n" "length got = k" "k < n" "n < 32768"
  shows "receiveFrom uninit t =
    bindE (parse ([0x61, b1, b2, ty] @ got @ fresh uninit (4 + k) (4 + n)) (4 + n))
      (\<lambda>p. Inr (p, t\<lparr>rx := [], schedule := []\<rparr>))"
  using receiveFrom_truncated [OF assms(1) _ assms(3-7)] assms(2) by simp

theorem receive_truncated_payload_witness:
  "receiveFrom (\<lambda>_. 0xEE) \<lparr>rx = [0x61, 0, 2, 1] @ [0x40], schedule = map Ready [4] @ [Ready 1], tx = []\<rparr> =
    bindE (parse ([0x61, 0, 2, 1] @ [0x40] @ fresh (\<lambda>_. 0xEE) (4 + 1) (4 + 2)) (4 + 2))
      (\<lambda>p. Inr (p, \<lparr>rx = [], schedule = [], tx = []\<rparr>))"
proof -
  have "announced 0 2 = int 2" using announced_be16 [of 2] by (simp add: be16_def)
  then show ?thesis
    using receive_truncated_payload [of "[4]" "\<lparr>rx = [0x61, 0, 2, 1] @ [0x40], schedule = map Ready [4] @ [Ready 1], tx = []\<rparr>"
        0 2 1 "[0x40]" 1 2 "\<lambda>_. 0xEE"]
    by (simp add: covers_def)
qed

text \<open>a header that announces \<open>0x8000\<close> bytes or more is read back as a negative length, and
the process crashes, whatever else is on the line.\<close>

theorem receive_negative_length:
  assumes "covers hs 4" "rx t = [0x61, b1, b2, ty] @ xs" "schedule t = map Ready hs @ es"
    and "0x80 \<le> b1"
  shows "\<exists>f. receiveFrom uninit t = Inl (Crash f)"
proof -
  let ?n = "announced b1 b2"
  let ?buf = "realloc uninit (header b1 b2 ty @ fresh uninit 4 1024) (nat (?n + 4))"
  from announced_negative [OF assms(4)] have neg: "?n < 0" "- 32768 \<le> ?n" by simp_all
  then obtain r where "read_loop 10 (4 + ?n) ?n ?buf (t\<lparr>rx := xs, schedule := es\<rparr>) =
      Inr (r, ?buf, t\<lparr>rx := xs, schedule := es\<rparr>)"
    using read_loop_negative by blast
  moreover have "parse ?buf (nat (?n + 4)) = Inl (Crash Out_of_bounds)"
    using neg by (intro parse_short) simp
  ultimately show ?thesis
    using receiveFrom_header [OF assms(1) _ assms(3) refl, of b1 b2 ty xs uninit] assms(2) by simp
qed

theorem receive_negative_length_witness:
  "\<exists>f. receiveFrom (\<lambda>_. 0xEE) \<lparr>rx = [0x61, 0xFF, 0xFE, 0] @ [], schedule = map Ready [4] @ [], tx = []\<rparr> =
    Inl (Crash f)"
  by (rule receive_negative_length [of "[4]" _ "0xFF" "0xFE" 0 "[]" "[]"]) (simp_all add: covers_def)

text \<open>a failing read moves the write position of the next read in front of the buffer: if
the first read of a header fails and the next one delivers anything, the byte before the buffer is
overwritten.\<close>

theorem receive_error_underflow:
  assumes "schedule t = Failed # Ready k # es" "0 < k" "rx t \<noteq> []"
  shows "receiveFrom uninit t = Inl (Crash Out_of_bounds)"
proof -
  obtain x xs where rx: "rx t = x # xs" using assms(3) by (cases "rx t") auto
  obtain m where k: "min 5 k = Suc m" using assms(2) by (cases "min 5 k") auto
  have "read_loop (Suc (Suc i)) 4 4 buf t = Inl (Crash Out_of_bounds)" for i buf
    using assms(1) by (simp add: tty_read_def to_short_id store_read_def rx k)
  from this [of 8] show ?thesis by (simp add: receiveFrom_def)
qed

theorem receive_error_underflow_witness:
  "receiveFrom (\<lambda>_. 0xEE) \<lparr>rx = [0x61], schedule = [Failed, Ready 1], tx = []\<rparr> = Inl (Crash Out_of_bounds)"
  by (rule receive_error_underflow [of _ 1 "[]"]) simp_all

text \<open>channel data survives the packet format: the bytes of a channel packet parse back to a
channel packet that reports the same channel and the same data.\<close>

theorem channel_packet_roundtrip:
  assumes "channel \<le> 2" "(unat bits + 7) div 8 \<le> length channelData"
  shows "\<exists>out p. sent t (new_ChannelPacket channel channelData bits) = Inr out \<and>
    parse out (length out) = Inr (Some p) \<and> p_kind p = ChannelPacket \<and>
    hasChannel p \<and> getChannel p = Inr channel \<and>
    getChannelData p = Inr (take ((unat bits + 7) div 8) channelData)"
proof -
  let ?cd = "take ((unat bits + 7) div 8) channelData"
  let ?fs = "[WChannel channel, WChanD bits ?cd]"
  have "channel \<le> 3" using assms(1) by (simp add: word_le_nat_alt)
  then have out: "sent t (new_ChannelPacket channel channelData bits) =
      Inr (frame (type_byte ChannelPacket) (encode_fields ChannelPacket ?fs))"
    using sent_builds [OF builds_ChannelPacket] assms(2) by simp
  have wf: "list_all (wf_field ChannelPacket) ?fs" using assms by simp
  obtain p where p: "parse (frame (type_byte ChannelPacket) (encode_fields ChannelPacket ?fs))
      (length (frame (type_byte ChannelPacket) (encode_fields ChannelPacket ?fs))) = Inr (Some p)"
    "p_kind p = ChannelPacket" "view p = fold store_view ?fs empty_view"
    by (rule parse_frame [OF wf])
  from p(3) have "hasChannel p \<and> getChannel p = Inr channel \<and> getChannelData p = Inr ?cd"
    by (simp add: view_def empty_view_def split: if_splits)
  with out p(1,2) show ?thesis by blast
qed

theorem channel_packet_roundtrip_witness:
  "\<exists>out p. sent \<lparr>rx = [], schedule = [], tx = []\<rparr> (new_ChannelPacket 2 [0xB9, 0xE8, 0x81] 24) = Inr out \<and>
    parse out (length out) = Inr (Some p) \<and> p_kind p = ChannelPacket \<and>
    hasChannel p \<and> getChannel p = Inr 2 \<and> getChannelData p = Inr [0xB9, 0xE8, 0x81]"
  using channel_packet_roundtrip [of 2 24 "[0xB9, 0xE8, 0x81]" "\<lparr>rx = [], schedule = [], tx = []\<rparr>"] by simp

text \<open>C7: speech data does not survive it: the samples are copied into a speech packet as they
lie in memory but are converted from network order when they are read back, so every sample comes
back with its two bytes exchanged.\<close>

theorem speech_packet_swaps_samples:
  assumes "channel \<le> 2" "unat samples * 2 \<le> length speechData"
  shows "\<exists>out p. sent t (new_SpeechPacket channel speechData samples) = Inr out \<and>
    parse out (length out) = Inr (Some p) \<and> p_kind p = SpeechPacket \<and>
    hasChannel p \<and> getChannel p = Inr channel \<and>
    getSpeechData p = Inr (map htons (take (unat samples) (shorts_of speechData)))"
proof -
  let ?ws = "map htons (take (unat samples) (shorts_of speechData))"
  let ?fs = "[WChannel channel, WSpeechD ?ws]"
  have "channel \<le> 3" using assms(1) by (simp add: word_le_nat_alt)
  moreover have "length ?ws = unat samples" using assms(2) by simp
  moreover have "concat (map be16 ?ws) = take (unat samples * 2) speechData"
  proof -
    have "concat (map be16 ?ws) = concat (map le16 (shorts_of (take (2 * unat samples) speechData)))"
      by (simp add: shorts_of_take comp_def flip: le16_htons)
    also have "\<dots> = take (2 * unat samples) speechData"
      using assms(2) by (intro bytes_of_shorts_of) (simp add: mult.commute min_absorb2)
    finally show ?thesis by (simp add: mult.commute)
  qed
  ultimately have out: "sent t (new_SpeechPacket channel speechData samples) =
      Inr (frame (type_byte SpeechPacket) (encode_fields SpeechPacket ?fs))"
    using sent_builds [OF builds_SpeechPacket] assms(2) by simp
  have wf: "list_all (wf_field SpeechPacket) ?fs"
    using assms unsigned_less [of samples, where 'a = nat] by simp
  obtain p where p: "parse (frame (type_byte SpeechPacket) (encode_fields SpeechPacket ?fs))
      (length (frame (type_byte SpeechPacket) (encode_fields SpeechPacket ?fs))) = Inr (Some p)"
    "p_kind p = SpeechPacket" "view p = fold store_view ?fs empty_view"
    by (rule parse_frame [OF wf])
  from p(3) have "hasChannel p \<and> getChannel p = Inr channel \<and> getSpeechData p = Inr ?ws"
    by (simp add: view_def empty_view_def split: if_splits)
  with out p(1,2) show ?thesis by blast
qed

theorem speech_packet_swaps_samples_witness:
  "\<exists>out p. sent \<lparr>rx = [], schedule = [], tx = []\<rparr> (new_SpeechPacket 0 [0x34, 0x12, 0x01, 0x00] 2) = Inr out \<and>
    parse out (length out) = Inr (Some p) \<and> p_kind p = SpeechPacket \<and>
    hasChannel p \<and> getChannel p = Inr 0 \<and> getSpeechData p = Inr [0x3412, 0x0100]"
proof -
  have "map htons (take (unat (2 :: byte)) (shorts_of [0x34, 0x12, 0x01, 0x00])) = [0x3412, 0x0100]"
    by code_simp
  with speech_packet_swaps_samples [of 0 2 "[0x34, 0x12, 0x01, 0x00]" "\<lparr>rx = [], schedule = [], tx = []\<rparr>"] show ?thesis by simp
qed

end
