(* ===== verification/Ambe_Channel.thy ===== *)
theory Ambe_Channel
  imports Serial_Port Blocking_Queue
begin

text \<open>
  The codec channels of a device: \<^verbatim>\<open>Channel\<close> of \<^verbatim>\<open>src/modules/ambe3k/channel.cpp\<close>.

  A channel hands packets to the queue of its device and keeps the packets that came back for it
  in a queue of its own until they are read. Operations work on the channel together with the
  device's queue; one that has to wait for the device is \<open>Waits\<close>. The rate parameters are the
  list of the words that \<^verbatim>\<open>ratep\<close> points to. The queue operations are those of the thread that
  holds the queue's mutex; log output is not modelled.
\<close>

unbundle bit_operations_syntax

section \<open>State\<close>

record chan =
  ch_busy :: bool
  ch_index :: byte
  ch_codecIndex :: byte
  ch_ratep :: "short list option"
  ch_outQueue :: "packet bqueue option"

definition new_Channel :: "byte \<Rightarrow> chan" where
  "new_Channel index = \<lparr>ch_busy = False, ch_index = index, ch_codecIndex = 0, ch_ratep = None,
     ch_outQueue = None\<rparr>"

type_synonym device_queue = "packet bqueue"

definition isBusy :: "chan \<Rightarrow> bool" where
  "isBusy c = ch_busy c"

definition getCodecIndex :: "chan \<Rightarrow> byte" where
  "getCodecIndex c = ch_codecIndex c"

definition getRateP :: "chan \<Rightarrow> short list option" where
  "getRateP c = ch_ratep c"

section \<open>Framing\<close>

text \<open>\<^verbatim>\<open>memcmp(a, b, n) == 0\<close>, for \<open>n\<close> within both arrays of shorts.\<close>

definition memcmp_equal :: "short list \<Rightarrow> short list \<Rightarrow> nat \<Rightarrow> bool" where
  "memcmp_equal a b n \<longleftrightarrow> take n (concat (map le16 a)) = take n (concat (map le16 b))"

definition dstar :: "short list" where
  "dstar = [0x0130, 0x0763, 0x4000, 0x0000, 0x0000, 0x0048]"

definition ysf_vw :: "short list" where
  "ysf_vw = [0x0558, 0x086b, 0x1030, 0x0000, 0x0000, 0x0190]"

definition sizeof_short :: nat where
  "sizeof_short = 2"

definition getFramingBits :: "chan \<Rightarrow> byte" where
  "getFramingBits c =
     (if getCodecIndex c = 33 then 72
      else if getCodecIndex c = 34 then 49
      else if getCodecIndex c = 59 then 144
      else case getRateP c of
          None \<Rightarrow> 0
        | Some cwds \<Rightarrow>
            if memcmp_equal cwds dstar (sizeof_short * 6) then 72
            else if memcmp_equal cwds ysf_vw (sizeof_short AND 6) then 144
            else 0)"

section \<open>Sending\<close>

text \<open>\<^verbatim>\<open>Device::writePacket\<close>: the packet goes into the device's queue, when there is room.\<close>

definition writePacket :: "packet \<Rightarrow> ('c \<times> device_queue, unit) operation" where
  "writePacket p s =
     (case push (snd s) p True of
        Push_returns q \<Rightarrow> (Inr (), (fst s, q))
      | Push_waits \<Rightarrow> (Inl Waits, s)
      | Push_throws \<Rightarrow> (Inl (Raise Queue_full_exception), s))"

text \<open>
  \<^verbatim>\<open>size * 8\<close> and \<^verbatim>\<open>size / 2\<close> become an \<^verbatim>\<open>unsigned char\<close> when they are passed on.
\<close>

definition decode :: "bytes \<Rightarrow> nat \<Rightarrow> (chan \<times> device_queue, unit) operation" where
  "decode input sz s =
     bindS (liftS (new_ChannelPacket (ch_index (fst s)) input (of_nat (sz * 8)))) writePacket s"

definition encode :: "bytes \<Rightarrow> nat \<Rightarrow> (chan \<times> device_queue, unit) operation" where
  "encode input sz s =
     bindS (liftS (new_SpeechPacket (ch_index (fst s)) input (of_nat (sz div 2)))) writePacket s"

definition setup_index :: "byte \<Rightarrow> byte \<Rightarrow> (chan \<times> device_queue, unit) operation" where
  "setup_index codecIndex direction s =
     (let c = (fst s)\<lparr>ch_codecIndex := codecIndex, ch_ratep := None\<rparr> in
      bindS (liftS (SetupRequest_index (ch_index c) codecIndex direction)) writePacket (c, snd s))"

definition setup_ratep :: "short list \<Rightarrow> byte \<Rightarrow> (chan \<times> device_queue, unit) operation" where
  "setup_ratep cwds direction s =
     (let c = (fst s)\<lparr>ch_codecIndex := 0, ch_ratep := Some cwds\<rparr> in
      bindS (liftS (SetupRequest_ratep (ch_index c) cwds direction)) writePacket (c, snd s))"

section \<open>Receiving\<close>

text \<open>The two overloads of \<^verbatim>\<open>Channel::receive\<close> have the same body.\<close>

definition channel_receive :: "packet \<Rightarrow> chan \<Rightarrow> chan" where
  "channel_receive p c =
     (case ch_outQueue c of
        None \<Rightarrow> c
      | Some q \<Rightarrow>
          (case push q p False of
             Push_returns q' \<Rightarrow> c\<lparr>ch_outQueue := Some q'\<rparr>
           | Push_throws \<Rightarrow> c\<lparr>ch_outQueue := None\<rparr>
           | Push_waits \<Rightarrow> c))"

text \<open>
  \<^verbatim>\<open>Channel::read\<close> returns the number of bytes written to the caller's buffer; here it returns
  these bytes. Samples are written as \<^verbatim>\<open>short\<close>s.
\<close>

definition channel_read :: "(chan, bytes) operation" where
  "channel_read c =
     (case ch_outQueue c of
        None \<Rightarrow> (Inr [], c)
      | Some q \<Rightarrow>
          (case pop q of
             Pop_waits \<Rightarrow> (Inl Waits, c)
           | Pop_null \<Rightarrow> (Inr [], c)
           | Pop_returns p q' \<Rightarrow>
               (if p_kind p = SpeechPacket
                then bindE (getSpeechData p) (\<lambda>ws. Inr (concat (map le16 ws)))
                else if p_kind p = ChannelPacket then getChannelData p
                else Inr [],
                c\<lparr>ch_outQueue := Some q'\<rparr>)))"

section \<open>Reservation\<close>

definition reserve :: "chan \<Rightarrow> chan" where
  "reserve c = c\<lparr>ch_busy := True, ch_outQueue := Some (new_BlockingQueue 10)\<rparr>"

definition release :: "chan \<Rightarrow> chan" where
  "release c = c\<lparr>ch_outQueue := None, ch_busy := False\<rparr>"

section \<open>Lemmas\<close>

lemma writePacket_room:
  assumes "queue_open q" "length (bq_items q) < queue_capacity q"
  shows "writePacket p (c, q) = (Inr (), (c, q\<lparr>bq_items := bq_items q @ [p]\<rparr>))"
  using assms full_iff [OF assms(1)]
  by (simp add: writePacket_def push_def queue_open_def)

lemma writePacket_full:
  "queue_open q \<Longrightarrow> queue_capacity q \<le> length (bq_items q) \<Longrightarrow> writePacket p (c, q) = (Inl Waits, (c, q))"
  using full_iff [of q] by (simp add: writePacket_def push_def queue_open_def)

lemma push_nonblocking:
  "queue_open q \<Longrightarrow> push q x False =
     (case queue_put q x of Some q' \<Rightarrow> Push_returns q' | None \<Rightarrow> Push_throws)"
  by (simp add: push_def queue_put_def queue_open_def)

text \<open>Every operation keeps the channel number, and only \<open>reserve\<close> and \<open>release\<close> change \<^verbatim>\<open>busy\<close>.\<close>

lemma channel_frame:
  "ch_index (channel_receive p c) = ch_index c" "ch_busy (channel_receive p c) = ch_busy c"
  "ch_index (snd (channel_read c)) = ch_index c" "ch_busy (snd (channel_read c)) = ch_busy c"
  "ch_index (reserve c) = ch_index c" "ch_index (release c) = ch_index c"
  by (auto simp: channel_receive_def channel_read_def reserve_def release_def
      split: option.splits push_outcome.splits pop_outcome.splits)

lemma writePacket_fst [simp]: "fst (snd (writePacket p s)) = fst s"
  by (simp add: writePacket_def split: push_outcome.split)

lemma bindS_liftS_writePacket [simp]: "fst (snd (bindS (liftS m) writePacket s)) = fst s"
  by (cases m) simp_all

lemma channel_setup_frame:
  "ch_index (fst (snd (setup_index i d s))) = ch_index (fst s)"
  "ch_busy (fst (snd (setup_index i d s))) = ch_busy (fst s)"
  "ch_index (fst (snd (setup_ratep w d s))) = ch_index (fst s)"
  "ch_busy (fst (snd (setup_ratep w d s))) = ch_busy (fst s)"
  "fst (snd (encode input sz s)) = fst s" "fst (snd (decode input sz s)) = fst s"
  by (simp_all add: setup_index_def setup_ratep_def encode_def decode_def Let_def)

section \<open>What is sent\<close>

lemma channel_bits: "(unat (of_nat (sz * 8) :: byte) + 7) div 8 = sz mod 32"
proof -
  have "unat (of_nat (sz * 8) :: byte) = sz * 8 mod (32 * 8)"
    by (simp add: unat_of_nat del: of_nat_mult)
  also have "\<dots> = (sz mod 32) * 8" by (rule mult_mod_left [symmetric])
  finally show ?thesis by simp
qed

lemma speech_samples: "unat (of_nat (sz div 2) :: byte) * 2 = (sz div 2 mod 256) * 2"
  by (simp add: unat_of_nat)

lemma mod_le_self: "n mod m \<le> (n :: nat)"
  by simp

lemma writePacket_builds:
  assumes "builds m k body" "queue_open q" "length (bq_items q) < queue_capacity q"
  shows "\<exists>p. bindS (liftS m) writePacket (c, q) = (Inr (), (c, q\<lparr>bq_items := bq_items q @ [p]\<rparr>)) \<and>
             p_kind p = k \<and> outgoing p (type_byte k) body"
proof -
  from assms(1) obtain p where "m = Inr p" "p_kind p = k" "outgoing p (type_byte k) body"
    by (rule buildsE)
  then show ?thesis by (intro exI [of _ p]) (simp add: writePacket_room assms(2,3))
qed

lemma decode_sends:
  assumes "ch_index c \<le> 3" "queue_open q" "length (bq_items q) < queue_capacity q"
  shows "\<exists>p. decode input (length input) (c, q) = (Inr (), (c, q\<lparr>bq_items := bq_items q @ [p]\<rparr>)) \<and>
    p_kind p = ChannelPacket \<and> outgoing p AMBE3K_TYPE_AMBE
      ([0x40 + ch_index c, 0x01, of_nat (length input * 8)] @ take (length input mod 32) input)"
proof -
  have "builds (new_ChannelPacket (ch_index c) input (of_nat (length input * 8))) ChannelPacket
      ([0x40 + ch_index c, 0x01, of_nat (length input * 8)] @ take (length input mod 32) input)"
    using builds_ChannelPacket [OF assms(1), where channelData = input] channel_bits
    by (metis mod_le_self)
  from writePacket_builds [OF this assms(2,3), of c] show ?thesis
    by (simp add: decode_def type_byte_def)
qed

lemma encode_sends:
  assumes "ch_index c \<le> 3" "queue_open q" "length (bq_items q) < queue_capacity q"
  shows "\<exists>p. encode input (length input) (c, q) = (Inr (), (c, q\<lparr>bq_items := bq_items q @ [p]\<rparr>)) \<and>
    p_kind p = SpeechPacket \<and> outgoing p AMBE3K_TYPE_AUDIO
      ([0x40 + ch_index c, 0x00, of_nat (length input div 2)] @ take (length input div 2 mod 256 * 2) input)"
proof -
  have "(length input div 2 mod 256) * 2 \<le> length input"
    using mod_le_self [of "length input div 2" 256] by linarith
  then have "builds (new_SpeechPacket (ch_index c) input (of_nat (length input div 2))) SpeechPacket
      ([0x40 + ch_index c, 0x00, of_nat (length input div 2)] @
       take (length input div 2 mod 256 * 2) input)"
    using builds_SpeechPacket [OF assms(1), where speechData = input] speech_samples by metis
  from writePacket_builds [OF this assms(2,3), of c] show ?thesis
    by (simp add: encode_def type_byte_def)
qed

text \<open>C16: Sending queues one packet that carries the data, but the bit and sample counts are bytes:
  of \<open>n\<close> bytes of channel data only the first \<open>n mod 32\<close> are sent, and of \<open>n\<close> bytes of speech only
  the first \<open>n div 2 mod 256\<close> samples.\<close>

theorem channel_sends:
  assumes "ch_index c \<le> 3" "queue_open q" "length (bq_items q) < queue_capacity q"
  shows "(\<exists>p. decode input (length input) (c, q) = (Inr (), (c, q\<lparr>bq_items := bq_items q @ [p]\<rparr>)) \<and>
            p_kind p = ChannelPacket \<and> outgoing p AMBE3K_TYPE_AMBE
              ([0x40 + ch_index c, 0x01, of_nat (length input * 8)] @ take (length input mod 32) input)) \<and>
         (\<exists>p. encode input (length input) (c, q) = (Inr (), (c, q\<lparr>bq_items := bq_items q @ [p]\<rparr>)) \<and>
            p_kind p = SpeechPacket \<and> outgoing p AMBE3K_TYPE_AUDIO
              ([0x40 + ch_index c, 0x00, of_nat (length input div 2)] @
               take (length input div 2 mod 256 * 2) input))"
  using decode_sends [OF assms] encode_sends [OF assms] by blast

theorem channel_sends_witness:
  "\<exists>p. decode (replicate 40 7) (length (replicate 40 (7 :: byte))) (new_Channel 0, new_BlockingQueue 10) =
       (Inr (), (new_Channel 0, (new_BlockingQueue 10)\<lparr>bq_items := [] @ [p]\<rparr>)) \<and>
     p_kind p = ChannelPacket \<and> outgoing p AMBE3K_TYPE_AMBE ([0x40, 0x01, 64] @ replicate 8 7)"
proof -
  have "ch_index (new_Channel 0) = 0" "of_nat (40 * 8) = (64 :: byte)" "(320 :: byte) = 64"
    by (simp_all add: new_Channel_def)
  with channel_sends [of "new_Channel 0" "new_BlockingQueue 10" "replicate 40 7"]
  show ?thesis by (simp add: queue_open_def queue_capacity_def take_replicate)
qed

section \<open>What is received\<close>

text \<open>The bytes a packet gives to the reader.\<close>

definition packet_output :: "packet \<Rightarrow> error + bytes" where
  "packet_output p =
     (if p_kind p = SpeechPacket then bindE (getSpeechData p) (\<lambda>ws. Inr (concat (map le16 ws)))
      else if p_kind p = ChannelPacket then getChannelData p
      else Inr [])"

primrec read_n :: "nat \<Rightarrow> (chan, (error + bytes) list) operation" where
  "read_n 0 c = (Inr [], c)"
| "read_n (Suc n) c =
     (let (r, c') = channel_read c; (rs, c'') = read_n n c' in (bindE rs (\<lambda>rs. Inr (r # rs)), c''))"

lemma receive_closed:
  "fold channel_receive ps (c\<lparr>ch_outQueue := None\<rparr>) = c\<lparr>ch_outQueue := None\<rparr>"
  by (induction ps) (simp_all add: channel_receive_def)

lemma receive_put_all:
  assumes "queue_open q"
  shows "fold channel_receive ps (c\<lparr>ch_outQueue := Some q\<rparr>) = c\<lparr>ch_outQueue := bq.put_all q ps\<rparr>"
  using assms
proof (induction ps arbitrary: q)
  case (Cons p ps)
  show ?case
  proof (cases "queue_put q p")
    case None
    then have "channel_receive p (c\<lparr>ch_outQueue := Some q\<rparr>) = c\<lparr>ch_outQueue := None\<rparr>"
      by (simp add: channel_receive_def push_nonblocking [OF Cons.prems])
    with None show ?thesis by (simp add: receive_closed)
  next
    case (Some q1)
    with Cons.IH [of q1] bq.put_Some [OF Cons.prems Some] show ?thesis
      by (simp add: channel_receive_def push_nonblocking [OF Cons.prems])
  qed
qed simp

lemma read_n_items:
  "ch_outQueue c = Some q \<Longrightarrow> bq_run q \<Longrightarrow> bq_items q = ps \<Longrightarrow>
   read_n (length ps) c = (Inr (map packet_output ps), c\<lparr>ch_outQueue := Some (q\<lparr>bq_items := []\<rparr>)\<rparr>)"
proof (induction ps arbitrary: c q)
  case Nil
  then show ?case by (cases q) (auto simp: chan.equality)
next
  case (Cons p ps)
  from Cons.prems Cons.IH [of "c\<lparr>ch_outQueue := Some (q\<lparr>bq_items := ps\<rparr>)\<rparr>" "q\<lparr>bq_items := ps\<rparr>"]
  show ?case by (simp add: channel_read_def pop_def packet_output_def)
qed

lemma new_queue_open: "0 \<le> n \<Longrightarrow> n < 2 ^ 31 \<Longrightarrow> queue_open (new_BlockingQueue n)"
  by (simp add: queue_open_def)

lemma reserve_receive:
  "fold channel_receive ps (reserve c) =
     c\<lparr>ch_busy := True, ch_outQueue := bq.put_all (new_BlockingQueue 10) ps\<rparr>"
  using receive_put_all [OF new_queue_open, of 10 ps "c\<lparr>ch_busy := True\<rparr>"] by (simp add: reserve_def)

text \<open>C14: A reserved channel delivers up to ten unread packets in the order in which they arrived,
  and then makes the reader wait. The eleventh unread packet closes it: that packet and every
  later one are dropped with the ten before, reading returns nothing at once, and the channel
  stays busy.\<close>

theorem channel_delivers:
  "(length ps \<le> 10 \<longrightarrow>
      (\<exists>c'. read_n (length ps) (fold channel_receive ps (reserve c)) = (Inr (map packet_output ps), c') \<and>
            channel_read c' = (Inl Waits, c') \<and> isBusy c')) \<and>
   (10 < length ps \<longrightarrow>
      fold channel_receive ps (reserve c) = c\<lparr>ch_busy := True, ch_outQueue := None\<rparr> \<and>
      channel_read (fold channel_receive ps (reserve c)) = (Inr [], fold channel_receive ps (reserve c)))"
proof (intro conjI impI)
  assume "length ps \<le> 10"
  then obtain q where q: "bq.put_all (new_BlockingQueue 10) ps = Some q" "bq_items q = ps" "queue_open q"
    using bq.put_all_fits [OF new_queue_open, of 10 ps] by (auto simp: queue_capacity_def)
  let ?c' = "c\<lparr>ch_busy := True, ch_outQueue := Some (q\<lparr>bq_items := []\<rparr>)\<rparr>"
  have "bq_run q" using q(3) by (simp add: queue_open_def)
  with q(2) have "read_n (length ps) (fold channel_receive ps (reserve c)) = (Inr (map packet_output ps), ?c')"
    unfolding reserve_receive q(1)
    using read_n_items [of "c\<lparr>ch_busy := True, ch_outQueue := Some q\<rparr>" q ps] by simp
  moreover have "channel_read ?c' = (Inl Waits, ?c') \<and> isBusy ?c'"
    using \<open>bq_run q\<close> by (simp add: channel_read_def pop_def isBusy_def)
  ultimately show "\<exists>c'. read_n (length ps) (fold channel_receive ps (reserve c)) =
      (Inr (map packet_output ps), c') \<and> channel_read c' = (Inl Waits, c') \<and> isBusy c'"
    by blast
next
  assume "10 < length ps"
  then have "bq.put_all (new_BlockingQueue 10) ps = None"
    using bq.put_all_overflows [OF new_queue_open, of 10 ps] by (auto simp: queue_capacity_def)
  then show closed: "fold channel_receive ps (reserve c) = c\<lparr>ch_busy := True, ch_outQueue := None\<rparr>"
    by (simp add: reserve_receive)
  show "channel_read (fold channel_receive ps (reserve c)) =
      (Inr [], fold channel_receive ps (reserve c))"
    by (simp add: closed channel_read_def)
qed

text \<open>Two received packets, without and with data.\<close>

definition data_packet :: packet where
  "data_packet = (case parse [0x61, 0, 4, 1, 0x40, 1, 8, 0xAB] 8 of Inr (Some p) \<Rightarrow> p)"

lemma data_packet_output: "packet_output data_packet = Inr [0xAB]"
  by code_simp

theorem channel_delivers_witness:
  "(\<exists>c'. read_n 2 (fold channel_receive [data_packet, data_packet] (reserve (new_Channel 0))) =
       (Inr [Inr [0xAB], Inr [0xAB]], c')) \<and>
   channel_read (fold channel_receive (replicate 11 data_packet) (reserve (new_Channel 0))) =
     (Inr [], (new_Channel 0)\<lparr>ch_busy := True, ch_outQueue := None\<rparr>)"
proof
  from channel_delivers [of "[data_packet, data_packet]" "new_Channel 0"]
  show "\<exists>c'. read_n 2 (fold channel_receive [data_packet, data_packet] (reserve (new_Channel 0))) =
       (Inr [Inr [0xAB], Inr [0xAB]], c')"
    by (auto simp: data_packet_output eval_nat_numeral simp del: fold_simps)
  from channel_delivers [of "replicate 11 data_packet" "new_Channel 0"]
  show "channel_read (fold channel_receive (replicate 11 data_packet) (reserve (new_Channel 0))) =
     (Inr [], (new_Channel 0)\<lparr>ch_busy := True, ch_outQueue := None\<rparr>)"
    by (auto simp: channel_read_def)
qed

section \<open>Framing\<close>

lemma le16_inject: "le16 v = le16 w \<longleftrightarrow> v = w"
proof
  assume "le16 v = le16 w"
  then have "short_of (ucast v) (ucast (drop_bit 8 v)) = short_of (ucast w) (ucast (drop_bit 8 w))"
    by (simp add: le16_def)
  then show "v = w" by (simp only: short_of_le16)
qed simp

lemma concat_le16_inject:
  "length vs = length ws \<Longrightarrow> concat (map le16 vs) = concat (map le16 ws) \<longleftrightarrow> vs = ws"
proof (induction vs ws rule: list_induct2)
  case (Cons v vs w ws)
  then show ?case by (simp add: append_eq_append_conv le16_inject)
qed simp

lemma memcmp_equal_shorts:
  "length a = length b \<Longrightarrow> n \<le> length a \<Longrightarrow> memcmp_equal a b (2 * n) \<longleftrightarrow> take n a = take n b"
proof -
  have take_shorts: "n \<le> length ws \<Longrightarrow> take (2 * n) (concat (map le16 ws)) = concat (map le16 (take n ws))"
    for ws :: "short list"
  proof (induction ws arbitrary: n)
    case (Cons w ws)
    then show ?case by (cases n) simp_all
  qed simp
  show "length a = length b \<Longrightarrow> n \<le> length a \<Longrightarrow> ?thesis"
    by (simp add: memcmp_equal_def take_shorts concat_le16_inject)
qed

text \<open>D-Star's rate parameters are recognised by all six words, but \<^verbatim>\<open>sizeof(short) & 6\<close> makes
  the comparison with the YSF parameters stop after the first word: any rate parameters that start
  with \<open>0x0558\<close> are taken for 144 bit frames. Everything else has no framing.\<close>

theorem framing_of_rate_parameters:
  assumes "ch_codecIndex c \<notin> {33, 34, 59}" "ch_ratep c = Some cwds" "length cwds = 6"
  shows "getFramingBits c = (if cwds = dstar then 72 else if hd cwds = 0x0558 then 144 else 0)"
proof -
  have "memcmp_equal cwds dstar (sizeof_short * 6) \<longleftrightarrow> cwds = dstar"
    using memcmp_equal_shorts [of cwds dstar 6] assms(3) by (simp add: dstar_def sizeof_short_def)
  moreover have "memcmp_equal cwds ysf_vw (sizeof_short AND 6) \<longleftrightarrow> hd cwds = 0x0558"
    using memcmp_equal_shorts [of cwds ysf_vw 1] assms(3)
    by (cases cwds) (simp_all add: ysf_vw_def sizeof_short_def)
  ultimately show ?thesis
    using assms by (simp add: getFramingBits_def getCodecIndex_def getRateP_def)
qed

theorem framing_of_rate_parameters_witness:
  "getFramingBits ((new_Channel 0)\<lparr>ch_ratep := Some [0x0558, 0, 0, 0, 0, 0]\<rparr>) = 144"
  using framing_of_rate_parameters
    [of "(new_Channel 0)\<lparr>ch_ratep := Some [0x0558, 0, 0, 0, 0, 0]\<rparr>" "[0x0558, 0, 0, 0, 0, 0]"]
  by (simp add: new_Channel_def dstar_def)

end
