(* ===== verification/Std_Text.thy ===== *)
theory Std_Text
  imports Prelude
begin

text \<open>
  The parts of \<^verbatim>\<open>std::string\<close> and of the C++ library's number parsing that the program uses:
  \<^verbatim>\<open>find\<close>, \<^verbatim>\<open>substr\<close>, \<^verbatim>\<open>std::stoi\<close>, \<^verbatim>\<open>std::stoul\<close> and the extraction of a \<^verbatim>\<open>short\<close> from a
  stream in hexadecimal mode, as the C++ standard and libstdc++ define them in the C locale.
  Strings are lists of characters. The second half gives a reference splitter and printer.
\<close>

section \<open>\<^verbatim>\<open>find\<close> and \<^verbatim>\<open>substr\<close>\<close>

definition find_char :: "string \<Rightarrow> char \<Rightarrow> nat \<Rightarrow> nat option" where
  "find_char s c pos =
     (let n = pos + length (takeWhile (\<lambda>x. x \<noteq> c) (drop pos s)) in
      if n < length s then Some n else None)"

definition substr :: "string \<Rightarrow> nat \<Rightarrow> nat \<Rightarrow> error + string" where
  "substr s pos n =
     (if pos \<le> length s then Inr (take n (drop pos s)) else Inl (Raise Out_of_range))"

definition substr_rest :: "string \<Rightarrow> nat \<Rightarrow> error + string" where
  "substr_rest s pos = (if pos \<le> length s then Inr (drop pos s) else Inl (Raise Out_of_range))"

lemma find_char_None: "pos \<le> length s \<Longrightarrow> find_char s c pos = None \<longleftrightarrow> c \<notin> set (drop pos s)"
proof -
  assume pos: "pos \<le> length s"
  have "c \<notin> set xs \<longleftrightarrow> length xs \<le> length (takeWhile (\<lambda>x. x \<noteq> c) xs)" for xs
    by (induction xs) auto
  from this [of "drop pos s"] pos show ?thesis by (auto simp: find_char_def Let_def)
qed

lemma length_takeWhile_less:
  "c \<in> set xs \<Longrightarrow> length (takeWhile (\<lambda>x. x \<noteq> c) xs) < length xs"
  by (induction xs) auto

lemma tl_drop_drop: "tl (drop k (drop p xs)) = drop (p + k + 1) xs"
  by (simp add: drop_Suc tl_drop add.commute)

lemma find_char_append:
  "c \<notin> set xs \<Longrightarrow> find_char (pre @ xs @ c # ys) c (length pre) = Some (length pre + length xs)"
proof -
  assume "c \<notin> set xs"
  then have "takeWhile (\<lambda>x. x \<noteq> c) xs = xs" by (auto simp: takeWhile_eq_all_conv)
  then show ?thesis by (simp add: find_char_def takeWhile_tail)
qed

section \<open>Numbers\<close>

definition is_space :: "char \<Rightarrow> bool" where
  "is_space c \<longleftrightarrow> (let n = of_char c :: nat in n = 32 \<or> 9 \<le> n \<and> n \<le> 13)"

text \<open>The value of a character as a digit, at least 16 if it is none.\<close>

definition digit_value :: "char \<Rightarrow> nat" where
  "digit_value c =
     (let n = of_char c :: nat in
      if 48 \<le> n \<and> n \<le> 57 then n - 48
      else if 97 \<le> n \<and> n \<le> 102 then n - 87
      else if 65 \<le> n \<and> n \<le> 70 then n - 55
      else 16)"

definition digits_of :: "nat \<Rightarrow> string \<Rightarrow> string" where
  "digits_of base s = takeWhile (\<lambda>c. digit_value c < base) s"

definition number_value :: "nat \<Rightarrow> string \<Rightarrow> nat" where
  "number_value base ds = foldl (\<lambda>n c. base * n + digit_value c) 0 ds"

fun scan_sign :: "string \<Rightarrow> bool \<times> string" where
  "scan_sign (CHR ''-'' # s) = (True, s)"
| "scan_sign (CHR ''+'' # s) = (False, s)"
| "scan_sign s = (False, s)"

definition signed_value :: "bool \<Rightarrow> nat \<Rightarrow> int" where
  "signed_value neg n = (if neg then - int n else int n)"

text \<open>What \<^verbatim>\<open>strtol\<close> and \<^verbatim>\<open>strtoul\<close> recognise in base 10: sign and magnitude, if there is a digit.\<close>

definition scan_decimal :: "string \<Rightarrow> (bool \<times> nat) option" where
  "scan_decimal s =
     (case scan_sign (dropWhile is_space s) of (neg, s) \<Rightarrow>
        if digits_of 10 s = [] then None else Some (neg, number_value 10 (digits_of 10 s)))"

definition stoi :: "string \<Rightarrow> error + int" where
  "stoi s =
     (case scan_decimal s of
        None \<Rightarrow> Inl (Raise Invalid_argument)
      | Some (neg, n) \<Rightarrow>
          (let i = signed_value neg n in
           if i < - (2 ^ 31) \<or> 2 ^ 31 \<le> i then Inl (Raise Out_of_range) else Inr i))"

text \<open>\<^verbatim>\<open>strtoul\<close> accepts a sign, and negates modulo \<open>2 ^ 64\<close>.\<close>

definition stoul :: "string \<Rightarrow> error + nat" where
  "stoul s =
     (case scan_decimal s of
        None \<Rightarrow> Inl (Raise Invalid_argument)
      | Some (neg, n) \<Rightarrow>
          (if 2 ^ 64 \<le> n then Inl (Raise Out_of_range)
           else Inr (nat (signed_value neg n mod 2 ^ 64))))"

text \<open>
  \<^verbatim>\<open>ss >> std::hex >> x\<close> for a \<^verbatim>\<open>short\<close>: leading space is skipped; if nothing is left, \<^verbatim>\<open>x\<close> keeps
  its value (\<open>None\<close>). Otherwise sign, an optional \<open>0x\<close>, and hex digits; no digits give 0, and
  a value out of range gives the nearest limit.
\<close>

fun skip_0x :: "string \<Rightarrow> string" where
  "skip_0x (CHR ''0'' # CHR ''x'' # s) = s"
| "skip_0x (CHR ''0'' # CHR ''X'' # s) = s"
| "skip_0x s = s"

definition clamp_short :: "int \<Rightarrow> int" where
  "clamp_short i = max (- (2 ^ 15)) (min (2 ^ 15 - 1) i)"

definition extract_hex_short :: "string \<Rightarrow> short option" where
  "extract_hex_short s =
     (let s = dropWhile is_space s in
      if s = [] then None
      else case scan_sign s of (neg, s) \<Rightarrow>
        Some (word_of_int (clamp_short
          (signed_value neg (number_value 16 (digits_of 16 (skip_0x s)))))))"

section \<open>A reference splitter\<close>

fun split_at_char :: "char \<Rightarrow> string \<Rightarrow> string list" where
  "split_at_char c [] = [[]]"
| "split_at_char c (x # xs) =
     (if x = c then [] # split_at_char c xs
      else case split_at_char c xs of [] \<Rightarrow> [[x]] | p # ps \<Rightarrow> (x # p) # ps)"

fun join_char :: "char \<Rightarrow> string list \<Rightarrow> string" where
  "join_char c [] = []"
| "join_char c [p] = p"
| "join_char c (p # ps) = p @ c # join_char c ps"

lemma split_at_char_nonempty [simp]: "split_at_char c s \<noteq> []"
  by (induction s) (auto split: list.splits)

lemma join_char_Cons: "ps \<noteq> [] \<Longrightarrow> join_char c (p # ps) = p @ c # join_char c ps"
  by (cases ps) simp_all

lemma join_char_Cons_hd: "join_char c ((x # p) # ps) = x # join_char c (p # ps)"
  by (cases ps) simp_all

lemma join_split: "join_char c (split_at_char c s) = s"
  by (induction s) (auto simp: join_char_Cons join_char_Cons_hd split: list.splits)

lemma split_no_sep: "p \<in> set (split_at_char c s) \<Longrightarrow> c \<notin> set p"
  by (induction s arbitrary: p) (auto split: list.splits if_splits)

lemma split_simple: "c \<notin> set p \<Longrightarrow> split_at_char c p = [p]"
  by (induction p) auto

lemma split_append: "c \<notin> set p \<Longrightarrow> split_at_char c (p @ c # s) = p # split_at_char c s"
  by (induction p) auto

lemma split_join:
  "ps \<noteq> [] \<Longrightarrow> \<forall>p \<in> set ps. c \<notin> set p \<Longrightarrow> split_at_char c (join_char c ps) = ps"
  by (induction ps rule: join_char.induct) (simp_all add: split_simple split_append)

lemma split_at_first:
  "c \<in> set s \<Longrightarrow> split_at_char c s =
     takeWhile (\<lambda>x. x \<noteq> c) s # split_at_char c (tl (dropWhile (\<lambda>x. x \<noteq> c) s))"
  by (induction s) auto

section \<open>Printed hexadecimal words\<close>

definition hex_digit :: "nat \<Rightarrow> char" where
  "hex_digit n = ''0123456789abcdef'' ! n"

definition print_hex4 :: "short \<Rightarrow> string" where
  "print_hex4 w = map (\<lambda>k. hex_digit (unat w div 16 ^ k mod 16)) [3, 2, 1, 0]"

lemma hex_digit_table:
  "list_all (\<lambda>n. digit_value (hex_digit n) = n \<and> \<not> is_space (hex_digit n) \<and>
     hex_digit n \<notin> set '':-+xX'') [0, 1, 2, 3, 4, 5, 6, 7, 8, 9, 10, 11, 12, 13, 14, 15]"
  by (simp add: hex_digit_def digit_value_def is_space_def)

lemma hex_digit_props:
  assumes "n < 16"
  shows "digit_value (hex_digit n) = n" "\<not> is_space (hex_digit n)"
    "hex_digit n \<noteq> CHR '':''" "hex_digit n \<noteq> CHR ''-''" "hex_digit n \<noteq> CHR ''+''"
    "hex_digit n \<noteq> CHR ''x''" "hex_digit n \<noteq> CHR ''X''"
proof -
  from assms have "n \<in> set [0, 1, 2, 3, 4, 5, 6, 7, 8, 9, 10, 11, 12, 13, 14, 15]"
    by (simp only: list.set insert_iff empty_iff) presburger
  with hex_digit_table have "digit_value (hex_digit n) = n \<and> \<not> is_space (hex_digit n) \<and>
     hex_digit n \<notin> set '':-+xX''"
    unfolding list_all_iff by (rule bspec)
  then show "digit_value (hex_digit n) = n" "\<not> is_space (hex_digit n)"
    "hex_digit n \<noteq> CHR '':''" "hex_digit n \<noteq> CHR ''-''" "hex_digit n \<noteq> CHR ''+''"
    "hex_digit n \<noteq> CHR ''x''" "hex_digit n \<noteq> CHR ''X''"
    by auto
qed

text \<open>Four hex digits read back as the word they print, up to the limit of a \<^verbatim>\<open>short\<close>.\<close>

lemma nibbles:
  assumes "n < (65536 :: nat)"
  shows "16 * (16 * (16 * (n div 4096 mod 16) + n div 256 mod 16) + n div 16 mod 16) + n mod 16 = n"
proof -
  have "n div 4096 < 16" using assms by (simp add: less_mult_imp_div_less)
  then have "n div 4096 mod 16 = n div 4096" by simp
  moreover have "16 * (n div 4096) + n div 256 mod 16 = n div 256"
    using mult_div_mod_eq [of 16 "n div 256"] by (simp add: div_mult2_eq [symmetric])
  moreover have "16 * (n div 256) + n div 16 mod 16 = n div 16"
    using mult_div_mod_eq [of 16 "n div 16"] by (simp add: div_mult2_eq [symmetric])
  ultimately show ?thesis by simp
qed

lemma length_print_hex4 [simp]: "length (print_hex4 w) = 4"
  by (simp add: print_hex4_def)

lemma colon_print_hex4 [simp]: "CHR '':'' \<notin> set (print_hex4 w)"
  by (simp add: print_hex4_def hex_digit_props(3) [THEN not_sym])

lemma skip_0x_hex: "c \<noteq> CHR ''x'' \<Longrightarrow> c \<noteq> CHR ''X'' \<Longrightarrow> skip_0x (b # c # s) = b # c # s"
  by (cases "b # c # s" rule: skip_0x.cases) auto

lemma scan_sign_plain: "c \<noteq> CHR ''-'' \<Longrightarrow> c \<noteq> CHR ''+'' \<Longrightarrow> scan_sign (c # s) = (False, c # s)"
  by (cases "c # s" rule: scan_sign.cases) auto

lemma extract_print_hex4:
  "extract_hex_short (print_hex4 w) = Some (word_of_int (min (2 ^ 15 - 1) (uint w)))"
proof -
  let ?d = "\<lambda>k. unat w div 16 ^ k mod 16"
  have digit: "digit_value (hex_digit (?d k)) = ?d k" "\<not> is_space (hex_digit (?d k))"
    "hex_digit (?d k) \<noteq> CHR ''-''" "hex_digit (?d k) \<noteq> CHR ''+''"
    "hex_digit (?d k) \<noteq> CHR ''x''" "hex_digit (?d k) \<noteq> CHR ''X''" for k
    by (simp_all add: hex_digit_props)
  have print: "print_hex4 w = [hex_digit (?d 3), hex_digit (?d 2), hex_digit (?d 1), hex_digit (?d 0)]"
    by (simp add: print_hex4_def)
  have "digits_of 16 (print_hex4 w) = print_hex4 w"
    unfolding print digits_of_def by (simp add: hex_digit_props)
  moreover have "number_value 16 (print_hex4 w) = unat w"
    using nibbles [of "unat w"] unsigned_less [of w, where 'a = nat]
    unfolding print number_value_def by (simp add: hex_digit_props)
  moreover have "scan_sign (print_hex4 w) = (False, print_hex4 w)"
    unfolding print by (intro scan_sign_plain digit)
  moreover have "skip_0x (print_hex4 w) = print_hex4 w"
    unfolding print by (intro skip_0x_hex digit)
  moreover have "dropWhile is_space (print_hex4 w) = print_hex4 w"
    unfolding print by (simp add: hex_digit_props)
  moreover have "print_hex4 w \<noteq> []"
    by (simp add: print_hex4_def)
  ultimately have "extract_hex_short (print_hex4 w) =
      Some (word_of_int (clamp_short (signed_value False (unat w))))"
    by (simp add: extract_hex_short_def)
  moreover have "clamp_short (signed_value False (unat w)) = min (2 ^ 15 - 1) (uint w)"
    using order_trans [OF _ unsigned_greater_eq [of w, where 'a = int], of "- 32768"]
    by (simp add: clamp_short_def signed_value_def max_def)
  ultimately show ?thesis by simp
qed

end
