(* ===== verification/Ambe_Session.thy ===== *)
theory Ambe_Session
  imports Ambe_Channel Std_Text
begin

text \<open>
  \<^verbatim>\<open>Ambe3KSession\<close> of \<^verbatim>\<open>src/modules/ambe3k/ambe3ksession.cpp\<close>: a session works on one channel.
  \<^verbatim>\<open>encode\<close>, \<^verbatim>\<open>decode\<close>, \<^verbatim>\<open>read\<close> and \<^verbatim>\<open>end\<close> are those of the channel. Here are the framing
  hint, the rate parameter parser and the renegotiation of a channel's codec. The messages are
  records with the fields of \<^verbatim>\<open>src/proto/*.proto\<close>.
\<close>

unbundle bit_operations_syntax

section \<open>Messages\<close>

record settings =
  st_directions :: "int list"
  st_args :: "string \<rightharpoonup> string"

record framing_hint =
  fr_channelBits :: nat
  fr_channelBytes :: nat
  fr_audioSamples :: nat
  fr_audioBytes :: nat

definition getFraming :: "chan \<Rightarrow> framing_hint option" where
  "getFraming c =
     (let bits = unat (getFramingBits c) in
      if bits = 0 then None
      else Some \<lparr>fr_channelBits = bits, fr_channelBytes = (bits + 7) div 8,
                 fr_audioSamples = 160, fr_audioBytes = 320\<rparr>)"

section \<open>Rate parameters\<close>

text \<open>The loop over \<^verbatim>\<open>find(':', pos_start)\<close> and the last part behind it.\<close>

function ratep_parts :: "string \<Rightarrow> nat \<Rightarrow> error + string list" where
  "ratep_parts input pos_start =
     (case find_char input CHR '':'' pos_start of
        Some pos_end \<Rightarrow>
          bindE (substr input pos_start (pos_end - pos_start)) (\<lambda>part.
          bindE (ratep_parts input (pos_end + 1)) (\<lambda>parts. Inr (part # parts)))
      | None \<Rightarrow> bindE (substr_rest input pos_start) (\<lambda>part. Inr [part]))"
  by pat_completeness auto
termination
  by (relation "measure (\<lambda>(input, pos). length input - pos)")
    (auto simp: find_char_def Let_def split: if_splits)

declare ratep_parts.simps [simp del]

text \<open>The memory from \<^verbatim>\<open>malloc\<close> holds arbitrary words until it is written.\<close>

fun ratep_words :: "(nat \<Rightarrow> short) \<Rightarrow> nat \<Rightarrow> string list \<Rightarrow> short list option" where
  "ratep_words uninit i [] = Some []"
| "ratep_words uninit i (part # parts) =
     (if length part \<noteq> 4 then None
      else case ratep_words uninit (i + 1) parts of
          None \<Rightarrow> None
        | Some ws \<Rightarrow>
            Some ((case extract_hex_short part of Some w \<Rightarrow> w | None \<Rightarrow> uninit i) # ws))"

definition parseRatePString :: "(nat \<Rightarrow> short) \<Rightarrow> string \<Rightarrow> error + short list option" where
  "parseRatePString uninit input =
     (if length input \<noteq> 29 then Inr None
      else bindE (ratep_parts input 0) (\<lambda>parts.
        Inr (if length parts \<noteq> 6 then None else ratep_words uninit 0 parts)))"

section \<open>Renegotiation\<close>

definition direction_bits :: "int list \<Rightarrow> byte" where
  "direction_bits dirs =
     fold (\<lambda>dir direction.
       if dir = 0 then direction OR AMBE3K_DIRECTION_ENCODE
       else if dir = 1 then direction OR AMBE3K_DIRECTION_DECODE
       else direction) dirs 0"

definition renegotiate ::
  "(nat \<Rightarrow> short) \<Rightarrow> settings \<Rightarrow> (chan \<times> device_queue, unit) operation" where
  "renegotiate uninit settings s =
     (let direction = direction_bits (st_directions settings) in
      case st_args settings ''index'' of
        Some indexStr \<Rightarrow>
          bindS (liftS (stoi indexStr)) (\<lambda>i. setup_index (word_of_int i) direction) s
      | None \<Rightarrow>
          (case st_args settings ''ratep'' of
             Some ratepStr \<Rightarrow>
               bindS (liftS (parseRatePString uninit ratepStr)) (\<lambda>rateP.
                 case rateP of None \<Rightarrow> liftS (Inr ()) | Some cwds \<Rightarrow> setup_ratep cwds direction) s
           | None \<Rightarrow> (Inr (), s)))"

section \<open>The parser splits at the colons\<close>

lemma ratep_parts_split:
  "pos \<le> length input \<Longrightarrow> ratep_parts input pos = Inr (split_at_char CHR '':'' (drop pos input))"
proof (induction input pos rule: ratep_parts.induct)
  case (1 input pos)
  let ?r = "drop pos input"
  let ?k = "length (takeWhile (\<lambda>x. x \<noteq> CHR '':'') ?r)"
  show ?case
  proof (cases "CHR '':'' \<in> set ?r")
    case False
    with 1(2) have "find_char input CHR '':'' pos = None" by (simp add: find_char_None)
    with False 1(2) show ?thesis
      by (subst ratep_parts.simps) (simp add: substr_rest_def split_simple)
  next
    case True
    then have k: "?k < length ?r"
      by (metis length_takeWhile_less)
    then have find: "find_char input CHR '':'' pos = Some (pos + ?k)"
      by (simp add: find_char_def Let_def)
    have tail: "tl (dropWhile (\<lambda>x. x \<noteq> CHR '':'') ?r) = drop (pos + ?k + 1) input"
      unfolding dropWhile_eq_drop by (rule tl_drop_drop)
    have part: "substr input pos ?k = Inr (takeWhile (\<lambda>x. x \<noteq> CHR '':'') ?r)"
      using 1(2) takeWhile_eq_take [symmetric, of "\<lambda>x. x \<noteq> CHR '':''" ?r] by (simp add: substr_def)
    show ?thesis
      using 1(1) [OF find] k
      by (subst ratep_parts.simps) (simp add: find part split_at_first [OF True] tail)
  qed
qed

lemma ratep_parts_spec: "ratep_parts input 0 = Inr (split_at_char CHR '':'' input)"
  by (simp add: ratep_parts_split)

lemma ratep_words_Some:
  "ratep_words uninit i parts \<noteq> None \<longleftrightarrow> (\<forall>p \<in> set parts. length p = 4)"
  by (induction uninit i parts rule: ratep_words.induct) (auto split: option.splits)

lemma ratep_words_length: "ratep_words uninit i parts = Some ws \<Longrightarrow> length ws = length parts"
  by (induction uninit i parts arbitrary: ws rule: ratep_words.induct)
    (auto split: option.splits if_splits)

lemma length_join_char:
  "ps \<noteq> [] \<Longrightarrow> \<forall>p \<in> set ps. length p = n \<Longrightarrow> length (join_char c ps) + 1 = length ps * (n + 1)"
  by (induction ps rule: join_char.induct) simp_all

lemma parseRatePString_length:
  "parseRatePString uninit input = Inr (Some ws) \<Longrightarrow> length ws = 6"
  by (auto simp: parseRatePString_def split: if_splits dest: ratep_words_length)

lemma parseRatePString_total: "\<exists>w. parseRatePString uninit input = Inr w"
  by (simp add: parseRatePString_def ratep_parts_spec)

text \<open>C17: Parsing rate parameters never fails with an exception, and accepts exactly the strings that
  are six parts of four characters each, joined by colons.\<close>

theorem parseRatePString_accepts:
  "\<exists>r. parseRatePString uninit input = Inr r \<and>
     (r \<noteq> None \<longleftrightarrow> (\<exists>ps. length ps = 6 \<and> (\<forall>p \<in> set ps. length p = 4 \<and> CHR '':'' \<notin> set p) \<and>
        input = join_char CHR '':'' ps))"
proof (rule exI, intro conjI iffI)
  let ?ps = "split_at_char CHR '':'' input"
  show "parseRatePString uninit input =
      Inr (if length input \<noteq> 29 \<or> length ?ps \<noteq> 6 then None else ratep_words uninit 0 ?ps)"
    by (simp add: parseRatePString_def ratep_parts_spec)
  {
    assume "(if length input \<noteq> 29 \<or> length ?ps \<noteq> 6 then None else ratep_words uninit 0 ?ps) \<noteq> None"
    then have "length ?ps = 6" "\<forall>p \<in> set ?ps. length p = 4"
      using ratep_words_Some [of uninit 0 ?ps] by (auto split: if_splits)
    then show "\<exists>ps. length ps = 6 \<and> (\<forall>p \<in> set ps. length p = 4 \<and> CHR '':'' \<notin> set p) \<and>
        input = join_char CHR '':'' ps"
      by (intro exI [of _ ?ps]) (auto simp: join_split dest: split_no_sep)
  }
  assume "\<exists>ps. length ps = 6 \<and> (\<forall>p \<in> set ps. length p = 4 \<and> CHR '':'' \<notin> set p) \<and>
        input = join_char CHR '':'' ps"
  then obtain ps where ps: "length ps = 6" "\<forall>p \<in> set ps. length p = 4 \<and> CHR '':'' \<notin> set p"
    "input = join_char CHR '':'' ps" by blast
  then have "ps \<noteq> []" by auto
  with ps have "?ps = ps" "length input = 29"
    using length_join_char [of ps 4 "CHR '':''"] by (auto simp: split_join)
  with ps show "(if length input \<noteq> 29 \<or> length ?ps \<noteq> 6 then None else ratep_words uninit 0 ?ps) \<noteq> None"
    using ratep_words_Some [of uninit 0 ps] by simp
qed

theorem parseRatePString_accepts_witness:
  "\<exists>r. parseRatePString (\<lambda>_. 0) ''0130:0763:4000:0000:0000:0048'' = Inr r \<and> r \<noteq> None"
proof -
  let ?ps = "[''0130'', ''0763'', ''4000'', ''0000'', ''0000'', ''0048'']"
  have "''0130:0763:4000:0000:0000:0048'' = join_char CHR '':'' ?ps" by simp
  moreover have "length ?ps = 6 \<and> (\<forall>p \<in> set ?ps. length p = 4 \<and> CHR '':'' \<notin> set p)" by simp
  ultimately show ?thesis
    using parseRatePString_accepts [of "\<lambda>_. 0" "''0130:0763:4000:0000:0000:0048''"] by blast
qed

text \<open>Six words printed as four hex digits each are read back, except that \<^verbatim>\<open>ss >> data[i]\<close>
  reads a signed \<^verbatim>\<open>short\<close>: every word from \<open>0x8000\<close> on becomes \<open>0x7fff\<close>.\<close>

theorem parseRatePString_printed:
  assumes "length ws = 6"
  shows "parseRatePString uninit (join_char CHR '':'' (map print_hex4 ws)) =
    Inr (Some (map (\<lambda>w. if w < 0x8000 then w else 0x7fff) ws))"
proof -
  have clamp: "word_of_int (min (2 ^ 15 - 1) (uint w)) = (if w < 0x8000 then w else 0x7fff)" for w :: short
  proof (cases "w < 0x8000")
    case True
    then have "uint w < 2 ^ 15" by (simp add: word_less_def)
    with True show ?thesis by simp
  next
    case False
    then have "2 ^ 15 \<le> uint w" by (simp add: word_less_def)
    with False show ?thesis by simp
  qed
  have words: "ratep_words uninit i (map print_hex4 vs) =
      Some (map (\<lambda>w. if w < 0x8000 then w else 0x7fff) vs)" for i vs
    by (induction vs arbitrary: i) (simp_all add: extract_print_hex4 clamp [simplified])
  have ne: "map print_hex4 ws \<noteq> []" using assms by auto
  moreover have "split_at_char CHR '':'' (join_char CHR '':'' (map print_hex4 ws)) = map print_hex4 ws"
    by (rule split_join) (use ne in auto)
  moreover have "length (join_char CHR '':'' (map print_hex4 ws)) = 29"
    using length_join_char [OF ne, of 4] assms by simp
  ultimately show ?thesis
    by (simp add: parseRatePString_def ratep_parts_spec words assms)
qed

theorem parseRatePString_printed_witness:
  "join_char CHR '':'' (map print_hex4 [0x0130, 0x0763, 0x4000, 0, 0, 0xFFFF]) = ''0130:0763:4000:0000:0000:ffff'' \<and>
   parseRatePString (\<lambda>_. 0) ''0130:0763:4000:0000:0000:ffff'' =
     Inr (Some [0x0130, 0x0763, 0x4000, 0, 0, 0x7fff])"
proof -
  have "join_char CHR '':'' (map print_hex4 [0x0130, 0x0763, 0x4000, 0, 0, 0xFFFF]) =
      ''0130:0763:4000:0000:0000:ffff''"
    by (simp add: print_hex4_def hex_digit_def)
  with parseRatePString_printed [of "[0x0130, 0x0763, 0x4000, 0, 0, 0xFFFF]" "\<lambda>_. 0"]
  show ?thesis by simp
qed

section \<open>What renegotiation does\<close>

lemma setup_index_room:
  assumes "ch_index c \<le> 3" "queue_open q" "length (bq_items q) < queue_capacity q"
  shows "\<exists>p. setup_index i dir (c, q) =
      (Inr (), (c\<lparr>ch_codecIndex := i, ch_ratep := None\<rparr>, q\<lparr>bq_items := bq_items q @ [p]\<rparr>)) \<and>
    outgoing p AMBE3K_TYPE_CONTROL [0x40 + ch_index c, 0x09, i, 0x0B, dir]"
  using writePacket_builds [OF builds_SetupRequest_index [OF assms(1), of i dir] assms(2,3),
      of "c\<lparr>ch_codecIndex := i, ch_ratep := None\<rparr>"]
  by (auto simp: setup_index_def)

lemma setup_ratep_room:
  assumes "ch_index c \<le> 3" "length cwds = 6" "queue_open q" "length (bq_items q) < queue_capacity q"
  shows "\<exists>p. setup_ratep cwds dir (c, q) =
      (Inr (), (c\<lparr>ch_codecIndex := 0, ch_ratep := Some cwds\<rparr>, q\<lparr>bq_items := bq_items q @ [p]\<rparr>)) \<and>
    outgoing p AMBE3K_TYPE_CONTROL
      ([0x40 + ch_index c, 0x0A] @ concat (map be16 cwds) @ [0x0B, dir])"
  using writePacket_builds [OF builds_SetupRequest_ratep [OF assms(1,2), of dir] assms(3,4),
      of "c\<lparr>ch_codecIndex := 0, ch_ratep := Some cwds\<rparr>"]
  by (auto simp: setup_ratep_def)

lemma writePacket_no_invalid_argument:
  "fst (bindS (liftS m) writePacket s) = Inl (Raise Invalid_argument) \<Longrightarrow>
   m = Inl (Raise Invalid_argument)"
  by (cases m) (auto simp: bindS_def liftS_def writePacket_def split: push_outcome.splits)

lemma SetupRequest_no_exception:
  "SetupRequest_index channel i dir \<noteq> Inl (Raise x)"
  "length cwds = 6 \<Longrightarrow> SetupRequest_ratep channel cwds dir \<noteq> Inl (Raise x)"
proof -
  show "SetupRequest_index channel i dir \<noteq> Inl (Raise x)"
    using builds_SetupRequest_index [of channel i dir] builds_bad_channel(1) [of channel i dir]
    by (cases "channel \<le> 3") auto
  show "length cwds = 6 \<Longrightarrow> SetupRequest_ratep channel cwds dir \<noteq> Inl (Raise x)"
    using builds_SetupRequest_ratep [of channel cwds dir] builds_bad_channel(2) [of channel cwds dir]
    by (cases "channel \<le> 3") auto
qed

text \<open>Only the number parser throws \<^verbatim>\<open>std::invalid_argument\<close>.\<close>

lemma renegotiate_invalid:
  assumes "renegotiate uninit st s = (Inl (Raise Invalid_argument), s')"
  shows "\<exists>str. st_args st ''index'' = Some str \<and> stoi str = Inl (Raise Invalid_argument)"
proof (cases "st_args st ''index''")
  case (Some str)
  from assms Some show ?thesis
    by (cases "stoi str")
      (auto simp: renegotiate_def liftS_def [of "Inl _"] bindS_def [of "\<lambda>s. (Inl _, s)"] setup_index_def
         SetupRequest_no_exception dest!: arg_cong [of _ _ fst] writePacket_no_invalid_argument)
next
  case None
  show ?thesis
  proof (cases "st_args st ''ratep''")
    case (Some str)
    obtain w where "parseRatePString uninit str = Inr w" using parseRatePString_total by blast
    with assms None Some show ?thesis
      by (cases w)
        (auto simp: renegotiate_def liftS_def [of "Inr ()"] setup_ratep_def SetupRequest_no_exception
          dest!: arg_cong [of _ _ fst] writePacket_no_invalid_argument parseRatePString_length)
  qed (use assms None in \<open>simp add: renegotiate_def\<close>)
qed

lemma stoi_errors: "stoi s = Inl e \<Longrightarrow> e = Raise Invalid_argument \<or> e = Raise Out_of_range"
  by (auto simp: stoi_def Let_def split: option.splits if_splits)

text \<open>C18: Usable settings configure the channel and queue one setup request for it, with the wire
  format of the chip: by codec index, whose value is cut to a byte, or else by rate parameters.\<close>

theorem renegotiate_configures:
  assumes "ch_index c \<le> 3" "queue_open q" "length (bq_items q) < queue_capacity q"
  shows "(st_args st ''index'' = Some str \<and> stoi str = Inr i \<longrightarrow>
      (\<exists>p. renegotiate uninit st (c, q) =
          (Inr (), (c\<lparr>ch_codecIndex := word_of_int i, ch_ratep := None\<rparr>,
                    q\<lparr>bq_items := bq_items q @ [p]\<rparr>)) \<and>
        outgoing p AMBE3K_TYPE_CONTROL
          [0x40 + ch_index c, 0x09, word_of_int i, 0x0B, direction_bits (st_directions st)])) \<and>
    (st_args st ''index'' = None \<and> st_args st ''ratep'' = Some str \<and>
       parseRatePString uninit str = Inr (Some cwds) \<longrightarrow>
      (\<exists>p. renegotiate uninit st (c, q) =
          (Inr (), (c\<lparr>ch_codecIndex := 0, ch_ratep := Some cwds\<rparr>,
                    q\<lparr>bq_items := bq_items q @ [p]\<rparr>)) \<and>
        outgoing p AMBE3K_TYPE_CONTROL ([0x40 + ch_index c, 0x0A] @ concat (map be16 cwds) @
          [0x0B, direction_bits (st_directions st)])))"
  using setup_index_room [OF assms, of "word_of_int i" "direction_bits (st_directions st)"]
    setup_ratep_room [OF assms(1) _ assms(2,3), of cwds "direction_bits (st_directions st)"]
    parseRatePString_length [of uninit str cwds]
  by (auto simp: renegotiate_def Let_def)

theorem renegotiate_configures_witness:
  "\<exists>p. renegotiate (\<lambda>_. 0) \<lparr>st_directions = [0, 1], st_args = [''index'' \<mapsto> ''289'']\<rparr>
      (new_Channel 0, new_BlockingQueue 10) =
      (Inr (), (new_Channel 0\<lparr>ch_codecIndex := 33, ch_ratep := None\<rparr>,
        (new_BlockingQueue 10)\<lparr>bq_items := [] @ [p]\<rparr>)) \<and>
     outgoing p AMBE3K_TYPE_CONTROL [0x40, 0x09, 33, 0x0B, 3]"
proof -
  have "stoi ''289'' = Inr 289"
    by (simp add: stoi_def scan_decimal_def digits_of_def digit_value_def number_value_def
        signed_value_def is_space_def)
  moreover have "ch_index (new_Channel 0) = 0" "direction_bits [0, 1] = 3"
    by (simp_all add: new_Channel_def direction_bits_def)
  moreover have byte: "(289 :: byte) = 33" by simp
  ultimately show ?thesis
    using renegotiate_configures [of "new_Channel 0" "new_BlockingQueue 10"
        "\<lparr>st_directions = [0, 1], st_args = [''index'' \<mapsto> ''289'']\<rparr>" "''289''" 289 "\<lambda>_. 0" "[]"]
    by (simp add: queue_open_def queue_capacity_def byte)
qed

text \<open>Unusable settings change nothing. An index that is no number, or is out of range, is an
  exception; rate parameters that do not parse, and settings with neither, count as success.\<close>

theorem renegotiate_ignores:
  "(st_args st ''index'' = Some str \<and> stoi str = Inl e \<longrightarrow>
      renegotiate uninit st s = (Inl e, s) \<and> e \<in> {Raise Invalid_argument, Raise Out_of_range}) \<and>
   (st_args st ''index'' = None \<and> st_args st ''ratep'' = Some str \<and>
      parseRatePString uninit str = Inr None \<longrightarrow> renegotiate uninit st s = (Inr (), s)) \<and>
   (st_args st ''index'' = None \<and> st_args st ''ratep'' = None \<longrightarrow>
      renegotiate uninit st s = (Inr (), s))"
  by (auto simp: renegotiate_def Let_def liftS_def dest: stoi_errors)

theorem renegotiate_ignores_witness:
  "renegotiate (\<lambda>_. 0) \<lparr>st_directions = [], st_args = [''index'' \<mapsto> ''99999999999'']\<rparr>
      (new_Channel 0, new_BlockingQueue 10) =
     (Inl (Raise Out_of_range), (new_Channel 0, new_BlockingQueue 10)) \<and>
   renegotiate (\<lambda>_. 0) \<lparr>st_directions = [], st_args = [''ratep'' \<mapsto> ''0130'']\<rparr>
      (new_Channel 0, new_BlockingQueue 10) =
     (Inr (), (new_Channel 0, new_BlockingQueue 10))"
proof -
  have "stoi ''99999999999'' = Inl (Raise Out_of_range)"
    by (simp add: stoi_def scan_decimal_def digits_of_def digit_value_def number_value_def
        signed_value_def is_space_def)
  moreover have "parseRatePString (\<lambda>_. 0) ''0130'' = Inr None"
    by (simp add: parseRatePString_def)
  ultimately show ?thesis
    using renegotiate_ignores [of "\<lparr>st_directions = [], st_args = [''index'' \<mapsto> ''99999999999'']\<rparr>"
        "''99999999999''" "Raise Out_of_range" "\<lambda>_. 0" "(new_Channel 0, new_BlockingQueue 10)"]
      renegotiate_ignores [of "\<lparr>st_directions = [], st_args = [''ratep'' \<mapsto> ''0130'']\<rparr>"
        "''0130''" "Raise Out_of_range" "\<lambda>_. 0" "(new_Channel 0, new_BlockingQueue 10)"]
    by simp
qed

end
