(* ===== verification/Ambe_Device.thy ===== *)
theory Ambe_Device
  imports Ambe_Session
begin

text \<open>
  A codec stick: \<^verbatim>\<open>Device\<close> of \<^verbatim>\<open>src/modules/ambe3k/ambe3kdevice.cpp\<close>, with the exceptions of
  \<^verbatim>\<open>src/lib/device.cpp\<close>. First the steps of the constructor: opening the serial line and the
  handshake with the chip; then sessions and the routing of received packets to channels.

  The results of the system calls are inputs: a call fails with its error number or succeeds.
  \<^verbatim>\<open>strerror\<close> is a parameter. A session is named by the number of its channel.
\<close>

section \<open>Opening the line\<close>

definition DeviceException_errno :: "(int \<Rightarrow> string) \<Rightarrow> string \<Rightarrow> int \<Rightarrow> exn" where
  "DeviceException_errno strerror message err = Device_exception (message @ '': '' @ strerror err)"

datatype speed = B nat

definition convertBaudrate :: "nat \<Rightarrow> error + speed" where
  "convertBaudrate baud =
     (if baud = 9600 then Inr (B 9600)
      else if baud = 19200 then Inr (B 19200)
      else if baud = 38400 then Inr (B 38400)
      else if baud = 57600 then Inr (B 57600)
      else if baud = 115200 then Inr (B 115200)
      else if baud = 230400 then Inr (B 230400)
      else if baud = 460800 then Inr (B 460800)
      else if baud = 500000 then Inr (B 500000)
      else if baud = 576000 then Inr (B 576000)
      else if baud = 921600 then Inr (B 921600)
      else if baud = 1000000 then Inr (B 1000000)
      else if baud = 1152000 then Inr (B 1152000)
      else if baud = 1500000 then Inr (B 1500000)
      else if baud = 2000000 then Inr (B 2000000)
      else if baud = 2500000 then Inr (B 2500000)
      else if baud = 3000000 then Inr (B 3000000)
      else if baud = 3500000 then Inr (B 3500000)
      else if baud = 4000000 then Inr (B 4000000)
      else Inl (Raise (Runtime_error ''invalid baud rate'')))"

text \<open>The flags of \<^verbatim>\<open>termios\<close> that the code names; \<open>CSIZE\<close> is the mask of the character sizes.\<close>

datatype tty_flag =
    ECHO | ECHOE | ICANON | IEXTEN | ISIG
  | BRKINT | ICRNL | INPCK | ISTRIP | IXON | IXOFF | IXANY
  | CS6 | CS7 | CS8 | CSTOPB | PARENB
  | OPOST
  | Other_flag nat

record termios =
  c_iflag :: "tty_flag set"
  c_oflag :: "tty_flag set"
  c_cflag :: "tty_flag set"
  c_lflag :: "tty_flag set"
  c_ispeed :: "speed option"
  c_ospeed :: "speed option"
  c_vmin :: nat
  c_vtime :: nat

definition CSIZE :: "tty_flag set" where
  "CSIZE = {CS6, CS7, CS8}"

record tty_calls =
  sys_open :: "int option"
  sys_tcgetattr :: "int + termios"
  sys_cfsetispeed :: "int option"
  sys_cfsetospeed :: "int option"
  sys_tcsetattr :: "int option"

definition check_call :: "(int \<Rightarrow> string) \<Rightarrow> string \<Rightarrow> int option \<Rightarrow> error + unit" where
  "check_call strerror message r =
     (case r of None \<Rightarrow> Inr () | Some err \<Rightarrow> Inl (Raise (DeviceException_errno strerror message err)))"

definition open_tty :: "(int \<Rightarrow> string) \<Rightarrow> tty_calls \<Rightarrow> nat \<Rightarrow> error + termios" where
  "open_tty strerror sys baudRate =
     bindE (convertBaudrate baudRate) (\<lambda>baud.
     bindE (check_call strerror ''could not open TTY'' (sys_open sys)) (\<lambda>_.
     case sys_tcgetattr sys of
       Inl err \<Rightarrow> Inl (Raise (DeviceException_errno strerror ''tcgetattr error'' err))
     | Inr tty \<Rightarrow>
         bindE (check_call strerror ''cfsetispeed error'' (sys_cfsetispeed sys)) (\<lambda>_.
         bindE (check_call strerror ''cfsetospeed error'' (sys_cfsetospeed sys)) (\<lambda>_.
         let tty = tty\<lparr>c_ispeed := None, c_ospeed := Some baud,
           c_lflag := c_lflag tty - {ECHO, ECHOE, ICANON, IEXTEN, ISIG},
           c_iflag := c_iflag tty - {BRKINT, ICRNL, INPCK, ISTRIP, IXON, IXOFF, IXANY},
           c_cflag := (c_cflag tty - (CSIZE \<union> {CSTOPB, PARENB})) \<union> {CS8},
           c_oflag := c_oflag tty - {OPOST},
           c_vmin := 0, c_vtime := 10\<rparr> in
         bindE (check_call strerror ''tcsetattr error'' (sys_tcsetattr sys)) (\<lambda>_. Inr tty)))))"

section \<open>The handshake with the chip\<close>

definition createChannels_num :: "nat \<Rightarrow> chan list" where
  "createChannels_num num_channels = map (\<lambda>i. new_Channel (of_nat i)) [0..<num_channels]"

definition ascii :: "string \<Rightarrow> bytes" where
  "ascii s = map (\<lambda>c. of_nat (of_char c)) s"

definition createChannels :: "bytes \<Rightarrow> chan list" where
  "createChannels prodId =
     (if take 8 prodId = ascii ''AMBE3000'' then createChannels_num 1
      else if take 8 prodId = ascii ''AMBE3003'' then createChannels_num 3
      else [])"

definition device_error :: "string \<Rightarrow> error + 'a" where
  "device_error message = Inl (Raise (Device_exception message))"

text \<open>
  \<^verbatim>\<open>Device::init\<close>: three requests, and after each the check that the response is a control
  packet with the field asked for. \<open>uninit k\<close> is the fresh memory of the \<open>k\<close>-th response.
\<close>

definition device_init :: "(nat \<Rightarrow> nat \<Rightarrow> byte) \<Rightarrow> tty \<Rightarrow> error + chan list \<times> tty" where
  "device_init uninit t =
     bindE ResetPacket (\<lambda>reset.
     bindE (writeTo reset t) (\<lambda>(_, t).
     bindE (receiveFrom (uninit 0) t) (\<lambda>(response, t).
     case response of None \<Rightarrow> device_error ''device did not respond to reset'' | Some ready \<Rightarrow>
     if p_kind ready \<noteq> ControlPacket then device_error ''unexpected response from stick''
     else if \<not> hasReadyField ready then device_error ''device is not ready after reset''
     else
     bindE ProdIdRequest (\<lambda>prodIdRequest.
     bindE (writeTo prodIdRequest t) (\<lambda>(_, t).
     bindE (receiveFrom (uninit 1) t) (\<lambda>(response, t).
     case response of None \<Rightarrow> device_error ''device did not respond to product id request'' | Some prodid \<Rightarrow>
     if p_kind prodid \<noteq> ControlPacket then device_error ''unexpected response from stick''
     else if \<not> hasProductId prodid
       then device_error ''device did not respond with product id as expected''
     else
     bindE VersionStringRequest (\<lambda>versionStringRequest.
     bindE (writeTo versionStringRequest t) (\<lambda>(_, t).
     bindE (receiveFrom (uninit 2) t) (\<lambda>(response, t).
     case response of None \<Rightarrow> device_error ''device did not respond to version string request''
     | Some versionString \<Rightarrow>
     if p_kind versionString \<noteq> ControlPacket then device_error ''unexpected response from stick''
     else if \<not> hasVersionString versionString
       then device_error ''device did not response with version string as expected''
     else
     bindE (getProductId prodid) (\<lambda>prodId.
     bindE (getVersionString versionString) (\<lambda>_.
     Inr (createChannels prodId, t))))))))))))"

section \<open>A running device\<close>

record ambe_device =
  dv_channels :: "chan list"
  dv_queue :: device_queue
  dv_termios :: termios

definition new_Device ::
  "(int \<Rightarrow> string) \<Rightarrow> tty_calls \<Rightarrow> (nat \<Rightarrow> nat \<Rightarrow> byte) \<Rightarrow> tty \<Rightarrow> nat \<Rightarrow> error + ambe_device \<times> tty" where
  "new_Device strerror sys uninit t baudRate =
     bindE (open_tty strerror sys baudRate) (\<lambda>tio.
     bindE (device_init uninit t) (\<lambda>(channels, t).
     Inr (\<lparr>dv_channels = channels, dv_queue = new_BlockingQueue 10, dv_termios = tio\<rparr>, t)))"

definition getCodecs :: "string list" where
  "getCodecs = [''ambe'']"

text \<open>An operation of channel \<open>i\<close>, together with the device's queue.\<close>

definition on_channel :: "nat \<Rightarrow> (chan \<times> device_queue, 'a) operation \<Rightarrow> (ambe_device, 'a) operation" where
  "on_channel i f d =
     (case f (dv_channels d ! i, dv_queue d) of (r, (c, q)) \<Rightarrow>
        (r, d\<lparr>dv_channels := (dv_channels d)[i := c], dv_queue := q\<rparr>))"

definition set_channel :: "nat \<Rightarrow> (chan \<Rightarrow> chan) \<Rightarrow> ambe_device \<Rightarrow> ambe_device" where
  "set_channel i f d = d\<lparr>dv_channels := (dv_channels d)[i := f (dv_channels d ! i)]\<rparr>"

text \<open>The search for a channel that is not busy.\<close>

fun first_free :: "nat \<Rightarrow> chan list \<Rightarrow> nat option" where
  "first_free i [] = None"
| "first_free i (c # cs) = (if \<not> isBusy c then Some i else first_free (i + 1) cs)"

text \<open>
  \<^verbatim>\<open>Device::startSession\<close> catches \<^verbatim>\<open>std::invalid_argument\<close> only; another exception leaves the
  function with the channel reserved.
\<close>

definition device_startSession ::
  "(nat \<Rightarrow> short) \<Rightarrow> settings \<Rightarrow> (ambe_device, nat option) operation" where
  "device_startSession uninit settings d =
     (case first_free 0 (dv_channels d) of
        None \<Rightarrow> (Inr None, d)
      | Some i \<Rightarrow>
          (case on_channel i (renegotiate uninit settings) (set_channel i reserve d) of
             (Inr _, d') \<Rightarrow> (Inr (Some i), d')
           | (Inl e, d') \<Rightarrow>
               if e = Raise Invalid_argument then (Inr None, set_channel i release d')
               else (Inl e, d')))"

definition device_getChannelNumber :: "packet \<Rightarrow> ambe_device \<Rightarrow> error + nat" where
  "device_getChannelNumber p d =
     (if \<not> hasChannel p then Inr 0
      else bindE (getChannel p) (\<lambda>c.
        if unat c < length (dv_channels d) then Inr (unat c) else Inl (Crash Assert_failed)))"

text \<open>\<^verbatim>\<open>channels[n]\<close> is not checked by the vector.\<close>

definition device_receivePacket :: "packet \<Rightarrow> (ambe_device, unit) operation" where
  "device_receivePacket p d =
     (if p_kind p = SpeechPacket \<or> p_kind p = ChannelPacket
      then bindS (liftS (device_getChannelNumber p d)) (\<lambda>i d.
        if i < length (dv_channels d) then (Inr (), set_channel i (channel_receive p) d)
        else (Inl (Crash Out_of_bounds), d)) d
      else if hasChannel p then bindS (liftS (getChannel p)) (\<lambda>_ d. (Inr (), d)) d
      else (Inr (), d))"

section \<open>Invariant\<close>

text \<open>
  Every operation on a device, by any thread: a client's session calls, the worker that takes
  packets from the queue and hands in received ones.
\<close>

definition session_read :: "nat \<Rightarrow> (ambe_device, bytes) operation" where
  "session_read i = on_channel i (\<lambda>(c, q). case channel_read c of (r, c') \<Rightarrow> (r, (c', q)))"

inductive device_step :: "ambe_device \<Rightarrow> ambe_device \<Rightarrow> bool" where
  step_start: "device_startSession uninit st d = (r, d') \<Longrightarrow> device_step d d'"
| step_renegotiate: "i < length (dv_channels d) \<Longrightarrow>
    on_channel i (renegotiate uninit st) d = (r, d') \<Longrightarrow> device_step d d'"
| step_encode: "i < length (dv_channels d) \<Longrightarrow> on_channel i (encode input sz) d = (r, d') \<Longrightarrow> device_step d d'"
| step_decode: "i < length (dv_channels d) \<Longrightarrow> on_channel i (decode input sz) d = (r, d') \<Longrightarrow> device_step d d'"
| step_read: "i < length (dv_channels d) \<Longrightarrow> session_read i d = (r, d') \<Longrightarrow> device_step d d'"
| step_end: "i < length (dv_channels d) \<Longrightarrow> device_step d (set_channel i release d)"
| step_take: "queue_get (dv_queue d) = Some (p, q) \<Longrightarrow> device_step d (d\<lparr>dv_queue := q\<rparr>)"
| step_receive: "device_receivePacket p d = (r, d') \<Longrightarrow> device_step d d'"

definition queue_ok :: "packet bqueue \<Rightarrow> bool" where
  "queue_ok q \<longleftrightarrow> queue_open q \<and> queue_capacity q = 10 \<and> length (bq_items q) \<le> 10"

definition chan_ok :: "chan \<Rightarrow> bool" where
  "chan_ok c \<longleftrightarrow> (case ch_outQueue c of None \<Rightarrow> True | Some q \<Rightarrow> queue_ok q \<and> isBusy c)"

definition device_ok :: "ambe_device \<Rightarrow> bool" where
  "device_ok d \<longleftrightarrow> length (dv_channels d) \<le> 3 \<and> queue_ok (dv_queue d) \<and>
     list_all chan_ok (dv_channels d) \<and>
     map ch_index (dv_channels d) = map of_nat [0..<length (dv_channels d)]"

lemma queue_ok_put: "queue_ok q \<Longrightarrow> queue_put q x = Some q' \<Longrightarrow> queue_ok q'"
  using bq.put_Some [of q x q'] bq.put_None [of q x] by (auto simp: queue_ok_def)

lemma queue_ok_get: "queue_ok q \<Longrightarrow> queue_get q = Some (x, q') \<Longrightarrow> queue_ok q'"
  using bq.get_Some [of q x q'] by (auto simp: queue_ok_def)

lemma queue_ok_new: "queue_ok (new_BlockingQueue 10)"
  by (simp add: queue_ok_def queue_open_def queue_capacity_def)

lemma writePacket_ok: "queue_ok q \<Longrightarrow> writePacket p (c, q) = (r, (c', q')) \<Longrightarrow> c' = c \<and> queue_ok q'"
  using queue_ok_put [of q p q']
  by (auto simp: writePacket_def queue_put_def split: push_outcome.splits)

lemma liftS_writePacket_ok:
  "queue_ok q \<Longrightarrow> bindS (liftS m) writePacket (c, q) = (r, (c', q')) \<Longrightarrow> c' = c \<and> queue_ok q'"
  by (cases m) (auto dest: writePacket_ok)

text \<open>What a session call may do to its channel and to the device's queue.\<close>

definition call_ok :: "(chan \<times> device_queue, 'a) operation \<Rightarrow> bool" where
  "call_ok f \<longleftrightarrow> (\<forall>c q r c' q'. chan_ok c \<longrightarrow> queue_ok q \<longrightarrow> f (c, q) = (r, (c', q')) \<longrightarrow>
     chan_ok c' \<and> queue_ok q' \<and> ch_index c' = ch_index c)"

lemma call_ok_encode: "call_ok (encode input sz)"
  by (auto simp: call_ok_def encode_def dest: liftS_writePacket_ok)

lemma call_ok_decode: "call_ok (decode input sz)"
  by (auto simp: call_ok_def decode_def dest: liftS_writePacket_ok)

lemma chan_ok_codec [simp]:
  "chan_ok (c\<lparr>ch_codecIndex := i, ch_ratep := w\<rparr>) = chan_ok c"
  by (simp add: chan_ok_def isBusy_def split: option.split)

lemma call_ok_setup: "call_ok (setup_index i dir)" "call_ok (setup_ratep w dir)"
  by (auto simp: call_ok_def setup_index_def setup_ratep_def dest: liftS_writePacket_ok)

lemma call_ok_return: "call_ok (liftS r)"
  by (auto simp: call_ok_def liftS_def)

lemma call_ok_bind:
  assumes "\<And>x. call_ok (f x)"
  shows "call_ok (bindS (liftS m) f)"
proof (cases m)
  case (Inl e)
  then have "bindS (liftS m) f = liftS (Inl e)" by (simp add: fun_eq_iff liftS_def bindS_def)
  then show ?thesis by (simp add: call_ok_return)
next
  case (Inr x)
  then have "bindS (liftS m) f = f x" by (simp add: fun_eq_iff liftS_def bindS_def)
  with assms show ?thesis by simp
qed

lemma call_ok_renegotiate: "call_ok (renegotiate uninit st)"
proof -
  have "renegotiate uninit st = (case st_args st ''index'' of
      Some indexStr \<Rightarrow> bindS (liftS (stoi indexStr))
        (\<lambda>i. setup_index (word_of_int i) (direction_bits (st_directions st)))
    | None \<Rightarrow> (case st_args st ''ratep'' of
        Some ratepStr \<Rightarrow> bindS (liftS (parseRatePString uninit ratepStr)) (\<lambda>rateP.
          case rateP of None \<Rightarrow> liftS (Inr ())
          | Some cwds \<Rightarrow> setup_ratep cwds (direction_bits (st_directions st)))
      | None \<Rightarrow> liftS (Inr ())))"
    by (rule ext) (simp add: renegotiate_def Let_def liftS_def split: option.split)
  then show ?thesis
    by (auto intro!: call_ok_bind call_ok_setup call_ok_return split: option.split)
qed

lemma call_ok_read: "call_ok (\<lambda>(c, q). case channel_read c of (r, c') \<Rightarrow> (r, (c', q)))"
  unfolding call_ok_def
proof (intro allI impI)
  fix c :: chan and q q' r c'
  assume c: "chan_ok c" "queue_ok q"
    and r: "(case (c, q) of (c, q) \<Rightarrow> case channel_read c of (r, c') \<Rightarrow> (r, (c', q))) = (r, (c', q'))"
  show "chan_ok c' \<and> queue_ok q' \<and> ch_index c' = ch_index c"
  proof (cases "ch_outQueue c")
    case None
    with c r show ?thesis by (auto simp: channel_read_def)
  next
    case (Some oq)
    have "queue_ok oq \<Longrightarrow> pop oq = Pop_returns p oq' \<Longrightarrow> queue_ok oq'" for p oq'
      by (rule queue_ok_get [of oq p oq']) (simp_all add: queue_get_def)
    with c r Some show ?thesis
      by (auto simp: channel_read_def chan_ok_def isBusy_def split: pop_outcome.splits)
  qed
qed

lemma map_ch_index_update:
  "i < length cs \<Longrightarrow> ch_index c = ch_index (cs ! i) \<Longrightarrow> map ch_index (cs[i := c]) = map ch_index cs"
  by (simp add: map_update list_update_same_conv)

lemma device_ok_update:
  assumes "device_ok d" "i < length (dv_channels d)" "chan_ok c" "queue_ok q"
    "ch_index c = ch_index (dv_channels d ! i)"
  shows "device_ok (d\<lparr>dv_channels := (dv_channels d)[i := c], dv_queue := q\<rparr>)"
  using assms
  by (auto simp: device_ok_def map_ch_index_update list_all_length nth_list_update)

lemma on_channel_ok:
  assumes "call_ok f" "device_ok d" "i < length (dv_channels d)" "on_channel i f d = (r, d')"
  shows "device_ok d' \<and> length (dv_channels d') = length (dv_channels d)"
proof -
  obtain c q where f: "f (dv_channels d ! i, dv_queue d) = (r, (c, q))"
    using assms(4) by (auto simp: on_channel_def split: prod.splits)
  have "chan_ok (dv_channels d ! i)" "queue_ok (dv_queue d)"
    using assms(2,3) by (auto simp: device_ok_def list_all_length)
  with f assms(1) have "chan_ok c \<and> queue_ok q \<and> ch_index c = ch_index (dv_channels d ! i)"
    unfolding call_ok_def by blast
  with f assms(2-4) show ?thesis
    by (auto simp: on_channel_def intro: device_ok_update)
qed

lemma set_channel_ok:
  assumes "device_ok d" "i < length (dv_channels d)"
    "chan_ok (dv_channels d ! i) \<Longrightarrow> chan_ok (f (dv_channels d ! i))"
    "ch_index (f (dv_channels d ! i)) = ch_index (dv_channels d ! i)"
  shows "device_ok (set_channel i f d)"
proof -
  have "chan_ok (f (dv_channels d ! i))" "queue_ok (dv_queue d)"
    using assms by (auto simp: device_ok_def list_all_length)
  from device_ok_update [OF assms(1,2) this assms(4)] show ?thesis by (simp add: set_channel_def)
qed

lemma first_free_Some:
  "first_free k cs = Some i \<Longrightarrow>
   k \<le> i \<and> i - k < length cs \<and> \<not> isBusy (cs ! (i - k)) \<and> (\<forall>j < i - k. isBusy (cs ! j))"
proof (induction k cs rule: first_free.induct)
  case (2 k c cs)
  show ?case
  proof (cases "isBusy c")
    case True
    with 2 have ih: "Suc k \<le> i \<and> i - Suc k < length cs \<and> \<not> isBusy (cs ! (i - Suc k)) \<and>
        (\<forall>j < i - Suc k. isBusy (cs ! j))" by simp
    then have "Suc k \<le> i" by blast
    then have "i - k = Suc (i - Suc k)" by simp
    with ih True show ?thesis by (auto simp: less_Suc_eq_0_disj)
  qed (use 2 in auto)
qed simp

lemma first_free_least:
  "i < length cs \<Longrightarrow> \<not> isBusy (cs ! i) \<Longrightarrow> (\<And>j. j < i \<Longrightarrow> isBusy (cs ! j)) \<Longrightarrow> first_free k cs = Some (k + i)"
proof (induction k cs arbitrary: i rule: first_free.induct)
  case (2 k c cs)
  show ?case
  proof (cases i)
    case (Suc j)
    have c: "isBusy c" using "2.prems"(3) [of 0] Suc by simp
    have "isBusy (cs ! m)" if "m < j" for m using "2.prems"(3) [of "Suc m"] Suc that by simp
    with c 2 Suc have "first_free (k + 1) cs = Some (k + 1 + j)" by simp
    with c Suc show ?thesis by simp
  qed (use 2 in simp)
qed simp

lemma first_free_None: "first_free k cs = None \<longleftrightarrow> list_all isBusy cs"
  by (induction k cs rule: first_free.induct) auto

lemma first_free_0:
  assumes "first_free 0 cs = Some i"
  shows "i < length cs" "\<not> isBusy (cs ! i)"
  using first_free_Some [OF assms] by auto

lemma chan_ok_reserve [simp]: "chan_ok (reserve c)"
  by (simp add: chan_ok_def reserve_def queue_ok_new isBusy_def)

lemma chan_ok_release [simp]: "chan_ok (release c)"
  by (simp add: chan_ok_def release_def)

lemma chan_ok_receive: "chan_ok c \<Longrightarrow> chan_ok (channel_receive p c)"
proof (cases "ch_outQueue c")
  case None
  then show "chan_ok c \<Longrightarrow> ?thesis" by (simp add: channel_receive_def)
next
  case (Some q)
  assume "chan_ok c"
  with Some have q: "queue_ok q" "isBusy c" by (simp_all add: chan_ok_def)
  then have "queue_open q" by (simp add: queue_ok_def)
  with Some q queue_ok_put [OF q(1), of p] show ?thesis
    by (cases "queue_put q p")
      (auto simp: channel_receive_def push_nonblocking chan_ok_def isBusy_def)
qed

lemma set_channel_length [simp]: "length (dv_channels (set_channel i f d)) = length (dv_channels d)"
  by (simp add: set_channel_def)

lemma startSession_eq:
  assumes "first_free 0 (dv_channels d) = Some i"
    and "on_channel i (renegotiate uninit st) (set_channel i reserve d) = (r, d')"
  shows "device_startSession uninit st d =
    (case r of
       Inr _ \<Rightarrow> (Inr (Some i), d')
     | Inl e \<Rightarrow>
         if e = Raise Invalid_argument then (Inr None, set_channel i release d') else (Inl e, d'))"
  unfolding device_startSession_def assms option.case by (cases r) simp_all

lemma startSession_ok:
  assumes "device_ok d" "device_startSession uninit st d = (r, d')"
  shows "device_ok d' \<and> length (dv_channels d') = length (dv_channels d)"
proof (cases "first_free 0 (dv_channels d)")
  case None
  with assms show ?thesis by (simp add: device_startSession_def)
next
  case (Some i)
  let ?d = "set_channel i reserve d"
  have i: "i < length (dv_channels d)" using first_free_0 [OF Some] by simp
  obtain r1 d1 where r: "on_channel i (renegotiate uninit st) ?d = (r1, d1)" by fastforce
  have "device_ok ?d"
    using assms(1) i by (rule set_channel_ok) (simp_all add: channel_frame)
  from on_channel_ok [OF call_ok_renegotiate this _ r] i
  have ok: "device_ok d1" "length (dv_channels d1) = length (dv_channels d)" by simp_all
  then have rel: "device_ok (set_channel i release d1)"
    using i by (intro set_channel_ok) (simp_all add: channel_frame)
  from assms(2) have "d' = d1 \<or> d' = set_channel i release d1"
    unfolding startSession_eq [OF Some r] by (cases r1) (simp_all split: if_splits)
  with ok rel show ?thesis by auto
qed

lemma receivePacket_ok:
  assumes "device_ok d" "device_receivePacket p d = (r, d')"
  shows "device_ok d' \<and> length (dv_channels d') = length (dv_channels d)"
proof -
  have keep: "i < length (dv_channels d) \<Longrightarrow> device_ok (set_channel i (channel_receive p) d)" for i
    using assms(1) by (rule set_channel_ok) (simp_all add: chan_ok_receive channel_frame)
  show ?thesis
  proof (cases "device_getChannelNumber p d")
    case Inl
    with assms show ?thesis
      by (cases "getChannel p") (auto simp: device_receivePacket_def split: if_splits)
  next
    case (Inr i)
    with assms keep show ?thesis
      by (cases "getChannel p") (auto simp: device_receivePacket_def split: if_splits)
  qed
qed

lemma device_step_ok:
  assumes "device_step d d'" "device_ok d"
  shows "device_ok d' \<and> length (dv_channels d') = length (dv_channels d)"
  using assms
proof (induction rule: device_step.induct)
  case (step_start uninit st d r d')
  then show ?case by (metis startSession_ok)
next
  case (step_renegotiate i d uninit st r d')
  then show ?case by (metis on_channel_ok call_ok_renegotiate)
next
  case (step_encode i d input sz r d')
  then show ?case by (metis on_channel_ok call_ok_encode)
next
  case (step_decode i d input sz r d')
  then show ?case by (metis on_channel_ok call_ok_decode)
next
  case (step_read i d r d')
  then show ?case unfolding session_read_def by (metis on_channel_ok call_ok_read)
next
  case (step_end i d)
  then show ?case by (simp add: set_channel_ok channel_frame)
next
  case (step_take d p q)
  then show ?case using queue_ok_get [of "dv_queue d" p q] by (simp add: device_ok_def)
next
  case (step_receive p d r d')
  then show ?case by (metis receivePacket_ok)
qed

lemma createChannels_ok:
  "device_ok \<lparr>dv_channels = createChannels prodId, dv_queue = new_BlockingQueue 10, dv_termios = tio\<rparr>"
  by (simp add: device_ok_def createChannels_def createChannels_num_def queue_ok_new chan_ok_def
      new_Channel_def list_all_length comp_def)

section \<open>Properties of a running device\<close>

lemma device_steps_ok:
  "device_step\<^sup>*\<^sup>* d d' \<Longrightarrow> device_ok d \<Longrightarrow> device_ok d' \<and> length (dv_channels d') = length (dv_channels d)"
  by (induction rule: rtranclp_induct) (auto dest: device_step_ok)

text \<open>C20: Whatever clients, worker and chip do to a device, its channels stay the ones created for
  the chip, numbered in order; a channel that has a queue is busy, and no queue ever holds more
  than ten packets.\<close>

theorem device_invariant:
  assumes "device_step\<^sup>*\<^sup>* \<lparr>dv_channels = createChannels prodId, dv_queue = new_BlockingQueue 10,
      dv_termios = tio\<rparr> d"
  shows "map ch_index (dv_channels d) = map of_nat [0..<length (createChannels prodId)] \<and>
    length (bq_items (dv_queue d)) \<le> 10 \<and>
    (\<forall>c \<in> set (dv_channels d). \<forall>q. ch_outQueue c = Some q \<longrightarrow> isBusy c \<and> length (bq_items q) \<le> 10)"
proof -
  from device_steps_ok [OF assms createChannels_ok]
  have ok: "device_ok d" "length (dv_channels d) = length (createChannels prodId)" by simp_all
  then have "\<forall>c \<in> set (dv_channels d). chan_ok c" by (simp add: device_ok_def list_all_iff)
  then have "\<forall>c \<in> set (dv_channels d). \<forall>q. ch_outQueue c = Some q \<longrightarrow> isBusy c \<and> length (bq_items q) \<le> 10"
    by (fastforce simp: chan_ok_def queue_ok_def)
  with ok show ?thesis by (simp add: device_ok_def queue_ok_def)
qed

definition idle_device :: "bytes \<Rightarrow> ambe_device" where
  "idle_device prodId = \<lparr>dv_channels = createChannels prodId, dv_queue = new_BlockingQueue 10,
     dv_termios = \<lparr>c_iflag = {}, c_oflag = {}, c_cflag = {}, c_lflag = {}, c_ispeed = None,
       c_ospeed = None, c_vmin = 0, c_vtime = 10\<rparr>\<rparr>"

definition no_settings :: settings where
  "no_settings = \<lparr>st_directions = [], st_args = Map.empty\<rparr>"

lemma ascii_simps:
  "ascii [] = []" "ascii (c # s) = of_nat (of_char c) # ascii s"
  by (simp_all add: ascii_def)

lemma createChannels_3003: "createChannels (ascii ''AMBE3003F'') = map new_Channel [0, 1, 2]"
  by (simp add: createChannels_def ascii_simps createChannels_num_def upt_rec)

theorem device_invariant_witness:
  "map ch_index (dv_channels (snd (device_startSession (\<lambda>_. 0) no_settings (idle_device (ascii ''AMBE3003F''))))) =
     [0, 1, 2]"
proof -
  have "device_step\<^sup>*\<^sup>* (idle_device (ascii ''AMBE3003F''))
      (snd (device_startSession (\<lambda>_. 0) no_settings (idle_device (ascii ''AMBE3003F''))))"
    by (rule r_into_rtranclp, rule step_start) (rule prod.collapse [symmetric])
  from device_invariant [OF this [unfolded idle_device_def]]
  show ?thesis by (simp add: createChannels_3003 idle_device_def upt_rec)
qed

lemma on_channel_other:
  "on_channel i f d = (r, d') \<Longrightarrow> j \<noteq> i \<Longrightarrow> dv_channels d' ! j = dv_channels d ! j"
  by (auto simp: on_channel_def split: prod.splits)

lemma renegotiate_busy:
  "renegotiate uninit st (c, q) = (r, (c', q')) \<Longrightarrow> ch_busy c' = ch_busy c"
proof -
  assume r: "renegotiate uninit st (c, q) = (r, (c', q'))"
  have "ch_busy (fst (snd (renegotiate uninit st (c, q)))) = ch_busy c"
  proof (cases "st_args st ''index''")
    case (Some s)
    then show ?thesis
      by (cases "stoi s") (simp_all add: renegotiate_def channel_setup_frame)
  next
    case None
    show ?thesis
    proof (cases "st_args st ''ratep''")
      case (Some s)
      obtain w where "parseRatePString uninit s = Inr w"
        using parseRatePString_total by blast
      with None Some show ?thesis
        by (cases w) (simp_all add: renegotiate_def channel_setup_frame liftS_def)
    qed (simp add: renegotiate_def None)
  qed
  with r show ?thesis by simp
qed

lemma on_channel_renegotiate_busy:
  assumes "on_channel i (renegotiate uninit st) d = (r, d')" "i < length (dv_channels d)"
  shows "isBusy (dv_channels d' ! i) = isBusy (dv_channels d ! i)"
    "length (dv_channels d') = length (dv_channels d)"
  using assms renegotiate_busy [of uninit st "dv_channels d ! i" "dv_queue d"]
  by (auto simp: on_channel_def isBusy_def split: prod.splits)

lemma set_channel_nth:
  "i < length (dv_channels d) \<Longrightarrow> dv_channels (set_channel i f d) ! i = f (dv_channels d ! i)"
  "j \<noteq> i \<Longrightarrow> dv_channels (set_channel i f d) ! j = dv_channels d ! j"
  by (simp_all add: set_channel_def)

lemma busy_simps [simp]: "isBusy (reserve c)" "\<not> isBusy (release c)"
  by (simp_all add: isBusy_def reserve_def release_def)


lemma startSession_no_settings:
  assumes "st_args st ''index'' = None" "st_args st ''ratep'' = None" "first_free 0 (dv_channels d) = Some i"
  shows "device_startSession uninit st d = (Inr (Some i), set_channel i reserve d)"
proof -
  have "renegotiate uninit st s = (Inr (), s)" for s
    using assms(1,2) by (simp add: renegotiate_def)
  then have "on_channel i (renegotiate uninit st) (set_channel i reserve d) =
      (Inr (), set_channel i reserve d)"
    by (simp add: on_channel_def)
  from startSession_eq [OF assms(3) this] show ?thesis by simp
qed

lemma first_free_idle: "first_free 0 (dv_channels (idle_device (ascii ''AMBE3003F''))) = Some 0"
  by (simp add: idle_device_def createChannels_3003 new_Channel_def isBusy_def)


text \<open>A session started without usable settings, or with rate parameters that do not parse, is
  set up with nothing: the channel keeps the codec of the session before it, and no setup request
  is sent. A codec index out of range is worse: the exception leaves \<^verbatim>\<open>startSession\<close> with the
  channel reserved, so that nobody can use it or release it.\<close>

theorem startSession_unconfigured:
  assumes "first_free 0 (dv_channels d) = Some i"
  shows "(st_args st ''index'' = None \<and>
      (st_args st ''ratep'' = None \<or>
       (\<exists>str. st_args st ''ratep'' = Some str \<and> parseRatePString uninit str = Inr None)) \<longrightarrow>
      device_startSession uninit st d = (Inr (Some i), set_channel i reserve d) \<and>
      getFraming (dv_channels (set_channel i reserve d) ! i) = getFraming (dv_channels d ! i)) \<and>
    (\<forall>str. st_args st ''index'' = Some str \<and> stoi str = Inl (Raise Out_of_range) \<longrightarrow>
      device_startSession uninit st d = (Inl (Raise Out_of_range), set_channel i reserve d) \<and>
      isBusy (dv_channels (set_channel i reserve d) ! i))"
proof (intro conjI impI allI; (elim conjE)?)
  note i = first_free_0 [OF assms]
  show "getFraming (dv_channels (set_channel i reserve d) ! i) = getFraming (dv_channels d ! i)"
    using i by (simp add: set_channel_nth getFraming_def getFramingBits_def getCodecIndex_def
        getRateP_def reserve_def)
  show "isBusy (dv_channels (set_channel i reserve d) ! i)"
    using i by (simp add: set_channel_nth)
next
  assume "st_args st ''index'' = None" "st_args st ''ratep'' = None \<or>
       (\<exists>str. st_args st ''ratep'' = Some str \<and> parseRatePString uninit str = Inr None)"
  then have "renegotiate uninit st s = (Inr (), s)" for s
    by (auto simp: renegotiate_def liftS_def [of "Inr ()"])
  then have "on_channel i (renegotiate uninit st) (set_channel i reserve d) =
      (Inr (), set_channel i reserve d)"
    by (simp add: on_channel_def)
  from startSession_eq [OF assms this]
  show "device_startSession uninit st d = (Inr (Some i), set_channel i reserve d)" by simp
next
  fix str
  assume "st_args st ''index'' = Some str" "stoi str = Inl (Raise Out_of_range)"
  then have "renegotiate uninit st s = (Inl (Raise Out_of_range), s)" for s
    by (simp add: renegotiate_def)
  then have "on_channel i (renegotiate uninit st) (set_channel i reserve d) =
      (Inl (Raise Out_of_range), set_channel i reserve d)"
    by (simp add: on_channel_def)
  from startSession_eq [OF assms this]
  show "device_startSession uninit st d = (Inl (Raise Out_of_range), set_channel i reserve d)" by simp
qed

theorem startSession_unconfigured_witness:
  "fst (device_startSession (\<lambda>_. 0) \<lparr>st_directions = [], st_args = [''index'' \<mapsto> ''99999999999'']\<rparr>
      (idle_device (ascii ''AMBE3003F''))) = Inl (Raise Out_of_range) \<and>
   fst (device_startSession (\<lambda>_. 0) no_settings (idle_device (ascii ''AMBE3003F''))) = Inr (Some 0)"
proof -
  have "stoi ''99999999999'' = Inl (Raise Out_of_range)"
    by (simp add: stoi_def scan_decimal_def digits_of_def digit_value_def number_value_def
        signed_value_def is_space_def)
  then show ?thesis
    using startSession_unconfigured [OF first_free_idle,
        of "\<lparr>st_directions = [], st_args = [''index'' \<mapsto> ''99999999999'']\<rparr>" "\<lambda>_. 0"]
      startSession_unconfigured [OF first_free_idle, of no_settings "\<lambda>_. 0"]
    by (simp add: no_settings_def)
qed

text \<open>A received data packet goes to the channel whose number it carries, or to channel 0 when
  it carries none, and to no other; a number that the device does not have aborts the process, and
  on a chip without channels a packet without number is an access outside the vector.\<close>

theorem receivePacket_routes:
  assumes "p_kind p \<noteq> ControlPacket" "wf_packet p"
  shows "(hasChannel p \<longrightarrow> (\<exists>c. getChannel p = Inr c \<and> device_receivePacket p d =
      (if unat c < length (dv_channels d) then (Inr (), set_channel (unat c) (channel_receive p) d)
       else (Inl (Crash Assert_failed), d)))) \<and>
    (\<not> hasChannel p \<longrightarrow> device_receivePacket p d =
      (if dv_channels d = [] then (Inl (Crash Out_of_bounds), d)
       else (Inr (), set_channel 0 (channel_receive p) d)))"
proof -
  have "p_kind p = SpeechPacket \<or> p_kind p = ChannelPacket"
    using assms(1) by (cases "p_kind p") simp_all
  note data = this
  show ?thesis
  proof (cases "hasChannel p")
    case True
    from getChannel_ok [OF assms(2) True] obtain c where "getChannel p = Inr c" by blast
    with True data show ?thesis
      by (auto simp: device_receivePacket_def device_getChannelNumber_def)
  next
    case False
    with data show ?thesis
      by (simp add: device_receivePacket_def device_getChannelNumber_def)
  qed
qed

lemma parse_data_packet:
  "parse [0x61, 0, 4, 1, 0x40, 1, 8, 0xAB] (length [0x61, 0, 4, 1, 0x40, 1, 8, 0xAB :: byte]) =
     Inr (Some data_packet)"
  "hasChannel data_packet" "getChannel data_packet = Inr 0" "p_kind data_packet = ChannelPacket"
  by code_simp+

theorem receivePacket_routes_witness:
  "device_receivePacket data_packet (idle_device (ascii ''AMBE3003F'')) =
     (Inr (), set_channel 0 (channel_receive data_packet) (idle_device (ascii ''AMBE3003F'')))"
  using receivePacket_routes [OF _ parse_wf(1) [OF parse_data_packet(1)],
      of "idle_device (ascii ''AMBE3003F'')"]
  by (simp add: parse_data_packet(2-4) idle_device_def createChannels_3003)

section \<open>The handshake\<close>

lemma request_written:
  assumes "builds m ControlPacket body"
  shows "\<exists>p p'. m = Inr p \<and>
    (\<forall>t. writeTo p t = Inr (p', t\<lparr>tx := tx t @ frame AMBE3K_TYPE_CONTROL body\<rparr>))"
proof -
  from assms obtain p where "m = Inr p" "outgoing p AMBE3K_TYPE_CONTROL body"
    by (rule buildsE) simp
  with writeTo_frame [OF this(2)] show ?thesis by blast
qed

lemma response_received:
  assumes "wf_field ControlPacket f" "length (encode_field ControlPacket f) < 32766"
    and "covers hs 4" "covers ks (length (encode_field ControlPacket f) + 2)"
  obtains p where
    "receiveFrom u \<lparr>rx = frame AMBE3K_TYPE_CONTROL (encode_field ControlPacket f) @ rest,
        schedule = map Ready (hs @ ks) @ es, tx = T\<rparr> = Inr (Some p, \<lparr>rx = rest, schedule = es, tx = T\<rparr>)"
    "p_kind p = ControlPacket" "view p = store_view f empty_view"
proof -
  let ?t = "\<lparr>rx = frame AMBE3K_TYPE_CONTROL (encode_field ControlPacket f) @ rest,
      schedule = map Ready (hs @ ks) @ es, tx = T\<rparr>"
  obtain p where "receiveFrom u ?t = Inr (Some p, ?t\<lparr>rx := rest, schedule := es\<rparr>)"
    "p_kind p = ControlPacket" "view p = fold store_view [f] empty_view"
    by (rule receiveFrom_frame [of ControlPacket "[f]" hs ks ?t rest es u])
      (use assms in \<open>simp_all add: encode_fields_def\<close>)
  with that show ?thesis by simp
qed

lemma createChannels_count:
  "length (createChannels s) = (if take 8 s = ascii ''AMBE3000'' then 1
     else if take 8 s = ascii ''AMBE3003'' then 3 else 0)"
  by (simp add: createChannels_def createChannels_num_def)

lemma device_init_answers:
  assumes "covers h0 4" "covers h1 4" "covers h2 4"
    and "covers k0 3" "covers k1 (length s + 4)" "covers k2 51"
    and "0 \<notin> set s" "length s < 32000" "length v = 48"
    and "rx t = frame AMBE3K_TYPE_CONTROL [0x39] @ frame AMBE3K_TYPE_CONTROL (0x30 # s @ [0]) @
      frame AMBE3K_TYPE_CONTROL (0x31 # v) @ rest"
    and "schedule t = map Ready (h0 @ k0) @ map Ready (h1 @ k1) @ map Ready (h2 @ k2) @ es"
  shows "device_init uninit t = Inr (createChannels s,
      t\<lparr>rx := rest, schedule := es, tx := tx t @ frame AMBE3K_TYPE_CONTROL [0x33] @
        frame AMBE3K_TYPE_CONTROL [0x30] @ frame AMBE3K_TYPE_CONTROL [0x31]\<rparr>) \<and>
    length (createChannels s) = (if take 8 s = ascii ''AMBE3000'' then 1
      else if take 8 s = ascii ''AMBE3003'' then 3 else 0)"
proof
  obtain r0 r0' where r0: "ResetPacket = Inr r0"
    "\<And>t. writeTo r0 t = Inr (r0', t\<lparr>tx := tx t @ frame AMBE3K_TYPE_CONTROL [0x33]\<rparr>)"
    using request_written [OF builds_ResetPacket] by blast
  obtain r1 r1' where r1: "ProdIdRequest = Inr r1"
    "\<And>t. writeTo r1 t = Inr (r1', t\<lparr>tx := tx t @ frame AMBE3K_TYPE_CONTROL [0x30]\<rparr>)"
    using request_written [OF builds_ProdIdRequest] by blast
  obtain r2 r2' where r2: "VersionStringRequest = Inr r2"
    "\<And>t. writeTo r2 t = Inr (r2', t\<lparr>tx := tx t @ frame AMBE3K_TYPE_CONTROL [0x31]\<rparr>)"
    using request_written [OF builds_VersionStringRequest] by blast
  have k: "covers k0 (length (encode_field ControlPacket WReady) + 2)"
    "covers k1 (length (encode_field ControlPacket (WProdId s)) + 2)"
    "covers k2 (length (encode_field ControlPacket (WVersion v)) + 2)"
    using assms(4-6,9) by (simp_all add: eval_nat_numeral)
  note answer0 = response_received [OF _ _ assms(1) k(1), of "uninit 0"]
    and answer1 = response_received [OF _ _ assms(2) k(2), of "uninit 1"]
    and answer2 = response_received [OF _ _ assms(3) k(3), of "uninit 2"]
  let ?F2 = "frame AMBE3K_TYPE_CONTROL (0x31 # v) @ rest" and ?s2 = "map Ready (h2 @ k2) @ es"
  let ?F1 = "frame AMBE3K_TYPE_CONTROL (0x30 # s @ [0]) @ ?F2" and ?s1 = "map Ready (h1 @ k1) @ ?s2"
  let ?T0 = "tx t @ frame AMBE3K_TYPE_CONTROL [0x33]"
  let ?T1 = "?T0 @ frame AMBE3K_TYPE_CONTROL [0x30]"
  let ?T2 = "?T1 @ frame AMBE3K_TYPE_CONTROL [0x31]"
  obtain p0 where p0: "receiveFrom (uninit 0) (t\<lparr>tx := ?T0\<rparr>) = Inr (Some p0, \<lparr>rx = ?F1, schedule = ?s1, tx = ?T0\<rparr>)"
    "p_kind p0 = ControlPacket" "view p0 = store_view WReady empty_view"
    by (rule answer0 [of ?F1 ?s1 ?T0]) (use assms(10,11) in \<open>cases t; simp\<close>)+
  obtain p1 where p1: "receiveFrom (uninit 1) \<lparr>rx = ?F1, schedule = ?s1, tx = ?T1\<rparr> =
      Inr (Some p1, \<lparr>rx = ?F2, schedule = ?s2, tx = ?T1\<rparr>)"
    "p_kind p1 = ControlPacket" "view p1 = store_view (WProdId s) empty_view"
    by (rule answer1 [of ?F2 ?s2 ?T1]) (use assms(7,8) in simp_all)
  obtain p2 where p2: "receiveFrom (uninit 2) \<lparr>rx = ?F2, schedule = ?s2, tx = ?T2\<rparr> =
      Inr (Some p2, \<lparr>rx = rest, schedule = es, tx = ?T2\<rparr>)"
    "p_kind p2 = ControlPacket" "view p2 = store_view (WVersion v) empty_view"
    by (rule answer2 [of rest es ?T2]) (use assms(9) in simp_all)
  have "hasReadyField p0" "hasProductId p1" "getProductId p1 = Inr s" "hasVersionString p2" "getVersionString p2 = Inr v"
    using p0(3) p1(3) p2(3) by (simp_all add: view_def empty_view_def split: if_splits)
  then show "device_init uninit t = Inr (createChannels s,
      t\<lparr>rx := rest, schedule := es, tx := tx t @ frame AMBE3K_TYPE_CONTROL [0x33] @
        frame AMBE3K_TYPE_CONTROL [0x30] @ frame AMBE3K_TYPE_CONTROL [0x31]\<rparr>)"
    using p0(1) p1(1) p2(1)
    by (simp add: device_init_def r0 r1 r2 p0(2) p1(2) p2(2) del: bindE_eq_Inr)
qed (rule createChannels_count)

text \<open>C19: On a line on which the chip answers each request with the field asked for, in whatever
  pieces, the handshake sends the reset, product id and version requests in this order, consumes
  exactly the three responses, and creates the channels of the product: one for an AMBE3000,
  three for an AMBE3003, none for any other.\<close>

theorem device_init_handshake:
  assumes "covers h0 4" "covers h1 4" "covers h2 4"
    and "covers k0 3" "covers k1 (length s + 4)" "covers k2 51"
    and "0 \<notin> set s" "length s < 32000" "length v = 48"
    and "rx t = frame AMBE3K_TYPE_CONTROL [0x39] @ frame AMBE3K_TYPE_CONTROL (0x30 # s @ [0]) @
      frame AMBE3K_TYPE_CONTROL (0x31 # v) @ rest"
    and "schedule t = map Ready (h0 @ k0) @ map Ready (h1 @ k1) @ map Ready (h2 @ k2) @ es"
  shows "device_init uninit t = Inr (createChannels s,
      t\<lparr>rx := rest, schedule := es, tx := tx t @ frame AMBE3K_TYPE_CONTROL [0x33] @
        frame AMBE3K_TYPE_CONTROL [0x30] @ frame AMBE3K_TYPE_CONTROL [0x31]\<rparr>) \<and>
    length (createChannels s) = (if take 8 s = ascii ''AMBE3000'' then 1
      else if take 8 s = ascii ''AMBE3003'' then 3 else 0)"
  using assms by (rule device_init_answers)

definition answering_line :: tty where
  "answering_line =
     \<lparr>rx = frame AMBE3K_TYPE_CONTROL [0x39] @
        frame AMBE3K_TYPE_CONTROL (0x30 # ascii ''AMBE3003F'' @ [0]) @
        frame AMBE3K_TYPE_CONTROL (0x31 # replicate 48 0x56) @ [],
      schedule = map Ready ([4] @ [1, 2]) @ map Ready ([1, 3] @ [13]) @ map Ready ([4] @ [50, 1]) @ [],
      tx = []\<rparr>"

lemma answering_line_init:
  "\<exists>t. device_init (\<lambda>_ _. 0xEE) answering_line = Inr (createChannels (ascii ''AMBE3003F''), t)"
proof -
  let ?s = "ascii ''AMBE3003F''"
  have "0 \<notin> set ?s" "length ?s = 9" by (simp_all add: ascii_simps)
  with device_init_answers [of "[4]" "[1, 3]" "[4]" "[1, 2]" "[13]" ?s "[50, 1]" "replicate 48 0x56"
      answering_line "[]" "[]" "\<lambda>_ _. 0xEE"]
  show ?thesis
    by (simp add: answering_line_def covers_def del: ascii_simps(2))
qed

theorem device_init_handshake_witness:
  "\<exists>t. device_init (\<lambda>_ _. 0xEE) answering_line = Inr (createChannels (ascii ''AMBE3003F''), t) \<and>
     rx t = [] \<and> length (createChannels (ascii ''AMBE3003F'')) = 3"
proof -
  let ?s = "ascii ''AMBE3003F''"
  have "0 \<notin> set ?s" "length ?s = 9" "take 8 ?s \<noteq> ascii ''AMBE3000''" "take 8 ?s = ascii ''AMBE3003''"
    by (simp_all add: ascii_simps)
  with device_init_handshake [of "[4]" "[1, 3]" "[4]" "[1, 2]" "[13]" ?s "[50, 1]" "replicate 48 0x56"
      answering_line "[]" "[]" "\<lambda>_ _. 0xEE"]
  show ?thesis
    by (simp add: answering_line_def covers_def del: ascii_simps(2))
qed

end
