(* ===== verification/Queue_Worker.thy ===== *)
theory Queue_Worker
  imports Ambe_Device
begin

text \<open>
  The thread of a device that talks to the chip: \<^verbatim>\<open>QueueWorker\<close> of
  \<^verbatim>\<open>src/modules/ambe3k/queueworker.cpp\<close>, together with \<^verbatim>\<open>Device::onQueueError\<close>.

  \<open>work\<close> is one step of \<^verbatim>\<open>QueueWorker::run\<close>, from one program point to the next. Between its
  steps other threads work on the device (sessions are started, packets queued, received data
  read), and the udev monitor may unregister the device, which deletes it together with the worker
  object and the queue. Afterwards every step of the worker touches freed memory.
\<close>

section \<open>State\<close>

datatype worker_pc =
    At_outer      \<comment> \<open>\<^verbatim>\<open>while (dorun)\<close>\<close>
  | At_send       \<comment> \<open>the test of the sending loop\<close>
  | At_pop        \<comment> \<open>\<^verbatim>\<open>queue->pop()\<close>\<close>
  | At_receive    \<comment> \<open>\<^verbatim>\<open>Packet::receiveFrom(fd)\<close>\<close>
  | At_until      \<comment> \<open>the test of the receiving loop\<close>
  | Finished
  | Died fault

record worker =
  wk_pc :: worker_pc
  wk_dorun :: bool
  wk_in_progress :: nat
  wk_device :: ambe_device
  wk_tty :: tty
  wk_registered :: bool        \<comment> \<open>the device is in the registry\<close>
  wk_alive :: bool             \<comment> \<open>device, worker and queue are not deleted yet\<close>
  wk_sent :: nat               \<comment> \<open>history: packets written\<close>
  wk_received :: nat           \<comment> \<open>history: packets received\<close>

definition new_QueueWorker :: "ambe_device \<Rightarrow> tty \<Rightarrow> worker" where
  "new_QueueWorker d t = \<lparr>wk_pc = At_outer, wk_dorun = True, wk_in_progress = 0, wk_device = d,
     wk_tty = t, wk_registered = True, wk_alive = True, wk_sent = 0, wk_received = 0\<rparr>"

section \<open>Deletion\<close>

text \<open>
  \<^verbatim>\<open>Device::onQueueError\<close> unregisters the device; the registry deletes a device that it has.
  After it the worker sets its own \<^verbatim>\<open>dorun\<close>.
\<close>

definition unregister :: "worker \<Rightarrow> worker" where
  "unregister s = (if wk_registered s then s\<lparr>wk_registered := False, wk_alive := False\<rparr> else s)"

definition onQueueError :: "worker \<Rightarrow> worker" where
  "onQueueError s =
     (let s = unregister s in
      if wk_alive s then s\<lparr>wk_dorun := False, wk_pc := Finished\<rparr>
      else s\<lparr>wk_pc := Died Use_after_free\<rparr>)"

section \<open>\<^verbatim>\<open>QueueWorker::run\<close>\<close>

text \<open>A fault ends the process; so does an exception that leaves the thread, as \<^verbatim>\<open>abort\<close> does.\<close>

definition die :: "error \<Rightarrow> worker \<Rightarrow> worker" where
  "die e s = s\<lparr>wk_pc := Died (case e of Crash f \<Rightarrow> f | _ \<Rightarrow> Assert_failed)\<rparr>"

definition work_send :: "worker \<Rightarrow> worker" where
  "work_send s =
     (if (bq_items (dv_queue (wk_device s)) \<noteq> [] \<and> wk_in_progress s < AMBE3K_FIFO_MAX_PENDING)
         \<or> wk_in_progress s = 0
      then s\<lparr>wk_pc := At_pop\<rparr> else s\<lparr>wk_pc := At_receive\<rparr>)"

text \<open>An empty queue makes the worker wait: the state does not change.\<close>

definition work_pop :: "worker \<Rightarrow> worker" where
  "work_pop s =
     (case pop (dv_queue (wk_device s)) of
        Pop_waits \<Rightarrow> s
      | Pop_null \<Rightarrow> if \<not> wk_dorun s then s\<lparr>wk_pc := Finished\<rparr> else onQueueError s
      | Pop_returns p q \<Rightarrow>
          (let s = s\<lparr>wk_device := (wk_device s)\<lparr>dv_queue := q\<rparr>\<rparr> in
           if \<not> wk_dorun s then s\<lparr>wk_pc := Finished\<rparr>
           else (case writeTo p (wk_tty s) of
               Inl e \<Rightarrow> die e s
             | Inr (_, t) \<Rightarrow>
                 s\<lparr>wk_tty := t, wk_in_progress := wk_in_progress s + 1, wk_sent := wk_sent s + 1,
                   wk_pc := At_send\<rparr>)))"

text \<open>\<^verbatim>\<open>in_progress -= 1\<close> on a \<^verbatim>\<open>size_t\<close>.\<close>

definition work_receive :: "(nat \<Rightarrow> byte) \<Rightarrow> worker \<Rightarrow> worker" where
  "work_receive uninit s =
     (case receiveFrom uninit (wk_tty s) of
        Inl e \<Rightarrow> die e s
      | Inr (None, t) \<Rightarrow> onQueueError (s\<lparr>wk_tty := t\<rparr>)
      | Inr (Some response, t) \<Rightarrow>
          (case device_receivePacket response (wk_device s) of
             (Inl e, d) \<Rightarrow> die e s
           | (Inr _, d) \<Rightarrow>
               s\<lparr>wk_tty := t, wk_device := d, wk_received := wk_received s + 1,
                 wk_in_progress := nat ((int (wk_in_progress s) - 1) mod 2 ^ 64),
                 wk_pc := At_until\<rparr>))"

definition work_until :: "worker \<Rightarrow> worker" where
  "work_until s =
     (if wk_in_progress s > 0 \<and> bq_items (dv_queue (wk_device s)) = []
      then s\<lparr>wk_pc := At_receive\<rparr> else s\<lparr>wk_pc := At_outer\<rparr>)"

definition work :: "(nat \<Rightarrow> byte) \<Rightarrow> worker \<Rightarrow> worker" where
  "work uninit s =
     (case wk_pc s of
        Finished \<Rightarrow> s
      | Died f \<Rightarrow> s
      | pc \<Rightarrow>
          if \<not> wk_alive s then s\<lparr>wk_pc := Died Use_after_free\<rparr>
          else (case pc of
              At_outer \<Rightarrow> s\<lparr>wk_pc := if wk_dorun s then At_send else Finished\<rparr>
            | At_send \<Rightarrow> work_send s
            | At_pop \<Rightarrow> work_pop s
            | At_receive \<Rightarrow> work_receive uninit s
            | At_until \<Rightarrow> work_until s
            | _ \<Rightarrow> s))"

section \<open>The worker among the other threads\<close>

text \<open>Other threads add to the queue, but only the worker takes from it.\<close>

inductive worker_step :: "worker \<Rightarrow> worker \<Rightarrow> bool" where
  worker_works: "worker_step s (work uninit s)"
| worker_others: "wk_alive s \<Longrightarrow> device_step (wk_device s) d \<Longrightarrow>
    bq_items (dv_queue d) = bq_items (dv_queue (wk_device s)) @ added \<Longrightarrow>
    worker_step s (s\<lparr>wk_device := d\<rparr>)"
| worker_unregistered: "worker_step s (unregister s)"

inductive_cases worker_stepE: "worker_step s s'"

section \<open>Invariant\<close>

fun pc_ok :: "worker_pc \<Rightarrow> nat \<Rightarrow> packet list \<Rightarrow> bool" where
  "pc_ok At_pop n items \<longleftrightarrow> n = 0 \<or> n < 3 \<and> items \<noteq> []"
| "pc_ok At_receive n items \<longleftrightarrow> 0 < n"
| "pc_ok _ n items \<longleftrightarrow> True"

definition worker_ok :: "worker \<Rightarrow> bool" where
  "worker_ok s \<longleftrightarrow>
     wk_sent s = wk_received s + wk_in_progress s \<and> wk_in_progress s \<le> 3 \<and>
     pc_ok (wk_pc s) (wk_in_progress s) (bq_items (dv_queue (wk_device s)))"

lemma pc_ok_dead [simp]: "pc_ok (Died f) n items" "pc_ok Finished n items"
  by simp_all

lemma unregister_frame [simp]:
  "wk_pc (unregister s) = wk_pc s" "wk_in_progress (unregister s) = wk_in_progress s"
  "wk_device (unregister s) = wk_device s" "wk_sent (unregister s) = wk_sent s"
  "wk_received (unregister s) = wk_received s" "wk_dorun (unregister s) = wk_dorun s"
  by (simp_all add: unregister_def)

lemma onQueueError_frame [simp]:
  "wk_in_progress (onQueueError s) = wk_in_progress s" "wk_sent (onQueueError s) = wk_sent s"
  "wk_received (onQueueError s) = wk_received s"
  "pc_ok (wk_pc (onQueueError s)) n items"
  by (simp_all add: onQueueError_def Let_def)

lemma work_send_ok: "worker_ok s \<Longrightarrow> worker_ok (work_send s)"
  by (auto simp: worker_ok_def work_send_def)

lemma work_pop_ok:
  assumes "worker_ok s" "wk_pc s = At_pop"
  shows "worker_ok (work_pop s)"
proof (cases "pop (dv_queue (wk_device s))")
  case (Pop_returns p q)
  then show ?thesis
    using assms by (cases "writeTo p (wk_tty s)") (auto simp: worker_ok_def work_pop_def die_def Let_def)
qed (use assms in \<open>simp_all add: worker_ok_def work_pop_def\<close>)

lemma work_receive_ok:
  assumes "worker_ok s" "wk_pc s = At_receive"
  shows "worker_ok (work_receive uninit s)"
proof -
  have n: "0 < wk_in_progress s" "wk_in_progress s \<le> 3"
    using assms by (simp_all add: worker_ok_def)
  then have minus: "nat ((int (wk_in_progress s) - 1) mod 2 ^ 64) = wk_in_progress s - 1"
    by simp
  show ?thesis
  proof (cases "receiveFrom uninit (wk_tty s)")
    case (Inl e)
    with assms show ?thesis by (simp add: worker_ok_def work_receive_def die_def)
  next
    case (Inr rt)
    obtain r t where rt: "rt = (r, t)" by (cases rt)
    show ?thesis
    proof (cases r)
      case None
      with assms Inr rt show ?thesis by (simp add: worker_ok_def work_receive_def)
    next
      case (Some p)
      obtain x d where "device_receivePacket p (wk_device s) = (x, d)" by fastforce
      with assms n Inr rt Some show ?thesis
        by (cases x) (auto simp: worker_ok_def work_receive_def die_def minus)
    qed
  qed
qed

lemma work_until_ok: "worker_ok s \<Longrightarrow> worker_ok (work_until s)"
  by (auto simp: worker_ok_def work_until_def)

lemma work_ok: "worker_ok s \<Longrightarrow> worker_ok (work uninit s)"
proof (cases "wk_pc s")
  case At_outer
  then show "worker_ok s \<Longrightarrow> ?thesis" by (auto simp: worker_ok_def work_def)
next
  case At_send
  then show "worker_ok s \<Longrightarrow> ?thesis"
    using work_send_ok [of s] by (auto simp: work_def) (simp add: worker_ok_def)
next
  case At_pop
  then show "worker_ok s \<Longrightarrow> ?thesis"
    using work_pop_ok [of s] by (auto simp: work_def) (simp add: worker_ok_def)
next
  case At_receive
  then show "worker_ok s \<Longrightarrow> ?thesis"
    using work_receive_ok [of s] by (auto simp: work_def) (simp add: worker_ok_def)
next
  case At_until
  then show "worker_ok s \<Longrightarrow> ?thesis"
    using work_until_ok [of s] by (auto simp: work_def) (simp add: worker_ok_def)
qed (simp_all add: work_def)

lemma pc_ok_more: "pc_ok pc n items \<Longrightarrow> pc_ok pc n (items @ added)"
  by (cases pc) auto

lemma worker_step_ok: "worker_step s s' \<Longrightarrow> worker_ok s \<Longrightarrow> worker_ok s'"
proof (induction rule: worker_step.induct)
  case (worker_works s uninit)
  then show ?case by (rule work_ok)
next
  case (worker_others s d added)
  then show ?case by (simp add: worker_ok_def pc_ok_more)
next
  case (worker_unregistered s)
  then show ?case by (simp add: worker_ok_def)
qed

lemma worker_steps_ok: "worker_step\<^sup>*\<^sup>* s s' \<Longrightarrow> worker_ok s \<Longrightarrow> worker_ok s'"
  by (induction rule: rtranclp_induct) (auto dest: worker_step_ok)

section \<open>Properties\<close>

text \<open>C23: At every moment the worker has sent exactly \<open>in_progress\<close> packets that have not been
  answered, and never more than the three that the chip can buffer. It only waits for a response
  when one is due, and only waits for the queue when nothing is due.\<close>

theorem worker_flow_control:
  assumes "worker_step\<^sup>*\<^sup>* (new_QueueWorker d t) s"
  shows "wk_sent s = wk_received s + wk_in_progress s \<and> wk_in_progress s \<le> 3 \<and>
    (wk_pc s = At_receive \<longrightarrow> 0 < wk_in_progress s) \<and>
    (wk_pc s = At_pop \<and> bq_items (dv_queue (wk_device s)) = [] \<longrightarrow> wk_in_progress s = 0)"
proof -
  have "worker_ok (new_QueueWorker d t)" by (simp add: worker_ok_def new_QueueWorker_def)
  from worker_steps_ok [OF assms this] show ?thesis by (auto simp: worker_ok_def)
qed

text \<open>When the chip stays silent, a worker whose device is registered deletes the device, and
  with it itself, and then writes to its own \<^verbatim>\<open>dorun\<close>. A worker whose device is unregistered by
  the udev monitor, at whatever point of the loop, reads freed memory in its next step.\<close>

theorem worker_use_after_free:
  assumes "wk_alive s" "wk_registered s"
  shows "(wk_pc s = At_receive \<and> receiveFrom uninit (wk_tty s) = Inr (None, t) \<longrightarrow>
      wk_pc (work uninit s) = Died Use_after_free) \<and>
    (wk_pc s \<in> {At_outer, At_send, At_pop, At_receive, At_until} \<longrightarrow>
      wk_pc (work uninit (unregister s)) = Died Use_after_free)"
  using assms
  by (auto simp: work_def work_receive_def onQueueError_def unregister_def)

text \<open>A worker with one packet to send on a silent line.\<close>

definition silent_worker :: worker where
  "silent_worker = new_QueueWorker (idle_device (ascii ''AMBE3003F''))
     \<lparr>rx = [], schedule = [], tx = []\<rparr>"

lemma silent_line:
  "receiveFrom uninit \<lparr>rx = [], schedule = [], tx = []\<rparr> = Inr (None, \<lparr>rx = [], schedule = [], tx = []\<rparr>)"
proof -
  have "read_loop 10 4 4 (malloc uninit 1024) \<lparr>rx = [], schedule = [], tx = []\<rparr> =
      Inr (4, malloc uninit 1024, \<lparr>rx = [], schedule = [], tx = []\<rparr>)"
    using read_loop_quiet [of "\<lparr>rx = [], schedule = [], tx = []\<rparr>" 4 10 4] by simp
  moreover have "\<exists>b. get_byte (malloc uninit 1024) 0 = Inr b"
    by (simp add: malloc_def fresh_def)
  ultimately show ?thesis by (auto simp: receiveFrom_def Let_def)
qed

theorem worker_flow_control_witness:
  "wk_pc (work (\<lambda>_. 0) (work (\<lambda>_. 0) silent_worker)) = At_pop \<and>
   wk_in_progress (work (\<lambda>_. 0) (work (\<lambda>_. 0) silent_worker)) = 0"
proof -
  have "worker_step\<^sup>*\<^sup>* (new_QueueWorker (idle_device (ascii ''AMBE3003F''))
      \<lparr>rx = [], schedule = [], tx = []\<rparr>) (work (\<lambda>_. 0) (work (\<lambda>_. 0) silent_worker))"
    unfolding silent_worker_def
    by (meson r_into_rtranclp rtranclp.rtrancl_into_rtrancl worker_works)
  from worker_flow_control [OF this] show ?thesis
    by (simp add: work_def work_send_def silent_worker_def new_QueueWorker_def idle_device_def)
qed

theorem worker_use_after_free_witness:
  "wk_pc (work (\<lambda>_. 0) (silent_worker\<lparr>wk_pc := At_receive, wk_in_progress := 1\<rparr>)) = Died Use_after_free \<and>
   wk_pc (work (\<lambda>_. 0) (unregister silent_worker)) = Died Use_after_free"
  using worker_use_after_free [of "silent_worker\<lparr>wk_pc := At_receive, wk_in_progress := 1\<rparr>" "\<lambda>_. 0"
      "\<lparr>rx = [], schedule = [], tx = []\<rparr>"]
    worker_use_after_free [of silent_worker "\<lambda>_. 0" "\<lparr>rx = [], schedule = [], tx = []\<rparr>"]
  by (simp add: silent_worker_def new_QueueWorker_def silent_line)

end
