(* ===== verification/Session_Race.thy ===== *)
theory Session_Race
  imports Ambe_Device
begin

text \<open>
  \<^verbatim>\<open>Device::startSession\<close> of \<^verbatim>\<open>src/modules/ambe3k/ambe3kdevice.cpp\<close> as two threads run it at once. The
  code asks a channel whether it is busy and then reserves it, without a lock: the function is split
  there, and composed again it is the function of \<^verbatim>\<open>Ambe_Device\<close>.
\<close>

section \<open>The two halves\<close>

definition startSession_find :: "ambe_device \<Rightarrow> nat option" where
  "startSession_find d = first_free 0 (dv_channels d)"

definition startSession_take ::
  "(nat \<Rightarrow> short) \<Rightarrow> settings \<Rightarrow> nat \<Rightarrow> (ambe_device, nat option) operation" where
  "startSession_take uninit settings i d =
     (case on_channel i (renegotiate uninit settings) (set_channel i reserve d) of
        (Inr _, d') \<Rightarrow> (Inr (Some i), d')
      | (Inl e, d') \<Rightarrow>
          if e = Raise Invalid_argument then (Inr None, set_channel i release d')
          else (Inl e, d'))"

lemma startSession_halves:
  "device_startSession uninit st d =
     (case startSession_find d of None \<Rightarrow> (Inr None, d) | Some i \<Rightarrow> startSession_take uninit st i d)"
  by (simp add: device_startSession_def startSession_find_def startSession_take_def split: option.split)

lemma startSession_take_Some:
  assumes "startSession_take uninit st i d = (Inr (Some j), d')"
  shows "j = i" "on_channel i (renegotiate uninit st) (set_channel i reserve d) = (Inr (), d')"
  using assms
  by (auto simp: startSession_take_def split: prod.splits sum.splits if_splits)

lemma startSession_take_busy:
  assumes "startSession_take uninit st i d = (Inr (Some j), d')" "i < length (dv_channels d)"
  shows "isBusy (dv_channels d' ! i)" "length (dv_channels d') = length (dv_channels d)"
  using on_channel_renegotiate_busy [OF startSession_take_Some(2) [OF assms(1)]] assms(2)
  by (simp_all add: set_channel_nth)

section \<open>The race\<close>

text \<open>C22: Two clients that look for a channel before either reserves it get the same channel, where one
  after the other they would get different ones. Whoever of them ends its session first takes the
  channel from the other: it is free for a third client, and what the chip sends on it is dropped.\<close>

theorem startSession_race:
  assumes "startSession_find d = Some i" "startSession_take u st i d = (Inr (Some j), d1)"
    and "startSession_take u' st' i d1 = (Inr (Some k), d2)"
  shows "device_startSession u st d = (Inr (Some i), d1) \<and> j = k \<and>
    (\<forall>l d'. device_startSession u' st' d1 = (Inr (Some l), d') \<longrightarrow> l \<noteq> i) \<and>
    startSession_find (set_channel i release d2) = Some i \<and>
    set_channel i (channel_receive p) (set_channel i release d2) = set_channel i release d2"
proof -
  have i: "i < length (dv_channels d)" "\<not> isBusy (dv_channels d ! i)"
    using first_free_0 assms(1) by (simp_all add: startSession_find_def)
  note busy1 = startSession_take_busy [OF assms(2) i(1)]
  note busy2 = startSession_take_busy [OF assms(3)]
  have jk: "j = i" "k = i" using startSession_take_Some(1) assms(2,3) by blast+
  have "device_startSession u st d = (Inr (Some i), d1)"
    using assms(1,2) jk by (simp add: startSession_halves)
  moreover have "l \<noteq> i" if "device_startSession u' st' d1 = (Inr (Some l), d')" for l d'
  proof -
    from that obtain m where m: "startSession_find d1 = Some m" "startSession_take u' st' m d1 = (Inr (Some l), d')"
      by (auto simp: startSession_halves split: option.splits)
    have "\<not> isBusy (dv_channels d1 ! m)"
      using first_free_0 m(1) by (simp add: startSession_find_def)
    then show ?thesis using startSession_take_Some(1) [OF m(2)] busy1(1) by auto
  qed
  moreover have "startSession_find (set_channel i release d2) = Some i"
  proof -
    have other: "dv_channels d2 ! m = dv_channels d ! m" if "m < i" for m
      using on_channel_other [OF startSession_take_Some(2) [OF assms(2)], of m]
        on_channel_other [OF startSession_take_Some(2) [OF assms(3)], of m] that
      by (simp add: set_channel_nth)
    have "first_free 0 (dv_channels (set_channel i release d2)) = Some (0 + i)"
    proof (rule first_free_least)
      show "isBusy (dv_channels (set_channel i release d2) ! m)" if "m < i" for m
        using first_free_Some [of 0 "dv_channels d" i] assms(1) other that
        by (simp add: startSession_find_def set_channel_nth)
    qed (use i busy1(2) busy2 in \<open>simp_all add: set_channel_nth\<close>)
    then show ?thesis by (simp add: startSession_find_def)
  qed
  moreover have "set_channel i (channel_receive p) (set_channel i release d2) = set_channel i release d2"
    using i busy1(2) busy2 by (simp add: set_channel_def channel_receive_def release_def)
  ultimately show ?thesis using jk by blast
qed

theorem startSession_race_witness:
  "\<exists>d1 d2. startSession_take (\<lambda>_. 0) no_settings 0 (idle_device (ascii ''AMBE3003F'')) = (Inr (Some 0), d1) \<and>
     startSession_take (\<lambda>_. 0) no_settings 0 d1 = (Inr (Some 0), d2) \<and>
     (\<forall>l d'. device_startSession (\<lambda>_. 0) no_settings d1 = (Inr (Some l), d') \<longrightarrow> l \<noteq> 0) \<and>
     startSession_find (set_channel 0 release d2) = Some 0"
proof -
  have "renegotiate (\<lambda>_. 0) no_settings s = (Inr (), s)" for s
    by (simp add: renegotiate_def no_settings_def)
  then have take: "startSession_take (\<lambda>_. 0) no_settings 0 d = (Inr (Some 0), set_channel 0 reserve d)" for d
    by (simp add: startSession_take_def on_channel_def)
  have "startSession_find (idle_device (ascii ''AMBE3003F'')) = Some 0"
    by (simp add: startSession_find_def first_free_idle)
  from startSession_race [OF this take take] take show ?thesis by blast
qed

end
