(* ===== verification/Connection.thy ===== *)
theory Connection
  imports Ambe_Session
begin

text \<open>
  \<^verbatim>\<open>Connection\<close> of \<^verbatim>\<open>src/lib/connection.cpp\<close>: messages over a socket, each a length and a
  protobuf \<^verbatim>\<open>Any\<close>.

  The protobuf library is a parameter of the model, the record \<open>protobuf\<close> of the functions of it
  that the code calls; \<open>protobuf_ok\<close> is what its documentation promises of them. The stream of a
  socket is the list of the bytes that are still to be read from it. \<^verbatim>\<open>poll\<close> and the results of
  sending come from schedules: a call of \<^verbatim>\<open>poll\<close> fails, reports an error, reports data, reports
  nothing within its time, or finds that the connection was closed meanwhile.
\<close>

section \<open>Messages\<close>

text \<open>The messages of \<^verbatim>\<open>src/proto/*.proto\<close>; an \<^verbatim>\<open>Any\<close> holds one of them or something unknown.\<close>

datatype status = Status_OK | Status_ERROR

record response =
  rs_result :: status
  rs_message :: string
  rs_framing :: "framing_hint option"

datatype message =
    Handshake string string "32 word"
  | Request string settings
  | Check string
  | Renegotiation settings
  | Response response
  | ChannelData bytes
  | SpeechData bytes
  | Unknown_type

section \<open>The protobuf library\<close>

text \<open>
  \<open>'c\<close> is a \<^verbatim>\<open>CodedInputStream\<close>: \<open>pb_open\<close> makes one on what the socket's stream has left, and
  \<open>pb_close\<close> gives back what it has not read. Parsing and merging return whether they succeeded,
  with what they have read so far.
\<close>

record 'c protobuf =
  pb_serialize :: "message \<Rightarrow> bytes"
  pb_varint :: "nat \<Rightarrow> bytes"
  pb_open :: "bytes \<Rightarrow> 'c"
  pb_read_varint :: "'c \<Rightarrow> nat option \<times> 'c"
  pb_push_limit :: "nat \<Rightarrow> 'c \<Rightarrow> 'c"
  pb_parse :: "'c \<Rightarrow> bool \<times> message \<times> 'c"
  pb_merge :: "message \<Rightarrow> 'c \<Rightarrow> bool \<times> message \<times> 'c"
  pb_consumed :: "'c \<Rightarrow> bool"
  pb_close :: "'c \<Rightarrow> bytes"

text \<open>
  What the documentation promises for the messages \<open>M\<close>: a varint is read back, the bytes of a
  message parse to the message within a limit of their number, which is less than \<open>2 ^ 64\<close>, no
  message serialises to nothing (it has a type), and there is no varint at the end of the stream.
\<close>

definition protobuf_ok :: "'c protobuf \<Rightarrow> message set \<Rightarrow> bool" where
  "protobuf_ok pb M \<longleftrightarrow>
     (\<forall>n rest. n < 2 ^ 64 \<longrightarrow>
        pb_read_varint pb (pb_open pb (pb_varint pb n @ rest)) = (Some n, pb_open pb rest)) \<and>
     (\<forall>m \<in> M. \<forall>rest. \<exists>c. pb_parse pb (pb_push_limit pb (length (pb_serialize pb m))
                      (pb_open pb (pb_serialize pb m @ rest))) = (True, m, c) \<and> pb_close pb c = rest) \<and>
     (\<forall>m \<in> M. pb_serialize pb m \<noteq> [] \<and> length (pb_serialize pb m) < 2 ^ 64) \<and>
     fst (pb_read_varint pb (pb_open pb [])) = None"

lemma protobuf_ok_mono: "protobuf_ok pb M \<Longrightarrow> N \<subseteq> M \<Longrightarrow> protobuf_ok pb N"
  by (simp add: protobuf_ok_def subset_iff)

section \<open>Connections\<close>

datatype poll_event = Poll_failed | Poll_revents bool bool | Closed_meanwhile

record connection =
  cn_sock :: int
  cn_stream :: "bytes option"
  cn_polls :: "poll_event list"   \<comment> \<open>what the coming calls of \<^verbatim>\<open>poll\<close> meet\<close>
  cn_sends :: "(bool \<times> nat) list"   \<comment> \<open>what the coming sends report, and how much they write\<close>
  cn_out :: bytes                 \<comment> \<open>what has been written to the socket\<close>

definition new_Connection :: "int \<Rightarrow> bytes \<Rightarrow> poll_event list \<Rightarrow> (bool \<times> nat) list \<Rightarrow> connection" where
  "new_Connection sock incoming polls sends =
     \<lparr>cn_sock = sock, cn_stream = Some incoming, cn_polls = polls, cn_sends = sends, cn_out = []\<rparr>"

definition close_connection :: "connection \<Rightarrow> connection" where
  "close_connection cn = cn\<lparr>cn_sock := - 1, cn_stream := None\<rparr>"

text \<open>
  Serialising goes into a buffer, which is written when it is full and when the stream is deleted
  at the end; what \<^verbatim>\<open>SerializeToCodedStream\<close> has reported by then says nothing about the last write.
  When the schedule is exhausted sends report success and write everything.
\<close>

definition sendMessage :: "'c protobuf \<Rightarrow> message \<Rightarrow> connection \<Rightarrow> bool \<times> connection" where
  "sendMessage pb m cn =
     (let any = pb_serialize pb m;
          bytes = pb_varint pb (length any) @ any;
          (rc, written) = (case cn_sends cn of [] \<Rightarrow> (True, length bytes) | r # _ \<Rightarrow> r) in
      (rc, cn\<lparr>cn_sends := tl (cn_sends cn), cn_out := cn_out cn @ take written bytes\<rparr>))"

text \<open>
  The loop around \<^verbatim>\<open>poll\<close>: \<open>Inr False\<close> is the return of the null pointer, \<open>Inr True\<close> the end of
  the loop. It waits when the schedule is exhausted.
\<close>

fun poll_loop :: "int \<Rightarrow> poll_event list \<Rightarrow> error + bool \<times> bool \<times> poll_event list" where
  "poll_loop sock polls =
     (if sock = - 1 then Inr (True, True, polls)
      else case polls of
          [] \<Rightarrow> Inl Waits
        | Poll_failed # polls \<Rightarrow> Inr (False, False, polls)
        | Closed_meanwhile # polls \<Rightarrow> Inr (True, True, polls)
        | Poll_revents err inn # polls \<Rightarrow>
            if err then Inr (False, False, polls)
            else if inn then Inr (True, False, polls)
            else poll_loop sock polls)"

declare poll_loop.simps [simp del]

text \<open>
  The loop that merges after a parse that failed. It need not end: it is a partial function, and
  \<open>None\<close> says that it runs forever.
\<close>

partial_function (option) merge_loop ::
  "'c protobuf \<Rightarrow> bool \<Rightarrow> message \<Rightarrow> 'c \<Rightarrow> (bool \<times> message \<times> 'c) option" where
  "merge_loop pb rc any c =
     (if rc \<or> pb_consumed pb c then Some (rc, any, c)
      else case pb_merge pb any c of (rc, any, c) \<Rightarrow> merge_loop pb rc any c)"

definition receive_body ::
  "'c protobuf \<Rightarrow> connection \<Rightarrow> bytes \<Rightarrow> (message option \<times> connection) option" where
  "receive_body pb cn stream =
     (case pb_read_varint pb (pb_open pb stream) of
        (None, c) \<Rightarrow> Some (None, cn\<lparr>cn_stream := Some (pb_close pb c)\<rparr>)
      | (Some sz, c) \<Rightarrow>
          if sz = 0 then Some (None, cn\<lparr>cn_stream := Some (pb_close pb c)\<rparr>)
          else (case pb_parse pb (pb_push_limit pb sz c) of (rc, any, c) \<Rightarrow>
            (case merge_loop pb rc any c of
               None \<Rightarrow> None
             | Some (rc, any, c) \<Rightarrow>
                 Some (if rc then Some any else None, cn\<lparr>cn_stream := Some (pb_close pb c)\<rparr>))))"

definition receiveMessage ::
  "'c protobuf \<Rightarrow> connection \<Rightarrow> ((error + message option) \<times> connection) option" where
  "receiveMessage pb cn =
     (case poll_loop (cn_sock cn) (cn_polls cn) of
        Inl e \<Rightarrow> Some (Inl e, cn)
      | Inr (data, closed, polls) \<Rightarrow>
          (let cn = (if closed then close_connection cn else cn)\<lparr>cn_polls := polls\<rparr> in
           if \<not> data then Some (Inr None, cn)
           else (case cn_stream cn of
               None \<Rightarrow> Some (Inr None, cn)
             | Some stream \<Rightarrow>
                 map_option (\<lambda>(m, cn). (Inr m, cn)) (receive_body pb cn stream))))"

definition sendChannelData :: "'c protobuf \<Rightarrow> bytes \<Rightarrow> connection \<Rightarrow> bool \<times> connection" where
  "sendChannelData pb bs = sendMessage pb (ChannelData bs)"

definition sendSpeechData :: "'c protobuf \<Rightarrow> bytes \<Rightarrow> connection \<Rightarrow> bool \<times> connection" where
  "sendSpeechData pb bs = sendMessage pb (SpeechData bs)"

definition PROTOCOL_VERSION :: "32 word" where
  "PROTOCOL_VERSION = 1"

definition isCompatible :: "32 word \<Rightarrow> bool" where
  "isCompatible protocolVersion =
     (if PROTOCOL_VERSION = 1 \<and> (protocolVersion = 0 \<or> protocolVersion = 1) then True
      else protocolVersion = PROTOCOL_VERSION)"

section \<open>What one side sends the other receives\<close>

lemma merge_loop_done [simp]: "merge_loop pb True any c = Some (True, any, c)"
  by (subst merge_loop.simps) simp

lemma poll_loop_skips:
  "sock \<noteq> - 1 \<Longrightarrow> poll_loop sock (replicate k (Poll_revents False False) @ Poll_revents False True # polls) =
     Inr (True, False, polls)"
  by (induction k) (subst poll_loop.simps; simp)+

lemma receive_sent:
  assumes "protobuf_ok pb M" "m \<in> M"
    and "cn_sock cn \<noteq> - 1" "cn_polls cn = replicate k (Poll_revents False False) @ Poll_revents False True # polls"
    and "cn_stream cn = Some (pb_varint pb (length (pb_serialize pb m)) @ pb_serialize pb m @ rest)"
  shows "receiveMessage pb cn = Some (Inr (Some m), cn\<lparr>cn_polls := polls, cn_stream := Some rest\<rparr>)"
proof -
  let ?b = "pb_serialize pb m"
  have varint: "pb_read_varint pb (pb_open pb (pb_varint pb (length ?b) @ ?b @ rest)) =
      (Some (length ?b), pb_open pb (?b @ rest))"
    and ne: "?b \<noteq> []"
    using assms(1,2) by (auto simp: protobuf_ok_def)
  obtain c where parse: "pb_parse pb (pb_push_limit pb (length ?b) (pb_open pb (?b @ rest))) = (True, m, c)"
    "pb_close pb c = rest"
    using assms(1,2) unfolding protobuf_ok_def by blast
  have "receive_body pb (cn\<lparr>cn_polls := polls\<rparr>) (pb_varint pb (length ?b) @ ?b @ rest) =
      Some (Some m, cn\<lparr>cn_polls := polls, cn_stream := Some rest\<rparr>)"
    using ne by (simp add: receive_body_def varint parse)
  with assms(3-5) show ?thesis
    by (simp add: receiveMessage_def poll_loop_skips)
qed

primrec send_all :: "'c protobuf \<Rightarrow> message list \<Rightarrow> connection \<Rightarrow> connection" where
  "send_all pb [] cn = cn"
| "send_all pb (m # ms) cn = send_all pb ms (snd (sendMessage pb m cn))"

primrec receive_all ::
  "'c protobuf \<Rightarrow> nat \<Rightarrow> connection \<Rightarrow> ((error + message option) list \<times> connection) option" where
  "receive_all pb 0 cn = Some ([], cn)"
| "receive_all pb (Suc n) cn =
     (case receiveMessage pb cn of
        None \<Rightarrow> None
      | Some (r, cn) \<Rightarrow> map_option (\<lambda>(rs, cn). (r # rs, cn)) (receive_all pb n cn))"

text \<open>For every message some polls that time out, and one that reports data.\<close>

definition ready_polls :: "nat list \<Rightarrow> poll_event list" where
  "ready_polls ks = concat (map (\<lambda>k. replicate k (Poll_revents False False) @ [Poll_revents False True]) ks)"

definition wire :: "'c protobuf \<Rightarrow> message list \<Rightarrow> bytes" where
  "wire pb ms = concat (map (\<lambda>m. pb_varint pb (length (pb_serialize pb m)) @ pb_serialize pb m) ms)"

lemma send_all_wire: "cn_sends cn = [] \<Longrightarrow> cn_out (send_all pb ms cn) = cn_out cn @ wire pb ms"
  by (induction ms arbitrary: cn) (simp_all add: sendMessage_def Let_def wire_def)

lemma receive_all_wire:
  assumes "protobuf_ok pb M" "set ms \<subseteq> M" "length ks = length ms"
    and "cn_sock cn \<noteq> - 1" "cn_polls cn = ready_polls ks @ polls" "cn_stream cn = Some (wire pb ms @ rest)"
  shows "receive_all pb (length ms) cn =
    Some (map (\<lambda>m. Inr (Some m)) ms, cn\<lparr>cn_polls := polls, cn_stream := Some rest\<rparr>)"
  using assms(2-)
proof (induction ms arbitrary: ks cn)
  case Nil
  then show ?case by (simp add: ready_polls_def wire_def)
next
  case (Cons m ms)
  then obtain k ks' where ks: "ks = k # ks'" by (cases ks) auto
  have "receiveMessage pb cn =
      Some (Inr (Some m), cn\<lparr>cn_polls := ready_polls ks' @ polls, cn_stream := Some (wire pb ms @ rest)\<rparr>)"
    by (rule receive_sent [OF assms(1), where k = k])
      (use Cons.prems in \<open>simp_all add: ks ready_polls_def wire_def\<close>)
  with Cons.prems Cons.IH [of ks' "cn\<lparr>cn_polls := ready_polls ks' @ polls, cn_stream := Some (wire pb ms @ rest)\<rparr>"]
  show ?case by (simp add: ks)
qed

text \<open>Given what the protobuf library promises, the messages that one side sends on a connection
  are the messages that the other side receives, in order, however often \<^verbatim>\<open>poll\<close> times out in
  between; then, at the end of the stream, there is none.\<close>

theorem messages_roundtrip:
  assumes "protobuf_ok pb (set ms)" "length ks = length ms"
    and "a \<noteq> - 1" "b \<noteq> - 1"
  shows "\<exists>cn. receive_all pb (length ms)
      (new_Connection b (cn_out (send_all pb ms (new_Connection a [] [] [])))
        (ready_polls ks @ [Poll_revents False True]) []) = Some (map (\<lambda>m. Inr (Some m)) ms, cn) \<and>
    map_option fst (receiveMessage pb cn) = Some (Inr None)"
proof -
  let ?cn = "new_Connection b (wire pb ms) (ready_polls ks @ [Poll_revents False True]) []"
  have out: "cn_out (send_all pb ms (new_Connection a [] [] [])) = wire pb ms"
    by (simp add: send_all_wire new_Connection_def)
  have "receive_all pb (length ms) ?cn = Some (map (\<lambda>m. Inr (Some m)) ms,
      ?cn\<lparr>cn_polls := [Poll_revents False True], cn_stream := Some []\<rparr>)"
    by (rule receive_all_wire [OF assms(1) subset_refl assms(2)]) (use assms(4) in \<open>simp_all add: new_Connection_def\<close>)
  moreover have "map_option fst (receiveMessage pb
      (?cn\<lparr>cn_polls := [Poll_revents False True], cn_stream := Some []\<rparr>)) = Some (Inr None)"
  proof -
    obtain c where "pb_read_varint pb (pb_open pb []) = (None, c)"
      using assms(1) by (cases "pb_read_varint pb (pb_open pb [])") (simp add: protobuf_ok_def)
    then show ?thesis
      using assms(4) poll_loop_skips [of b 0 "[]"]
      by (simp add: receiveMessage_def new_Connection_def receive_body_def)
  qed
  ultimately show ?thesis unfolding out by blast
qed

text \<open>
  A library that keeps the promises for channel data: a length in unary, and after a byte that
  stands for the type the data themselves; its coded stream is a limit and the bytes behind it.
\<close>

definition unary_protobuf :: "(nat \<times> bytes) protobuf" where
  "unary_protobuf =
     \<lparr>pb_serialize = (\<lambda>m. case m of ChannelData bs \<Rightarrow> 1 # bs | _ \<Rightarrow> [0]),
      pb_varint = (\<lambda>n. replicate n 1 @ [0]),
      pb_open = (\<lambda>bs. (0, bs)),
      pb_read_varint = (\<lambda>(l, bs). let n = length (takeWhile (\<lambda>b. b = 1) bs) in
         if n < length bs then (Some n, (l, drop (Suc n) bs)) else (None, (l, []))),
      pb_push_limit = (\<lambda>n (l, bs). (n, bs)),
      pb_parse = (\<lambda>(l, bs). case take l bs of
         b # data \<Rightarrow> (b = 1, ChannelData data, (0, drop l bs)) | [] \<Rightarrow> (False, Unknown_type, (0, bs))),
      pb_merge = (\<lambda>m (l, bs). (False, m, (l, tl bs))),
      pb_consumed = (\<lambda>(l, bs). bs = []),
      pb_close = snd\<rparr>"

lemma unary_protobuf_ok:
  "protobuf_ok unary_protobuf {ChannelData bs | bs. length bs < 100}"
proof -
  have tw: "takeWhile (\<lambda>b. b = 1) (replicate n 1 @ 0 # rest) = replicate n (1 :: byte)" for n rest
    by (induction n) auto
  have "pb_read_varint unary_protobuf (pb_open unary_protobuf (pb_varint unary_protobuf n @ rest)) =
      (Some n, pb_open unary_protobuf rest)" for n rest
    by (simp add: unary_protobuf_def tw)
  then show ?thesis
    by (auto simp: protobuf_ok_def) (simp_all add: unary_protobuf_def)
qed

theorem messages_roundtrip_witness:
  "\<exists>cn. receive_all unary_protobuf 2
      (new_Connection 5 (cn_out (send_all unary_protobuf [ChannelData [7], ChannelData []] (new_Connection 4 [] [] [])))
        (ready_polls [2, 0] @ [Poll_revents False True]) []) =
      Some ([Inr (Some (ChannelData [7])), Inr (Some (ChannelData []))], cn)"
proof -
  have ok: "protobuf_ok unary_protobuf (set [ChannelData [7], ChannelData []])"
    by (rule protobuf_ok_mono [OF unary_protobuf_ok]) simp
  have len: "length [2, 0 :: nat] = length [ChannelData [7], ChannelData []]"
    "length [ChannelData [7], ChannelData []] = 2" by simp_all
  have "(4 :: int) \<noteq> - 1" "(5 :: int) \<noteq> - 1" by simp_all
  from messages_roundtrip [OF ok len(1) this] show ?thesis
    unfolding len(2) list.map by (elim exE conjE) (rule exI)
qed

section \<open>Receiving ends\<close>



end
