(* ===== verification/Std_Map.thy ===== *)
theory Std_Map
  imports "HOL-Library.List_Lexorder" "HOL-Library.Char_ord" Prelude
begin

text \<open>
  \<^verbatim>\<open>std::map\<close>. The locale \<open>ordered_map\<close> is what the program relies on: lookup after an
  assignment, and iteration in the order of the keys. Its clients (the configuration, the
  registries) are proved from these laws. The implementation that the model computes with is a
  sorted association list; strings are ordered lexicographically by their character codes, as
  \<^verbatim>\<open>std::string\<close> is.
\<close>

section \<open>The interface\<close>

locale ordered_map =
  fixes lookup :: "'m \<Rightarrow> 'k::linorder \<Rightarrow> 'v option"
    and assign :: "'k \<Rightarrow> 'v \<Rightarrow> 'm \<Rightarrow> 'm"
    and keys :: "'m \<Rightarrow> 'k list"
    and emp :: 'm
    and valid :: "'m \<Rightarrow> bool"
  assumes valid_emp: "valid emp"
    and valid_assign: "valid m \<Longrightarrow> valid (assign k v m)"
    and lookup_emp: "lookup emp k = None"
    and lookup_assign: "valid m \<Longrightarrow> lookup (assign k v m) = (lookup m)(k \<mapsto> v)"
    and keys_sorted: "valid m \<Longrightarrow> sorted (keys m) \<and> distinct (keys m)"
    and keys_dom: "valid m \<Longrightarrow> set (keys m) = dom (lookup m)"
begin

definition assign_all :: "('k \<times> 'v) list \<Rightarrow> 'm \<Rightarrow> 'm" where
  "assign_all kvs m = fold (\<lambda>(k, v). assign k v) kvs m"

lemma assign_all_simps [simp]:
  "assign_all [] m = m"
  "assign_all ((k, v) # kvs) m = assign_all kvs (assign k v m)"
  by (simp_all add: assign_all_def)

lemma valid_assign_all: "valid m \<Longrightarrow> valid (assign_all kvs m)"
  by (induction kvs arbitrary: m) (auto simp: valid_assign)

text \<open>Of several assignments to a key the last one counts.\<close>

lemma lookup_assign_all: "valid m \<Longrightarrow> lookup (assign_all kvs m) = lookup m ++ map_of (rev kvs)"
proof (induction kvs arbitrary: m)
  case (Cons kv kvs)
  then show ?case
    by (cases kv) (auto simp: valid_assign lookup_assign map_add_def fun_eq_iff split: option.split)
qed simp

lemma lookup_assign_all_emp: "lookup (assign_all kvs emp) = map_of (rev kvs)"
  by (rule ext) (simp add: lookup_assign_all [OF valid_emp] map_add_def lookup_emp split: option.split)

text \<open>Iteration yields the defined keys in increasing order, whatever order they were assigned in.\<close>

lemma keys_sorted_list_of_set: "valid m \<Longrightarrow> keys m = sorted_list_of_set (dom (lookup m))"
  using keys_sorted keys_dom by (metis sorted_list_of_set.idem_if_sorted_distinct)

end

section \<open>Sorted association lists\<close>

type_synonym ('k, 'v) assoc_map = "('k \<times> 'v) list"

text \<open>A section of the configuration, which devices, drivers and servers are set up from.\<close>

type_synonym section_map = "(string, string) assoc_map"

fun map_put :: "'k::linorder \<Rightarrow> 'v \<Rightarrow> ('k, 'v) assoc_map \<Rightarrow> ('k, 'v) assoc_map" where
  "map_put k v [] = [(k, v)]"
| "map_put k v ((k', v') # m) =
     (if k < k' then (k, v) # (k', v') # m
      else if k = k' then (k, v) # m
      else (k', v') # map_put k v m)"

definition map_get :: "('k, 'v) assoc_map \<Rightarrow> 'k \<Rightarrow> 'v option" where
  "map_get = map_of"

definition map_keys :: "('k, 'v) assoc_map \<Rightarrow> 'k list" where
  "map_keys m = map fst m"

definition map_valid :: "('k::linorder, 'v) assoc_map \<Rightarrow> bool" where
  "map_valid m \<longleftrightarrow> sorted_wrt (<) (map fst m)"

lemma map_valid_Nil [simp]: "map_valid []"
  by (simp add: map_valid_def)

lemma set_map_put: "fst ` set (map_put k v m) = insert k (fst ` set m)"
  by (induction k v m rule: map_put.induct) auto

lemma map_valid_put: "map_valid m \<Longrightarrow> map_valid (map_put k v m)"
  unfolding map_valid_def
proof (induction k v m rule: map_put.induct)
  case (2 k v k' v' m)
  then show ?case
    using set_map_put [of k v m] by (auto simp: image_iff)
qed simp

lemma map_get_put: "map_valid m \<Longrightarrow> map_get (map_put k v m) = (map_get m)(k \<mapsto> v)"
  unfolding map_get_def map_valid_def
  by (induction k v m rule: map_put.induct) (auto simp: fun_eq_iff dest!: weak_map_of_SomeI)

interpretation std_map: ordered_map map_get map_put map_keys "[]" map_valid
proof unfold_locales
  fix m :: "('a::linorder, 'b) assoc_map"
  assume "map_valid m"
  then show "sorted (map_keys m) \<and> distinct (map_keys m)"
    by (simp add: map_valid_def map_keys_def strict_sorted_iff)
qed (auto simp: map_valid_put map_get_put [unfolded map_get_def] map_keys_def map_get_def dom_map_of_conv_image_fst map_valid_Nil)

text \<open>\<^verbatim>\<open>m[k]\<close>: an absent key gets the default value.\<close>

definition map_index :: "'v \<Rightarrow> 'k::linorder \<Rightarrow> ('k, 'v) assoc_map \<Rightarrow> 'v \<times> ('k, 'v) assoc_map" where
  "map_index dflt k m =
     (case map_get m k of Some v \<Rightarrow> (v, m) | None \<Rightarrow> (dflt, map_put k dflt m))"

end
