(* ===== verification/Device_Registry.thy ===== *)
theory Device_Registry
  imports Std_Map
begin

text \<open>
  \<^verbatim>\<open>CodecServer::Registry\<close> of \<^verbatim>\<open>src/lib/registry.cpp\<close>: the drivers by name and, for every codec,
  the devices that offer it. A device is its address. A driver is the record of its virtual
  functions (\<^verbatim>\<open>src/include/driver.hpp\<close>), which work on a state \<open>'w\<close> of their own; \<^verbatim>\<open>getCodecs\<close> of
  the devices is a parameter. Log output is not modelled.
\<close>

type_synonym dev = nat

section \<open>State\<close>

record 'w driver =
  dr_identifier :: string
  dr_configure :: "section_map \<Rightarrow> 'w \<Rightarrow> 'w"
  dr_scan :: "'w \<Rightarrow> dev list \<times> 'w"
  dr_build :: "section_map \<Rightarrow> ('w, dev option) operation"

text \<open>The default implementations of \<^verbatim>\<open>configure\<close> and \<^verbatim>\<open>scanForDevices\<close>.\<close>

definition Driver_default :: "string \<Rightarrow> (section_map \<Rightarrow> ('w, dev option) operation) \<Rightarrow> 'w driver" where
  "Driver_default ident build =
     \<lparr>dr_identifier = ident, dr_configure = (\<lambda>_ w. w), dr_scan = (\<lambda>w. ([], w)), dr_build = build\<rparr>"

record 'w registry =
  rg_drivers :: "(string, 'w driver) assoc_map"
  rg_devices :: "(string, dev list) assoc_map"
  rg_world :: 'w
  rg_deleted :: "dev list"   \<comment> \<open>history: the calls of \<^verbatim>\<open>delete\<close>\<close>

definition new_Registry :: "'w \<Rightarrow> 'w registry" where
  "new_Registry w = \<lparr>rg_drivers = [], rg_devices = [], rg_world = w, rg_deleted = []\<rparr>"

section \<open>Operations\<close>

definition registerDriver :: "'w driver \<Rightarrow> 'w registry \<Rightarrow> int \<times> 'w registry" where
  "registerDriver driver r =
     (if map_get (rg_drivers r) (dr_identifier driver) \<noteq> None then (- 1, r)
      else (0, r\<lparr>rg_drivers := map_put (dr_identifier driver) driver (rg_drivers r)\<rparr>))"

definition configureDriver :: "string \<Rightarrow> section_map \<Rightarrow> 'w registry \<Rightarrow> 'w registry" where
  "configureDriver name config r =
     (case map_get (rg_drivers r) name of
        None \<Rightarrow> r
      | Some driver \<Rightarrow> r\<lparr>rg_world := dr_configure driver config (rg_world r)\<rparr>)"

definition push_device :: "dev \<Rightarrow> string \<Rightarrow> 'w registry \<Rightarrow> 'w registry" where
  "push_device device codec r =
     (case map_index [] codec (rg_devices r) of (vec, m) \<Rightarrow>
        r\<lparr>rg_devices := map_put codec (vec @ [device]) m\<rparr>)"

definition registerDevice :: "(dev \<Rightarrow> string list) \<Rightarrow> dev \<Rightarrow> 'w registry \<Rightarrow> 'w registry" where
  "registerDevice codecs device r = fold (push_device device) (codecs device) r"

definition scan_driver :: "(dev \<Rightarrow> string list) \<Rightarrow> 'w driver \<Rightarrow> 'w registry \<Rightarrow> 'w registry" where
  "scan_driver codecs driver r =
     (case dr_scan driver (rg_world r) of (devices, w) \<Rightarrow>
        fold (registerDevice codecs) devices (r\<lparr>rg_world := w\<rparr>))"

definition autoDetectDevices :: "(dev \<Rightarrow> string list) \<Rightarrow> 'w registry \<Rightarrow> 'w registry" where
  "autoDetectDevices codecs r = fold (scan_driver codecs) (map snd (rg_drivers r)) r"

definition is_DeviceException :: "error \<Rightarrow> bool" where
  "is_DeviceException e = (case e of Raise (Device_exception m) \<Rightarrow> True | _ \<Rightarrow> False)"

definition loadDeviceFromConfig ::
  "(dev \<Rightarrow> string list) \<Rightarrow> section_map \<Rightarrow> ('w registry, unit) operation" where
  "loadDeviceFromConfig codecs config r =
     (case map_get config ''driver'' of
        None \<Rightarrow> (Inr (), r)
      | Some name \<Rightarrow>
          (case map_get (rg_drivers r) name of
             None \<Rightarrow> (Inr (), r)
           | Some driver \<Rightarrow>
               (case dr_build driver config (rg_world r) of
                  (Inr device, w) \<Rightarrow>
                    (Inr (), case device of
                       Some d \<Rightarrow> registerDevice codecs d (r\<lparr>rg_world := w\<rparr>)
                     | None \<Rightarrow> r\<lparr>rg_world := w\<rparr>)
                | (Inl e, w) \<Rightarrow>
                    (if is_DeviceException e then Inr () else Inl e, r\<lparr>rg_world := w\<rparr>))))"

text \<open>The loop of \<^verbatim>\<open>unregisterDevice\<close> over the codecs; \<^verbatim>\<open>erase\<close> removes the first occurrence.\<close>

fun erase_device :: "dev \<Rightarrow> (string, dev list) assoc_map \<Rightarrow> (string, dev list) assoc_map \<times> dev list" where
  "erase_device device [] = ([], [])"
| "erase_device device ((codec, vec) # m) =
     (case erase_device device m of (m', deleted) \<Rightarrow>
        if device \<in> set vec then ((codec, remove1 device vec) # m', device # deleted)
        else ((codec, vec) # m', deleted))"

definition unregisterDevice :: "dev \<Rightarrow> 'w registry \<Rightarrow> 'w registry" where
  "unregisterDevice device r =
     (case erase_device device (rg_devices r) of (m, deleted) \<Rightarrow>
        r\<lparr>rg_devices := m, rg_deleted := rg_deleted r @ deleted\<rparr>)"

definition findDevices :: "string \<Rightarrow> 'w registry \<Rightarrow> dev list \<times> 'w registry" where
  "findDevices identifier r =
     (case map_index [] identifier (rg_devices r) of (vec, m) \<Rightarrow> (vec, r\<lparr>rg_devices := m\<rparr>))"

section \<open>What the registry promises\<close>

text \<open>The abstract state: the devices of every codec.\<close>

definition devices_of :: "'w registry \<Rightarrow> string \<Rightarrow> dev list" where
  "devices_of r codec = (case map_get (rg_devices r) codec of None \<Rightarrow> [] | Some vec \<Rightarrow> vec)"

definition registry_ok :: "'w registry \<Rightarrow> bool" where
  "registry_ok r \<longleftrightarrow> map_valid (rg_drivers r) \<and> map_valid (rg_devices r)"

lemma map_index_valid: "map_valid m \<Longrightarrow> map_valid (snd (map_index d k m))"
  by (simp add: map_index_def std_map.valid_assign split: option.split)

lemma push_device_ok: "registry_ok r \<Longrightarrow> registry_ok (push_device d c r)"
  using map_index_valid [of "rg_devices r" "[]" c]
  by (auto simp: push_device_def registry_ok_def std_map.valid_assign split: prod.splits)

lemma push_device_devices:
  "registry_ok r \<Longrightarrow> devices_of (push_device d c r) = (devices_of r)(c := devices_of r c @ [d])"
  by (auto simp: push_device_def devices_of_def map_index_def registry_ok_def fun_eq_iff
      std_map.lookup_assign std_map.valid_assign split: option.split)

lemma registerDevice_devices:
  assumes "registry_ok r" "distinct (codecs d)"
  shows "registry_ok (registerDevice codecs d r) \<and>
    devices_of (registerDevice codecs d r) c = devices_of r c @ (if c \<in> set (codecs d) then [d] else [])"
proof -
  have *: "registry_ok (fold (push_device d) cs r) \<and>
    devices_of (fold (push_device d) cs r) c = devices_of r c @ (if c \<in> set cs then [d] else [])"
    if "registry_ok r" "distinct cs" for cs r
    using that
    by (induction cs arbitrary: r) (auto simp: push_device_ok push_device_devices)
  show ?thesis unfolding registerDevice_def by (rule * [OF assms])
qed

lemma erase_device_keys: "map fst (fst (erase_device d m)) = map fst m"
  by (induction d m rule: erase_device.induct) (auto split: prod.splits)

lemma erase_device_get:
  "map_get (fst (erase_device d m)) c = map_option (remove1 d) (map_get m c)"
  unfolding map_get_def
  by (induction d m rule: erase_device.induct) (auto simp: remove1_idem split: prod.splits)

lemma erase_device_deleted:
  "snd (erase_device d m) = replicate (length (filter (\<lambda>(c, vec). d \<in> set vec) m)) d"
  by (induction d m rule: erase_device.induct) (auto split: prod.splits)

lemma unregisterDevice_devices:
  "registry_ok r \<Longrightarrow> registry_ok (unregisterDevice d r) \<and>
     devices_of (unregisterDevice d r) c = remove1 d (devices_of r c)"
  using erase_device_get [of d "rg_devices r" c] erase_device_keys [of d "rg_devices r"]
  by (auto simp: unregisterDevice_def devices_of_def registry_ok_def map_valid_def
      split: prod.splits option.splits)

lemma findDevices_devices:
  "registry_ok r \<Longrightarrow> registry_ok (snd (findDevices i r)) \<and> devices_of (snd (findDevices i r)) = devices_of r \<and>
     fst (findDevices i r) = devices_of r i"
  by (auto simp: findDevices_def devices_of_def map_index_def registry_ok_def fun_eq_iff
      std_map.lookup_assign std_map.valid_assign split: option.split)

section \<open>Device directories\<close>

text \<open>
  What connections, drivers and workers rely on: for every codec, the devices that have been added
  and not removed since, in the order in which they were added.
\<close>

datatype directory_op = Add dev | Remove dev | Find string

fun directory_spec :: "(dev \<Rightarrow> string list) \<Rightarrow> string \<Rightarrow> directory_op list \<Rightarrow> dev list \<Rightarrow> dev list" where
  "directory_spec codecs c [] ds = ds"
| "directory_spec codecs c (Add d # ops) ds =
     directory_spec codecs c ops (if c \<in> set (codecs d) then ds @ [d] else ds)"
| "directory_spec codecs c (Remove d # ops) ds = directory_spec codecs c ops (remove1 d ds)"
| "directory_spec codecs c (Find i # ops) ds = directory_spec codecs c ops ds"

locale directory =
  fixes devices :: "'r \<Rightarrow> string \<Rightarrow> dev list"
    and add :: "dev \<Rightarrow> 'r \<Rightarrow> 'r"
    and remove :: "dev \<Rightarrow> 'r \<Rightarrow> 'r"
    and search :: "string \<Rightarrow> 'r \<Rightarrow> dev list \<times> 'r"
    and ok :: "'r \<Rightarrow> bool"
    and codecs :: "dev \<Rightarrow> string list"
  assumes add: "ok r \<Longrightarrow> ok (add d r) \<and>
      devices (add d r) c = devices r c @ (if c \<in> set (codecs d) then [d] else [])"
    and remove: "ok r \<Longrightarrow> ok (remove d r) \<and> devices (remove d r) c = remove1 d (devices r c)"
    and search: "ok r \<Longrightarrow> ok (snd (search i r)) \<and> devices (snd (search i r)) = devices r \<and>
      fst (search i r) = devices r i"
begin

fun exec :: "directory_op list \<Rightarrow> 'r \<Rightarrow> 'r" where
  "exec [] r = r"
| "exec (Add d # ops) r = exec ops (add d r)"
| "exec (Remove d # ops) r = exec ops (remove d r)"
| "exec (Find i # ops) r = exec ops (snd (search i r))"

lemma exec_spec:
  "ok r \<Longrightarrow> ok (exec ops r) \<and> devices (exec ops r) c = directory_spec codecs c ops (devices r c)"
  by (induction ops r rule: exec.induct) (auto simp: add remove search)

lemma exec_search: "ok r \<Longrightarrow> fst (search c (exec ops r)) = directory_spec codecs c ops (devices r c)"
  using exec_spec [of r ops] search [of "exec ops r" c] by simp

text \<open>A device that was added once and has been removed is not found any more.\<close>

lemma removed_not_found:
  "ok r \<Longrightarrow> distinct (devices r c) \<Longrightarrow> d \<notin> set (fst (search c (remove d r)))"
  using remove [of r d] search [of "remove d r" c] by simp

end

section \<open>Deletion and loading\<close>

text \<open>\<^verbatim>\<open>unregisterDevice\<close> removes a device from every codec's list and deletes it once for every
  list that had it: a device that is registered is deleted, but one with two codecs is deleted
  twice, and a device that is not registered (any more) is left alone.\<close>

theorem unregister_deletes:
  assumes "registry_ok r"
  shows "rg_deleted (unregisterDevice d r) =
      rg_deleted r @ replicate (card {c. d \<in> set (devices_of r c)}) d \<and>
    devices_of (unregisterDevice d r) c = remove1 d (devices_of r c)"
proof
  let ?m = "rg_devices r"
  have m: "distinct (map fst ?m)"
    using assms by (simp add: registry_ok_def map_valid_def strict_sorted_iff)
  have "{c. d \<in> set (devices_of r c)} = fst ` set (filter (\<lambda>(c, vec). d \<in> set vec) ?m)"
    using m by (force simp: devices_of_def map_get_def split: option.splits dest: map_of_SomeD)
  moreover have "distinct (map fst (filter (\<lambda>(c, vec). d \<in> set vec) ?m))"
    using m by (rule distinct_map_filter)
  ultimately have "card {c. d \<in> set (devices_of r c)} = length (filter (\<lambda>(c, vec). d \<in> set vec) ?m)"
    by (metis distinct_card length_map list.set_map)
  then show "rg_deleted (unregisterDevice d r) =
      rg_deleted r @ replicate (card {c. d \<in> set (devices_of r c)}) d"
    using erase_device_deleted [of d ?m] by (auto simp: unregisterDevice_def split: prod.split)
qed (use unregisterDevice_devices [OF assms] in simp)

theorem unregister_deletes_witness:
  "rg_deleted (unregisterDevice 7 (registerDevice (\<lambda>_. [''a'', ''b'']) 7 (new_Registry ()))) = [7, 7]"
proof -
  let ?r = "registerDevice (\<lambda>_. [''a'', ''b'']) 7 (new_Registry ())"
  have new: "registry_ok (new_Registry ())" "devices_of (new_Registry ()) c = []" for c
    by (simp_all add: registry_ok_def new_Registry_def devices_of_def map_get_def)
  have r: "registry_ok ?r" "devices_of ?r c = (if c = ''a'' \<or> c = ''b'' then [7] else [])" for c
    using registerDevice_devices [OF new(1), of "\<lambda>_. [''a'', ''b'']" 7] new(2) by auto
  have "rg_deleted ?r = []"
    by (simp add: registerDevice_def push_device_def new_Registry_def split: prod.split)
  moreover have "{c. (7 :: dev) \<in> set (devices_of ?r c)} = {''a'', ''b''}" by (auto simp: r(2))
  ultimately show ?thesis
    using unregister_deletes [OF r(1), of 7] by (simp add: numeral_2_eq_2)
qed

end
