(* ===== verification/Ambe_Driver.thy ===== *)
theory Ambe_Driver
  imports Device_Registry Ambe_Device
begin

text \<open>
  The driver of the AMBE module: \<^verbatim>\<open>Driver\<close> (\<^verbatim>\<open>src/modules/ambe3k/ambe3kdriver.cpp\<close>), its registry of
  device nodes (\<^verbatim>\<open>ambe3kregistry.cpp\<close>) and the event loop of the udev monitor
  (\<^verbatim>\<open>udevmonitor.cpp\<close>), on top of \<^verbatim>\<open>CodecServer::Registry\<close>.

  The driver's state holds the registrations by node, the devices that have been constructed, and
  the attempts made; what the \<open>n\<close>-th attempt to open a node meets (results of the system calls,
  the serial line, fresh memory) is a parameter of the model, the \<open>site\<close>. Devices are named by
  the number of the attempt, so that a new device never has the address of an old one. The udev
  library is represented by the events it delivers.
\<close>

section \<open>State\<close>

record registration =
  rn_config :: section_map
  rn_device :: "dev option"

record site =
  site_strerror :: "int \<Rightarrow> string"
  site_calls :: "string \<Rightarrow> nat \<Rightarrow> tty_calls"
  site_line :: "string \<Rightarrow> nat \<Rightarrow> tty"
  site_memory :: "nat \<Rightarrow> nat \<Rightarrow> byte"

record ambe_world =
  aw_nodes :: "(string, registration) assoc_map"
  aw_devices :: "dev \<rightharpoonup> ambe_device"
  aw_attempts :: nat

definition new_world :: ambe_world where
  "new_world = \<lparr>aw_nodes = [], aw_devices = Map.empty, aw_attempts = 0\<rparr>"

section \<open>\<^verbatim>\<open>Ambe3K::Registry\<close>\<close>

definition addDevice :: "string \<Rightarrow> registration \<Rightarrow> ambe_world \<Rightarrow> ambe_world" where
  "addDevice node device w = w\<lparr>aw_nodes := map_put node device (aw_nodes w)\<rparr>"

definition findByNode :: "string \<Rightarrow> ambe_world \<Rightarrow> registration option" where
  "findByNode node w = map_get (aw_nodes w) node"

definition hasDevice :: "string \<Rightarrow> ambe_world \<Rightarrow> bool" where
  "hasDevice node w \<longleftrightarrow> findByNode node w \<noteq> None"

section \<open>\<^verbatim>\<open>Ambe3K::Driver\<close>\<close>

text \<open>\<^verbatim>\<open>new Device(tty, baudrate)\<close>.\<close>

definition construct :: "site \<Rightarrow> string \<Rightarrow> nat \<Rightarrow> (ambe_world, dev) operation" where
  "construct site node baudrate w =
     (let n = aw_attempts w; w = w\<lparr>aw_attempts := n + 1\<rparr> in
      case new_Device (site_strerror site) (site_calls site node n) (site_memory site)
          (site_line site node n) baudrate of
        Inl e \<Rightarrow> (Inl e, w)
      | Inr (d, _) \<Rightarrow> (Inr n, w\<lparr>aw_devices := (aw_devices w)(n \<mapsto> d)\<rparr>))"

text \<open>
  \<^verbatim>\<open>stoul\<close> yields an \<^verbatim>\<open>unsigned long\<close>, which is cut to the 32 bits of \<^verbatim>\<open>baudrate\<close>. The
  registration is in the registry before its device is constructed, and stays there if that fails.
\<close>

definition buildFromConfiguration :: "site \<Rightarrow> section_map \<Rightarrow> (ambe_world, dev option) operation" where
  "buildFromConfiguration site config w =
     (case map_get config ''tty'' of
        None \<Rightarrow> (Inr None, w)
      | Some tty \<Rightarrow>
          (case map_get config ''baudrate'' of
             None \<Rightarrow> (Inr None, w)
           | Some baudrateStr \<Rightarrow>
               (case stoul baudrateStr of
                  Inl e \<Rightarrow> (if e = Raise Invalid_argument then Inr None else Inl e, w)
                | Inr n \<Rightarrow>
                    (let w = addDevice tty \<lparr>rn_config = config, rn_device = None\<rparr> w in
                     case construct site tty (n mod 2 ^ 32) w of
                       (Inl e, w) \<Rightarrow> (Inl e, w)
                     | (Inr d, w) \<Rightarrow>
                         (Inr (Some d),
                          addDevice tty \<lparr>rn_config = config, rn_device = Some d\<rparr> w)))))"

definition ambe3k_driver :: "site \<Rightarrow> ambe_world driver" where
  "ambe3k_driver site = Driver_default ''ambe3k'' (buildFromConfiguration site)"

abbreviation ambe_codecs :: "dev \<Rightarrow> string list" where
  "ambe_codecs d \<equiv> getCodecs"

section \<open>The udev monitor\<close>

datatype udev_event = Udev_event string string   \<comment> \<open>action and device node\<close>

definition udev_remove :: "string \<Rightarrow> ambe_world registry \<Rightarrow> ambe_world registry" where
  "udev_remove node r =
     (case findByNode node (rg_world r) of
        None \<Rightarrow> r
      | Some match \<Rightarrow>
          (case rn_device match of
             None \<Rightarrow> r
           | Some d \<Rightarrow>
               (unregisterDevice d r)\<lparr>rg_world :=
                  addDevice node (match\<lparr>rn_device := None\<rparr>) (rg_world r)\<rparr>))"

definition udev_add :: "string \<Rightarrow> (ambe_world registry, unit) operation" where
  "udev_add node r =
     (case findByNode node (rg_world r) of
        None \<Rightarrow> (Inr (), r)
      | Some match \<Rightarrow>
          if rn_device match \<noteq> None then (Inr (), r)
          else loadDeviceFromConfig ambe_codecs (rn_config match) r)"

fun handle_event :: "udev_event \<Rightarrow> (ambe_world registry, unit) operation" where
  "handle_event (Udev_event action node) r =
     (if action = ''remove'' then (Inr (), udev_remove node r)
      else if action = ''add'' then udev_add node r
      else (Inr (), r))"

text \<open>
  The monitor's thread: it gives up if libudev makes no context or no monitor, and otherwise handles
  the events one after the other. A \<^verbatim>\<open>select\<close> times out, or finds a device, or none after all; when
  there are no more, the thread waits.
\<close>

datatype udev_select = Select_timeout | Select_device "udev_event option"

fun monitor_loop :: "udev_select list \<Rightarrow> (ambe_world registry, unit) operation" where
  "monitor_loop [] r = (Inl Waits, r)"
| "monitor_loop (Select_timeout # sels) r = monitor_loop sels r"
| "monitor_loop (Select_device None # sels) r = monitor_loop sels r"
| "monitor_loop (Select_device (Some ev) # sels) r = bindS (handle_event ev) (\<lambda>_. monitor_loop sels) r"

definition Monitor_run :: "bool \<Rightarrow> bool \<Rightarrow> udev_select list \<Rightarrow> (ambe_world registry, unit) operation" where
  "Monitor_run has_context has_monitor sels r =
     (if \<not> has_context then (Inr (), r)
      else if \<not> has_monitor then (Inr (), r)
      else monitor_loop sels r)"

section \<open>The registry with AMBE devices is a directory\<close>

interpretation ambe_dir: directory devices_of "registerDevice ambe_codecs" unregisterDevice findDevices
  registry_ok ambe_codecs
  by unfold_locales (simp_all add: registerDevice_devices unregisterDevice_devices findDevices_devices
      getCodecs_def)

text \<open>C26: Whatever devices have been registered and unregistered, in whatever order and with
  whatever searches in between, \<^verbatim>\<open>findDevices\<close> returns the AMBE devices that were registered and not
  unregistered since, in the order of their registration, and nothing for any other codec.\<close>

theorem findDevices_directory:
  "fst (findDevices c (ambe_dir.exec ops (new_Registry w))) =
     (if c = ''ambe'' then directory_spec (\<lambda>_. [''ambe'']) ''ambe'' ops [] else [])"
proof -
  have new: "registry_ok (new_Registry w)" "devices_of (new_Registry w) c = []"
    by (simp_all add: registry_ok_def new_Registry_def devices_of_def map_get_def)
  have "directory_spec ambe_codecs c ops [] = (if c = ''ambe'' then directory_spec (\<lambda>_. [''ambe'']) ''ambe'' ops [] else [])"
  proof (cases "c = ''ambe''")
    case False
    then have "directory_spec ambe_codecs c ops [] = []"
    proof (induction ops)
      case (Cons a ops)
      then show ?case by (cases a) (simp_all add: getCodecs_def)
    qed simp
    with False show ?thesis by simp
  qed (simp add: getCodecs_def)
  with ambe_dir.exec_search [OF new(1), of c ops] new(2) show ?thesis by simp
qed

section \<open>Loading from the configuration\<close>

text \<open>A registry whose only driver is the AMBE driver, as the module leaves it.\<close>

definition ambe_registry_ok :: "site \<Rightarrow> ambe_world registry \<Rightarrow> bool" where
  "ambe_registry_ok site r \<longleftrightarrow> registry_ok r \<and> map_valid (aw_nodes (rg_world r)) \<and>
     map_get (rg_drivers r) ''ambe3k'' = Some (ambe3k_driver site)"

lemma convertBaudrate_invalid:
  "n \<notin> {9600, 19200, 38400, 57600, 115200, 230400, 460800, 500000, 576000, 921600, 1000000, 1152000,
      1500000, 2000000, 2500000, 3000000, 3500000, 4000000} \<Longrightarrow>
   convertBaudrate n = Inl (Raise (Runtime_error ''invalid baud rate''))"
  by (simp add: convertBaudrate_def)

lemma convertBaudrate_range:
  "convertBaudrate n = (if n \<in> {9600, 19200, 38400, 57600, 115200, 230400, 460800, 500000, 576000,
      921600, 1000000, 1152000, 1500000, 2000000, 2500000, 3000000, 3500000, 4000000}
    then Inr (B n) else Inl (Raise (Runtime_error ''invalid baud rate'')))"
  by (simp add: convertBaudrate_def)

text \<open>A device section that does not say which line to use, or whose baud rate is not a number, is
  skipped, and so is a device that does not answer. But a baud rate that is a number and none of
  the supported ones, or is out of range, is an exception that nobody catches, and ends the
  server.\<close>

theorem loadDeviceFromConfig_baudrate:
  assumes "ambe_registry_ok site r" "map_get config ''driver'' = Some ''ambe3k''"
    and "map_get config ''tty'' = Some node" "map_get config ''baudrate'' = Some rate"
  shows "(stoul rate = Inl (Raise Invalid_argument) \<longrightarrow>
      loadDeviceFromConfig ambe_codecs config r = (Inr (), r)) \<and>
    (stoul rate = Inl (Raise Out_of_range) \<longrightarrow>
      fst (loadDeviceFromConfig ambe_codecs config r) = Inl (Raise Out_of_range)) \<and>
    (\<forall>n. stoul rate = Inr n \<and> convertBaudrate (n mod 2 ^ 32) = Inl e \<longrightarrow>
      fst (loadDeviceFromConfig ambe_codecs config r) = Inl (Raise (Runtime_error ''invalid baud rate'')))"
proof -
  have driver: "map_get (rg_drivers r) ''ambe3k'' = Some (ambe3k_driver site)"
    and build: "dr_build (ambe3k_driver site) = buildFromConfiguration site"
    using assms(1) by (simp_all add: ambe_registry_ok_def ambe3k_driver_def Driver_default_def)
  have invalid: "convertBaudrate n = Inl e \<Longrightarrow> e = Raise (Runtime_error ''invalid baud rate'')" for n
    unfolding convertBaudrate_range by (simp split: if_splits)
  show ?thesis
    by (auto simp: loadDeviceFromConfig_def assms(2-4) driver build buildFromConfiguration_def
        is_DeviceException_def construct_def new_Device_def open_tty_def Let_def dest: invalid)
qed

text \<open>A site on which no line can be opened, and one whose line is the one of the handshake.\<close>

definition broken_site :: site where
  "broken_site = \<lparr>site_strerror = (\<lambda>_. ''No such file or directory''),
     site_calls = (\<lambda>_ _. \<lparr>sys_open = Some 2, sys_tcgetattr = Inl 2, sys_cfsetispeed = None,
       sys_cfsetospeed = None, sys_tcsetattr = None\<rparr>),
     site_line = (\<lambda>_ _. answering_line), site_memory = (\<lambda>_ _. 0xEE)\<rparr>"

definition working_site :: site where
  "working_site = broken_site\<lparr>site_calls := (\<lambda>_ _. \<lparr>sys_open = None,
     sys_tcgetattr = Inr (dv_termios (idle_device [])), sys_cfsetispeed = None,
     sys_cfsetospeed = None, sys_tcsetattr = None\<rparr>)\<rparr>"

definition started_registry :: "site \<Rightarrow> ambe_world registry" where
  "started_registry site = snd (registerDriver (ambe3k_driver site) (new_Registry new_world))"

lemma started_registry_ok: "ambe_registry_ok site (started_registry site)"
  by (simp add: ambe_registry_ok_def started_registry_def registerDriver_def new_Registry_def
      registry_ok_def new_world_def ambe3k_driver_def Driver_default_def map_get_def map_valid_def)

definition stick_config :: "string \<Rightarrow> section_map" where
  "stick_config rate = [(''baudrate'', rate), (''driver'', ''ambe3k''), (''tty'', ''/dev/ttyUSB0'')]"

lemma stick_config_get:
  "map_get (stick_config rate) ''driver'' = Some ''ambe3k''"
  "map_get (stick_config rate) ''tty'' = Some ''/dev/ttyUSB0''"
  "map_get (stick_config rate) ''baudrate'' = Some rate"
  by (simp_all add: stick_config_def map_get_def)

lemmas parse_number = scan_decimal_def digits_of_def digit_value_def number_value_def signed_value_def
  is_space_def

theorem loadDeviceFromConfig_baudrate_witness:
  "loadDeviceFromConfig ambe_codecs (stick_config ''fast'') (started_registry broken_site) =
     (Inr (), started_registry broken_site) \<and>
   fst (loadDeviceFromConfig ambe_codecs (stick_config ''4800'') (started_registry broken_site)) =
     Inl (Raise (Runtime_error ''invalid baud rate''))"
proof -
  have "stoul ''fast'' = Inl (Raise Invalid_argument)" "stoul ''4800'' = Inr 4800"
    by (simp_all add: stoul_def parse_number)
  moreover have "convertBaudrate (4800 mod 2 ^ 32) = Inl (Raise (Runtime_error ''invalid baud rate''))"
    by (simp add: convertBaudrate_def)
  ultimately show ?thesis
    using loadDeviceFromConfig_baudrate [OF started_registry_ok stick_config_get, where rate = "''fast''"]
      loadDeviceFromConfig_baudrate [OF started_registry_ok stick_config_get, where rate = "''4800''"
        and e = "Raise (Runtime_error ''invalid baud rate'')"]
    by blast
qed

section \<open>Unplugging and plugging in\<close>

lemma findByNode_addDevice:
  "map_valid (aw_nodes w) \<Longrightarrow>
   findByNode node (addDevice node' x w) = (if node = node' then Some x else findByNode node w)"
  by (simp add: findByNode_def addDevice_def std_map.lookup_assign)

lemma addDevice_valid: "map_valid (aw_nodes w) \<Longrightarrow> map_valid (aw_nodes (addDevice n x w))"
  by (simp add: addDevice_def std_map.valid_assign)

lemma unregisterDevice_frame [simp]:
  "rg_drivers (unregisterDevice d r) = rg_drivers r" "rg_world (unregisterDevice d r) = rg_world r"
  by (simp_all add: unregisterDevice_def split: prod.split)

lemma unregisterDevice_ambe_ok: "ambe_registry_ok site r \<Longrightarrow> ambe_registry_ok site (unregisterDevice d r)"
  by (simp add: ambe_registry_ok_def unregisterDevice_devices)

lemma ambe_registry_ok_world:
  "ambe_registry_ok site (r\<lparr>rg_world := w\<rparr>) \<longleftrightarrow>
     registry_ok r \<and> map_valid (aw_nodes w) \<and> map_get (rg_drivers r) ''ambe3k'' = Some (ambe3k_driver site)"
  by (simp add: ambe_registry_ok_def registry_ok_def)

lemma udev_remove_registered:
  assumes "findByNode node (rg_world r) = Some \<lparr>rn_config = config, rn_device = Some d\<rparr>"
  shows "udev_remove node r = (unregisterDevice d r)\<lparr>rg_world :=
     addDevice node \<lparr>rn_config = config, rn_device = None\<rparr> (rg_world r)\<rparr>"
  by (simp add: udev_remove_def assms)

lemma devices_of_world [simp]: "devices_of (r\<lparr>rg_world := w\<rparr>) = devices_of r"
  by (simp add: devices_of_def fun_eq_iff)

lemma udev_remove_effect:
  assumes "ambe_registry_ok site r"
    and "findByNode node (rg_world r) = Some \<lparr>rn_config = config, rn_device = Some d\<rparr>"
  shows "ambe_registry_ok site (udev_remove node r)"
    "findByNode node (rg_world (udev_remove node r)) = Some \<lparr>rn_config = config, rn_device = None\<rparr>"
    "devices_of (udev_remove node r) c = remove1 d (devices_of r c)"
    "aw_attempts (rg_world (udev_remove node r)) = aw_attempts (rg_world r)"
proof -
  have valid: "map_valid (aw_nodes (rg_world r))" "registry_ok r"
    using assms(1) by (simp_all add: ambe_registry_ok_def)
  show "ambe_registry_ok site (udev_remove node r)"
    using unregisterDevice_ambe_ok [OF assms(1), of d] addDevice_valid [OF valid(1)]
    unfolding udev_remove_registered [OF assms(2)] ambe_registry_ok_world
    by (simp add: ambe_registry_ok_def)
  show "findByNode node (rg_world (udev_remove node r)) = Some \<lparr>rn_config = config, rn_device = None\<rparr>"
    "aw_attempts (rg_world (udev_remove node r)) = aw_attempts (rg_world r)"
    unfolding udev_remove_registered [OF assms(2)]
    by (simp_all add: findByNode_addDevice valid) (simp add: addDevice_def)
  show "devices_of (udev_remove node r) c = remove1 d (devices_of r c)"
    unfolding udev_remove_registered [OF assms(2)]
    by (simp add: unregisterDevice_devices [OF valid(2)])
qed

lemma udev_add_loads:
  assumes "ambe_registry_ok site r"
    and "findByNode node (rg_world r) = Some \<lparr>rn_config = config, rn_device = None\<rparr>"
    and "map_get config ''driver'' = Some ''ambe3k''" "map_get config ''tty'' = Some node"
    and "map_get config ''baudrate'' = Some rate" "stoul rate = Inr n"
    and "new_Device (site_strerror site) (site_calls site node (aw_attempts (rg_world r)))
        (site_memory site) (site_line site node (aw_attempts (rg_world r))) (n mod 2 ^ 32) = Inr (dev, t)"
  shows "fst (udev_add node r) = Inr ()"
    "devices_of (snd (udev_add node r)) ''ambe'' = devices_of r ''ambe'' @ [aw_attempts (rg_world r)]"
    "findByNode node (rg_world (snd (udev_add node r))) =
       Some \<lparr>rn_config = config, rn_device = Some (aw_attempts (rg_world r))\<rparr>"
proof -
  let ?w = "addDevice node \<lparr>rn_config = config, rn_device = None\<rparr> (rg_world r)"
  let ?k = "aw_attempts (rg_world r)"
  let ?w' = "addDevice node \<lparr>rn_config = config, rn_device = Some ?k\<rparr>
    (?w\<lparr>aw_attempts := ?k + 1, aw_devices := (aw_devices ?w)(?k \<mapsto> dev)\<rparr>)"
  have ok: "registry_ok r" "map_valid (aw_nodes (rg_world r))"
    "map_get (rg_drivers r) ''ambe3k'' = Some (ambe3k_driver site)"
    using assms(1) by (simp_all add: ambe_registry_ok_def)
  have "aw_attempts ?w = ?k" by (simp add: addDevice_def)
  with assms(4-7) have "buildFromConfiguration site config (rg_world r) = (Inr (Some ?k), ?w')"
    by (simp add: buildFromConfiguration_def construct_def Let_def)
  then have add: "udev_add node r = (Inr (), registerDevice ambe_codecs ?k (r\<lparr>rg_world := ?w'\<rparr>))"
    using assms(2,3) ok(3)
    by (simp add: udev_add_def loadDeviceFromConfig_def ambe3k_driver_def Driver_default_def)
  have reg: "registry_ok (r\<lparr>rg_world := ?w'\<rparr>)" using ok(1) by (simp add: registry_ok_def)
  show "fst (udev_add node r) = Inr ()" by (simp add: add)
  show "devices_of (snd (udev_add node r)) ''ambe'' = devices_of r ''ambe'' @ [?k]"
    using ambe_dir.add [OF reg, of ?k "''ambe''"] by (simp add: add getCodecs_def)
  have "rg_world (registerDevice ambe_codecs d r) = rg_world r" for d and r :: "ambe_world registry"
    by (simp add: registerDevice_def getCodecs_def push_device_def split: prod.split)
  moreover have "map_valid (aw_nodes (?w\<lparr>aw_attempts := ?k + 1, aw_devices := (aw_devices ?w)(?k \<mapsto> dev)\<rparr>))"
    using addDevice_valid [OF ok(2)] by simp
  ultimately show "findByNode node (rg_world (snd (udev_add node r))) =
      Some \<lparr>rn_config = config, rn_device = Some ?k\<rparr>"
    by (simp add: add findByNode_addDevice)
qed

text \<open>C27: Pulling a stick out unregisters and forgets its device but keeps its configuration, and
  plugging it in again, if the chip answers, loads it from that configuration under the same node
  as the last device. But when a queue error has unregistered the device, its node still refers
  to it, and plugging in does nothing until a removal has been reported.\<close>

theorem udev_replug:
  assumes "ambe_registry_ok site r"
    and "findByNode node (rg_world r) = Some \<lparr>rn_config = config, rn_device = Some d\<rparr>"
    and "map_get config ''driver'' = Some ''ambe3k''" "map_get config ''tty'' = Some node"
    and "map_get config ''baudrate'' = Some rate" "stoul rate = Inr n"
    and "new_Device (site_strerror site) (site_calls site node (aw_attempts (rg_world r)))
        (site_memory site) (site_line site node (aw_attempts (rg_world r))) (n mod 2 ^ 32) = Inr (dev, t)"
  shows "devices_of (udev_remove node r) ''ambe'' = remove1 d (devices_of r ''ambe'') \<and>
    fst (udev_add node (udev_remove node r)) = Inr () \<and>
    devices_of (snd (udev_add node (udev_remove node r))) ''ambe'' =
      remove1 d (devices_of r ''ambe'') @ [aw_attempts (rg_world r)] \<and>
    findByNode node (rg_world (snd (udev_add node (udev_remove node r)))) =
      Some \<lparr>rn_config = config, rn_device = Some (aw_attempts (rg_world r))\<rparr> \<and>
    udev_add node (unregisterDevice d r) = (Inr (), unregisterDevice d r)"
proof -
  note removed = udev_remove_effect [OF assms(1,2)]
  from udev_add_loads [OF removed(1,2) assms(3-6), of dev t] assms(7) removed(3,4)
  show ?thesis by (simp add: udev_add_def assms(2))
qed

lemma working_site_device:
  "\<exists>dev t. new_Device (site_strerror working_site) (site_calls working_site node n)
     (site_memory working_site) (site_line working_site node n) 460800 = Inr (dev, t)"
proof -
  obtain t where "device_init (\<lambda>_ _. 0xEE) answering_line = Inr (createChannels (ascii ''AMBE3003F''), t)"
    using answering_line_init by blast
  then show ?thesis
    by (simp add: new_Device_def open_tty_def working_site_def broken_site_def convertBaudrate_def
        check_call_def Let_def)
qed

text \<open>A registry in which device 5 is registered for the stick.\<close>

definition plugged_registry :: "ambe_world registry" where
  "plugged_registry = registerDevice ambe_codecs 5 ((started_registry working_site)\<lparr>rg_world :=
     addDevice ''/dev/ttyUSB0'' \<lparr>rn_config = stick_config ''460800'', rn_device = Some 5\<rparr>
       (new_world\<lparr>aw_attempts := 6\<rparr>)\<rparr>)"

lemma plugged_registry:
  "ambe_registry_ok working_site plugged_registry"
  "findByNode ''/dev/ttyUSB0'' (rg_world plugged_registry) =
     Some \<lparr>rn_config = stick_config ''460800'', rn_device = Some 5\<rparr>"
  "devices_of plugged_registry ''ambe'' = [5]" "aw_attempts (rg_world plugged_registry) = 6"
proof -
  let ?r = "(started_registry working_site)\<lparr>rg_world :=
     addDevice ''/dev/ttyUSB0'' \<lparr>rn_config = stick_config ''460800'', rn_device = Some 5\<rparr>
       (new_world\<lparr>aw_attempts := 6\<rparr>)\<rparr>"
  have ok: "ambe_registry_ok working_site ?r"
    using started_registry_ok [of working_site] addDevice_valid [of "new_world\<lparr>aw_attempts := 6\<rparr>"]
    unfolding ambe_registry_ok_world by (simp add: ambe_registry_ok_def new_world_def)
  then have reg: "registry_ok ?r" by (simp add: ambe_registry_ok_def)
  have frame: "rg_world (registerDevice ambe_codecs d r) = rg_world r"
    "rg_drivers (registerDevice ambe_codecs d r) = rg_drivers r" for d and r :: "ambe_world registry"
    by (simp_all add: registerDevice_def getCodecs_def push_device_def split: prod.split)
  show "ambe_registry_ok working_site plugged_registry"
    using ok ambe_dir.add [OF reg, of 5] by (simp add: plugged_registry_def ambe_registry_ok_def frame)
  show "findByNode ''/dev/ttyUSB0'' (rg_world plugged_registry) =
      Some \<lparr>rn_config = stick_config ''460800'', rn_device = Some 5\<rparr>"
    "aw_attempts (rg_world plugged_registry) = 6"
    by (simp_all add: plugged_registry_def frame findByNode_addDevice new_world_def)
      (simp add: addDevice_def)
  show "devices_of plugged_registry ''ambe'' = [5]"
    using ambe_dir.add [OF reg, of 5 "''ambe''"]
    by (simp add: plugged_registry_def getCodecs_def) (simp add: devices_of_def started_registry_def
        registerDriver_def new_Registry_def map_get_def)
qed

theorem udev_replug_witness:
  "devices_of (udev_remove ''/dev/ttyUSB0'' plugged_registry) ''ambe'' = [] \<and>
   devices_of (snd (udev_add ''/dev/ttyUSB0'' (udev_remove ''/dev/ttyUSB0'' plugged_registry))) ''ambe'' = [6]"
proof -
  have n: "stoul ''460800'' = Inr 460800" by (simp add: stoul_def parse_number)
  obtain dev t where "new_Device (site_strerror working_site) (site_calls working_site ''/dev/ttyUSB0'' 6)
      (site_memory working_site) (site_line working_site ''/dev/ttyUSB0'' 6) 460800 = Inr (dev, t)"
    using working_site_device by blast
  then show ?thesis
    using udev_replug [OF plugged_registry(1,2) stick_config_get n, where dev = dev and t = t]
    by (simp add: plugged_registry)
qed

end
