(* ===== verification/Client_Connection.thy ===== *)
theory Client_Connection
  imports Connection Ambe_Driver
begin

text \<open>
  The server's side of a connection: \<^verbatim>\<open>ClientConnection\<close> of \<^verbatim>\<open>src/server/clientconnection.cpp\<close>. A
  client has at most one session, on a channel of a registered device, and with it a reader
  thread that sends what the channel delivers. Its operations work on the client together with the
  device registry. \<open>handle\<close> is the reaction to one message; \<open>client_work\<close> is one turn of the
  connection's thread, from the handshake to the deletion of the connection; \<open>reader_work\<close> is one
  of the reader's. An exception that no handler catches, and every fault, ends the process.
\<close>

section \<open>State\<close>

datatype reader =
    Reading            \<comment> \<open>in front of \<^verbatim>\<open>session->read\<close>, or in it\<close>
  | Got bytes          \<comment> \<open>has read data and is about to send them\<close>
  | Reader_done

text \<open>
  \<open>Joining\<close> is \<^verbatim>\<open>reader->join()\<close> inside \<^verbatim>\<open>stopSession\<close>, with what comes after it: the rest of a
  request, or the end of the connection.
\<close>

datatype after_stop = Then_request string settings | Then_delete

datatype client_pc = Handshaking | Looping | Joining after_stop | Deleted

record client =
  cl_pc :: client_pc
  cl_conn :: connection
  cl_run :: bool
  cl_session :: "(dev \<times> nat) option"
  cl_reader :: "reader option"

definition new_ClientConnection :: "connection \<Rightarrow> client" where
  "new_ClientConnection cn =
     \<lparr>cl_pc = Handshaking, cl_conn = cn, cl_run = True, cl_session = None, cl_reader = None\<rparr>"

type_synonym server_registry = "ambe_world registry"
type_synonym 'a handler = "(client \<times> server_registry, 'a) operation"

section \<open>Sessions of devices\<close>

text \<open>A call on a device, or on a session of it: a device that has been deleted is freed memory.\<close>

definition live :: "server_registry \<Rightarrow> dev \<Rightarrow> ambe_device option" where
  "live r d = (if d \<in> set (rg_deleted r) then None else aw_devices (rg_world r) d)"

definition set_device :: "dev \<Rightarrow> ambe_device \<Rightarrow> server_registry \<Rightarrow> server_registry" where
  "set_device d dev r =
     r\<lparr>rg_world := (rg_world r)\<lparr>aw_devices := (aw_devices (rg_world r))(d \<mapsto> dev)\<rparr>\<rparr>"

definition on_device :: "dev \<Rightarrow> (ambe_device, 'a) operation \<Rightarrow> (server_registry, 'a) operation" where
  "on_device d f r =
     (case live r d of
        None \<Rightarrow> (Inl (Crash Use_after_free), r)
      | Some dev \<Rightarrow> (case f dev of (x, dev') \<Rightarrow> (x, set_device d dev' r)))"

definition on_registry :: "(server_registry, 'a) operation \<Rightarrow> 'a handler" where
  "on_registry f s = (case f (snd s) of (x, r) \<Rightarrow> (x, (fst s, r)))"

definition session_getFraming :: "dev \<times> nat \<Rightarrow> (server_registry, framing_hint option) operation" where
  "session_getFraming sn =
     on_device (fst sn) (\<lambda>dev. (Inr (getFraming (dv_channels dev ! snd sn)), dev))"

definition session_end :: "dev \<times> nat \<Rightarrow> (server_registry, unit) operation" where
  "session_end sn = on_device (fst sn) (\<lambda>dev. (Inr (), set_channel (snd sn) release dev))"

section \<open>The reader thread\<close>

definition send_client :: "'c protobuf \<Rightarrow> message \<Rightarrow> client \<Rightarrow> bool \<times> client" where
  "send_client pb m cl =
     (case sendMessage pb m (cl_conn cl) of (ok, cn) \<Rightarrow> (ok, cl\<lparr>cl_conn := cn\<rparr>))"

text \<open>
  Up to the end of one \<^verbatim>\<open>session->read\<close>, or from there to the end of the loop's body. The queue of
  a channel that has been released is gone: reading returns nothing.
\<close>

definition reader_work :: "'c protobuf \<Rightarrow> unit handler" where
  "reader_work pb s =
     (case cl_reader (fst s) of
        Some Reading \<Rightarrow>
          if \<not> cl_run (fst s) then (Inr (), ((fst s)\<lparr>cl_reader := Some Reader_done\<rparr>, snd s))
          else (case cl_session (fst s) of
              None \<Rightarrow> (Inl (Crash Null_deref), s)
            | Some (d, i) \<Rightarrow>
                bindS (on_registry (on_device d (session_read i))) (\<lambda>bs s.
                  (Inr (), (if bs = [] then (fst s)\<lparr>cl_run := False, cl_reader := Some Reader_done\<rparr>
                            else (fst s)\<lparr>cl_reader := Some (Got bs)\<rparr>, snd s))) s)
      | Some (Got bs) \<Rightarrow>
          (case send_client pb (SpeechData bs) (fst s) of (ok, cl) \<Rightarrow>
             (Inr (), (if ok then cl\<lparr>cl_reader := Some Reading\<rparr>
                       else cl\<lparr>cl_run := False, cl_reader := Some Reading\<rparr>, snd s)))
      | _ \<Rightarrow> (Inr (), s))"

section \<open>Starting and stopping\<close>

definition startSession :: "client \<Rightarrow> client" where
  "startSession cl = (case cl_session cl of None \<Rightarrow> cl | Some _ \<Rightarrow> cl\<lparr>cl_reader := Some Reading\<rparr>)"

text \<open>
  \<^verbatim>\<open>stopSession\<close> up to the join, with what comes after it: at once if there is no session. Behind
  the join, \<open>forget_session\<close> is the rest of it.
\<close>

definition stopSession :: "after_stop \<Rightarrow> unit handler \<Rightarrow> unit handler" where
  "stopSession k continue s =
     (case cl_session (fst s) of
        None \<Rightarrow> continue s
      | Some sn \<Rightarrow>
          bindS (on_registry (session_end sn)) (\<lambda>_ s.
            (Inr (), ((fst s)\<lparr>cl_pc := Joining k\<rparr>, snd s))) s)"

definition forget_session :: "client \<Rightarrow> client" where
  "forget_session cl = cl\<lparr>cl_session := None, cl_reader := None\<rparr>"

section \<open>Messages\<close>

definition respond :: "'c protobuf \<Rightarrow> response \<Rightarrow> unit handler" where
  "respond pb rs s =
     (case send_client pb (Response rs) (fst s) of (ok, cl) \<Rightarrow>
        (if ok then Inr () else Inl (Raise (Connection_exception ''sending response failed'')),
         (cl, snd s)))"

definition process_ChannelData :: "bytes \<Rightarrow> unit handler" where
  "process_ChannelData bs s =
     (case cl_session (fst s) of
        None \<Rightarrow> (Inr (), s)
      | Some (d, i) \<Rightarrow> on_registry (on_device d (on_channel i (decode bs (length bs)))) s)"

definition process_SpeechData :: "bytes \<Rightarrow> unit handler" where
  "process_SpeechData bs s =
     (case cl_session (fst s) of
        None \<Rightarrow> (Inr (), s)
      | Some (d, i) \<Rightarrow> on_registry (on_device d (on_channel i (encode bs (length bs)))) s)"

definition response_ok :: "framing_hint option \<Rightarrow> response" where
  "response_ok framing = \<lparr>rs_result = Status_OK, rs_message = [], rs_framing = framing\<rparr>"

definition response_error :: "string \<Rightarrow> response" where
  "response_error m = \<lparr>rs_result = Status_ERROR, rs_message = m, rs_framing = None\<rparr>"

text \<open>Every exception of the renegotiation is caught, but no session is a null pointer.\<close>

definition process_Renegotiation ::
  "'c protobuf \<Rightarrow> (nat \<Rightarrow> short) \<Rightarrow> settings \<Rightarrow> unit handler" where
  "process_Renegotiation pb uninit st s =
     (case cl_session (fst s) of
        None \<Rightarrow> (Inl (Crash Null_deref), s)
      | Some (d, i) \<Rightarrow>
          (case bindS (on_device d (on_channel i (renegotiate uninit st)))
                  (\<lambda>_. session_getFraming (d, i)) (snd s) of
             (Inr framing, r) \<Rightarrow> respond pb (response_ok framing) (fst s, r)
           | (Inl (Raise e), r) \<Rightarrow> respond pb (response_error []) (fst s, r)
           | (Inl e, r) \<Rightarrow> (Inl e, (fst s, r))))"

text \<open>The loop over the devices: the first one that gives a session.\<close>

fun start_first ::
  "(nat \<Rightarrow> short) \<Rightarrow> settings \<Rightarrow> dev list \<Rightarrow> (server_registry, (dev \<times> nat) option) operation" where
  "start_first uninit st [] r = (Inr None, r)"
| "start_first uninit st (d # ds) r =
     (case on_device d (device_startSession uninit st) r of
        (Inl e, r) \<Rightarrow> (Inl e, r)
      | (Inr (Some i), r) \<Rightarrow> (Inr (Some (d, i)), r)
      | (Inr None, r) \<Rightarrow> start_first uninit st ds r)"

text \<open>\<^verbatim>\<open>processMessage(Request*)\<close> behind its call of \<^verbatim>\<open>stopSession\<close>.\<close>

definition serve_request ::
  "'c protobuf \<Rightarrow> (nat \<Rightarrow> short) \<Rightarrow> string \<Rightarrow> settings \<Rightarrow> unit handler" where
  "serve_request pb uninit codec st s =
     (case findDevices codec (snd s) of (devices, r) \<Rightarrow>
        bindS (on_registry (start_first uninit st devices)) (\<lambda>session s.
          case session of
            None \<Rightarrow> respond pb (response_error ''no device available'') s
          | Some sn \<Rightarrow>
              bindS (on_registry (session_getFraming sn)) (\<lambda>framing s.
                respond pb (response_ok framing)
                  (startSession ((fst s)\<lparr>cl_session := Some sn\<rparr>), snd s)) s)
        (fst s, r))"

definition process_Request ::
  "'c protobuf \<Rightarrow> (nat \<Rightarrow> short) \<Rightarrow> string \<Rightarrow> settings \<Rightarrow> unit handler" where
  "process_Request pb uninit codec st =
     stopSession (Then_request codec st) (serve_request pb uninit codec st)"

definition process_Check :: "'c protobuf \<Rightarrow> string \<Rightarrow> unit handler" where
  "process_Check pb codec s =
     (case findDevices codec (snd s) of (devices, r) \<Rightarrow>
        respond pb (if devices = [] then response_error ''no device available'' else response_ok None)
          (fst s, r))"

text \<open>The chain of \<^verbatim>\<open>checkMessageType\<close>; messages of other types are dropped.\<close>

fun handle :: "'c protobuf \<Rightarrow> (nat \<Rightarrow> short) \<Rightarrow> message \<Rightarrow> unit handler" where
  "handle pb uninit (Request codec st) s = process_Request pb uninit codec st s"
| "handle pb uninit (Check codec) s = process_Check pb codec s"
| "handle pb uninit (ChannelData bs) s = process_ChannelData bs s"
| "handle pb uninit (SpeechData bs) s = process_SpeechData bs s"
| "handle pb uninit (Renegotiation st) s = process_Renegotiation pb uninit st s"
| "handle pb uninit (Handshake name version protocol) s = (Inr (), s)"
| "handle pb uninit (Response rs) s = (Inr (), s)"
| "handle pb uninit Unknown_type s = (Inr (), s)"

section \<open>The connection's thread\<close>

text \<open>\<^verbatim>\<open>delete this\<close>: the destructors of \<^verbatim>\<open>ClientConnection\<close> and \<^verbatim>\<open>Connection\<close>.\<close>

definition delete_connection :: "unit handler" where
  "delete_connection s =
     (Inr (), ((fst s)\<lparr>cl_conn := close_connection (cl_conn (fst s)), cl_pc := Deleted\<rparr>, snd s))"

definition delete_client :: "unit handler" where
  "delete_client = stopSession Then_delete delete_connection"

text \<open>\<^verbatim>\<open>catch (ConnectionException&)\<close> in the constructor.\<close>

definition catch_connection :: "unit handler \<Rightarrow> unit handler" where
  "catch_connection m s =
     (case m s of
        (Inl (Raise (Connection_exception e)), s) \<Rightarrow> delete_client s
      | r \<Rightarrow> r)"

definition handshake :: "'c protobuf \<Rightarrow> string \<Rightarrow> unit handler" where
  "handshake pb version s =
     (case send_client pb (Handshake ''codecserver'' version PROTOCOL_VERSION) (fst s) of (ok, cl) \<Rightarrow>
        if ok then (Inr (), (cl\<lparr>cl_pc := Looping\<rparr>, snd s))
        else (Inl (Raise (Connection_exception ''sending handshake failed'')), (cl, snd s)))"

text \<open>One turn of the loop. Receiving may wait, or never return.\<close>

definition loop_turn :: "'c protobuf \<Rightarrow> (nat \<Rightarrow> short) \<Rightarrow> unit handler" where
  "loop_turn pb uninit s =
     (case receiveMessage pb (cl_conn (fst s)) of
        None \<Rightarrow> (Inl Waits, s)
      | Some (Inl e, cn) \<Rightarrow> (Inl e, ((fst s)\<lparr>cl_conn := cn\<rparr>, snd s))
      | Some (Inr None, cn) \<Rightarrow> (Inr (), ((fst s)\<lparr>cl_conn := cn, cl_run := False\<rparr>, snd s))
      | Some (Inr (Some m), cn) \<Rightarrow> handle pb uninit m ((fst s)\<lparr>cl_conn := cn\<rparr>, snd s))"

text \<open>
  The next step of the thread: the handshake, a turn of the loop, the end of the loop, or what
  follows a join. When \<^verbatim>\<open>loop\<close> has stopped the session, the destructor finds none.
\<close>

definition client_work :: "'c protobuf \<Rightarrow> string \<Rightarrow> (nat \<Rightarrow> short) \<Rightarrow> unit handler" where
  "client_work pb version uninit s =
     (case cl_pc (fst s) of
        Deleted \<Rightarrow> (Inr (), s)
      | Handshaking \<Rightarrow> catch_connection (handshake pb version) s
      | Looping \<Rightarrow>
          if cl_run (fst s) then catch_connection (loop_turn pb uninit) s else delete_client s
      | Joining k \<Rightarrow>
          (case cl_reader (fst s) of
             None \<Rightarrow> (Inl (Crash Null_deref), s)
           | Some Reader_done \<Rightarrow>
               (case k of
                  Then_delete \<Rightarrow> delete_connection (forget_session (fst s), snd s)
                | Then_request codec st \<Rightarrow>
                    catch_connection (serve_request pb uninit codec st)
                      ((forget_session (fst s))\<lparr>cl_pc := Looping\<rparr>, snd s))
           | Some _ \<Rightarrow> (Inl Waits, s)))"

section \<open>Lemmas\<close>

lemma send_client_scheduled:
  "cn_sends (cl_conn cl) = [] \<Longrightarrow> send_client pb m cl =
     (True, cl\<lparr>cl_conn := (cl_conn cl)\<lparr>cn_sends := [], cn_out := cn_out (cl_conn cl) @ wire pb [m]\<rparr>\<rparr>)"
  by (simp add: send_client_def sendMessage_def wire_def Let_def)

lemma send_client_frame [simp]:
  "cl_pc (snd (send_client pb m cl)) = cl_pc cl" "cl_run (snd (send_client pb m cl)) = cl_run cl"
  "cl_session (snd (send_client pb m cl)) = cl_session cl"
  "cl_reader (snd (send_client pb m cl)) = cl_reader cl"
  by (simp_all add: send_client_def split: prod.split)

lemma respond_sends:
  assumes "cn_sends (cl_conn cl) = []"
  shows "respond pb rs (cl, r) = (Inr (), (snd (send_client pb (Response rs) cl), r))"
    "cn_out (cl_conn (snd (send_client pb m cl))) = cn_out (cl_conn cl) @ wire pb [m]"
  using assms by (simp_all add: respond_def send_client_scheduled)

lemma live_set_device [simp]:
  "live (set_device d dev r) d' = (if d' = d \<and> d \<notin> set (rg_deleted r) then Some dev else live r d')"
  by (simp add: live_def set_device_def)

lemma live_not_deleted: "live r d = Some dev \<Longrightarrow> d \<notin> set (rg_deleted r)"
  by (simp add: live_def split: if_splits)

lemma set_device_same [simp]: "live r d = Some dev \<Longrightarrow> set_device d dev r = r"
  by (simp add: live_def set_device_def fun_upd_idem split: if_splits)

lemma set_device_devices [simp]:
  "devices_of (set_device d dev r) = devices_of r" "rg_deleted (set_device d dev r) = rg_deleted r"
  by (simp_all add: set_device_def devices_of_def fun_eq_iff)

lemma on_device_live: "live r d = Some dev \<Longrightarrow> on_device d f r = (fst (f dev), set_device d (snd (f dev)) r)"
  by (simp add: on_device_def split: prod.split)

text \<open>The devices of a codec on which no channel is free.\<close>

definition all_busy :: "server_registry \<Rightarrow> dev \<Rightarrow> bool" where
  "all_busy r d \<longleftrightarrow> (case live r d of None \<Rightarrow> False | Some dev \<Rightarrow> list_all isBusy (dv_channels dev))"

lemma start_first_busy:
  assumes "\<And>d. d \<in> set ds \<Longrightarrow> all_busy r d"
  shows "start_first uninit st (ds @ ds') r = start_first uninit st ds' r"
  using assms
proof (induction ds)
  case (Cons d ds)
  from Cons.prems [of d] obtain dev where dev: "live r d = Some dev" "list_all isBusy (dv_channels dev)"
    by (auto simp: all_busy_def split: option.splits)
  then have "device_startSession uninit st dev = (Inr None, dev)"
    using first_free_None [of 0 "dv_channels dev"] by (simp add: device_startSession_def)
  with Cons dev show ?case by (simp add: on_device_live)
qed simp

lemma findDevices_live:
  assumes "registry_ok r"
  obtains r' where "findDevices codec r = (devices_of r codec, r')"
    "registry_ok r'" "live r' = live r" "devices_of r' = devices_of r" "rg_world r' = rg_world r" "rg_deleted r' = rg_deleted r"
proof
  let ?r' = "snd (findDevices codec r)"
  show "findDevices codec r = (devices_of r codec, ?r')" "registry_ok ?r'" "devices_of ?r' = devices_of r"
    using findDevices_devices [OF assms, of codec] by (simp_all add: prod_eq_iff)
  show w: "rg_world ?r' = rg_world r" "rg_deleted ?r' = rg_deleted r"
    by (simp_all add: findDevices_def split: prod.split)
  then show "live ?r' = live r" by (simp add: live_def fun_eq_iff)
qed

section \<open>Requests\<close>

lemma request_served:
  assumes "cl_session cl = None" "cn_sends (cl_conn cl) = []" "registry_ok r"
    and "devices_of r codec = ds @ d # ds'" "\<forall>b \<in> set ds. all_busy r b"
    and "live r d = Some dev" "device_startSession uninit st dev = (Inr (Some i), dev')"
  obtains cl' r' where "process_Request pb uninit codec st (cl, r) = (Inr (), (cl', r'))"
    "cl' = snd (send_client pb (Response (response_ok (getFraming (dv_channels dev' ! i))))
       (startSession (cl\<lparr>cl_session := Some (d, i)\<rparr>)))"
    "live r' = (live r)(d \<mapsto> dev')" "devices_of r' = devices_of r" "registry_ok r'"
proof -
  obtain r1 where find_devs: "findDevices codec r = (devices_of r codec, r1)" "live r1 = live r"
    "devices_of r1 = devices_of r" "registry_ok r1"
    by (rule findDevices_live [OF assms(3)])
  have busy: "all_busy r1 b = all_busy r b" for b by (simp add: all_busy_def find_devs(2))
  let ?r2 = "set_device d dev' r1"
  let ?cl = "startSession (cl\<lparr>cl_session := Some (d, i)\<rparr>)"
  let ?rs = "response_ok (getFraming (dv_channels dev' ! i))"
  have del: "d \<notin> set (rg_deleted r1)" using assms(6) find_devs(2) live_not_deleted [of r1 d dev] by simp
  have "start_first uninit st (ds @ d # ds') r1 = (Inr (Some (d, i)), ?r2)"
    using assms(5-7) by (simp add: start_first_busy busy on_device_live find_devs(2))
  moreover have "session_getFraming (d, i) ?r2 = (Inr (getFraming (dv_channels dev' ! i)), ?r2)"
    using del by (simp add: session_getFraming_def on_device_live)
  ultimately have "process_Request pb uninit codec st (cl, r) = respond pb ?rs (?cl, ?r2)"
    using assms(1,4)
    by (simp add: process_Request_def stopSession_def serve_request_def find_devs on_registry_def)
  moreover have "cn_sends (cl_conn ?cl) = []" using assms(2) by (simp add: startSession_def)
  moreover have "live ?r2 = (live r)(d \<mapsto> dev')" using del by (simp add: fun_eq_iff find_devs(2))
  moreover have "devices_of ?r2 = devices_of r" "registry_ok ?r2"
    using find_devs(3,4) by (simp_all add: registry_ok_def) (simp_all add: set_device_def)
  ultimately show ?thesis using that by (simp add: respond_sends)
qed


text \<open>A server with one stick of three channels, and a client behind the handshake.\<close>

definition one_stick :: server_registry where
  "one_stick = registerDevice ambe_codecs 0
     (new_Registry (new_world\<lparr>aw_devices := [0 \<mapsto> idle_device (ascii ''AMBE3003F'')], aw_attempts := 1\<rparr>))"

definition greeted_client :: client where
  "greeted_client = (new_ClientConnection (new_Connection 4 [] [] []))\<lparr>cl_pc := Looping\<rparr>"

lemma one_stick:
  "registry_ok one_stick" "devices_of one_stick ''ambe'' = [0]" "devices_of one_stick ''dmr'' = []"
  "live one_stick 0 = Some (idle_device (ascii ''AMBE3003F''))" "rg_deleted one_stick = []"
proof -
  let ?r = "new_Registry (new_world\<lparr>aw_devices := [0 \<mapsto> idle_device (ascii ''AMBE3003F'')], aw_attempts := 1\<rparr>)"
  have r: "registry_ok ?r" "devices_of ?r c = []" for c
    by (simp_all add: registry_ok_def new_Registry_def devices_of_def map_get_def)
  from ambe_dir.add [OF r(1), of 0] r(2)
  show "registry_ok one_stick" "devices_of one_stick ''ambe'' = [0]" "devices_of one_stick ''dmr'' = []"
    by (simp_all add: one_stick_def getCodecs_def)
  show d: "rg_deleted one_stick = []" "live one_stick 0 = Some (idle_device (ascii ''AMBE3003F''))"
    by (simp_all add: one_stick_def registerDevice_def getCodecs_def push_device_def new_Registry_def
        live_def split: prod.split)
qed

lemma greeted_client [simp]:
  "cl_session greeted_client = None" "cn_sends (cl_conn greeted_client) = []"
  "cn_out (cl_conn greeted_client) = []" "cl_run greeted_client" "cl_pc greeted_client = Looping"
  by (simp_all add: greeted_client_def new_ClientConnection_def new_Connection_def)

lemma idle_start:
  "device_startSession (\<lambda>_. 0) no_settings (idle_device (ascii ''AMBE3003F'')) =
     (Inr (Some 0), set_channel 0 reserve (idle_device (ascii ''AMBE3003F'')))"
  by (rule startSession_no_settings) (simp_all add: no_settings_def first_free_idle)


section \<open>Requests that end the server\<close>

lemma renegotiate_bad_index:
  "st_args st ''index'' = Some str \<Longrightarrow> stoi str = Inl e \<Longrightarrow> renegotiate uninit st s = (Inl e, s)"
  by (simp add: renegotiate_def)

lemma on_channel_bad_index:
  "st_args st ''index'' = Some str \<Longrightarrow> stoi str = Inl e \<Longrightarrow> on_channel i (renegotiate uninit st) d = (Inl e, d)"
  by (simp add: on_channel_def renegotiate_bad_index)

text \<open>C32: A client can end the server for everybody: by a renegotiation when it has no session, which
  dereferences a null pointer, and by a request with a codec index out of range, which is an
  exception that no handler on the way catches. The same index in the renegotiation of a session is
  harmless: the answer is an error and nothing changes.\<close>

theorem client_ends_server:
  assumes "registry_ok r" "devices_of r codec = d # ds" "live r d = Some dev"
    and "st_args st ''index'' = Some str" "stoi str = Inl (Raise Out_of_range)"
  shows "(cl_session cl = None \<longrightarrow>
      fst (catch_connection (handle pb uninit (Renegotiation st')) (cl, r)) = Inl (Crash Null_deref) \<and>
      (first_free 0 (dv_channels dev) \<noteq> None \<longrightarrow>
        fst (catch_connection (handle pb uninit (Request codec st)) (cl, r)) = Inl (Raise Out_of_range))) \<and>
    (cl_session cl = Some (d, i) \<and> cn_sends (cl_conn cl) = [] \<longrightarrow>
      (\<exists>cl'. catch_connection (handle pb uninit (Renegotiation st)) (cl, r) = (Inr (), (cl', r)) \<and>
        cl_session cl' = Some (d, i) \<and>
        cn_out (cl_conn cl') = cn_out (cl_conn cl) @ wire pb [Response (response_error [])]))"
proof (intro conjI impI; (elim conjE)?)
  assume none: "cl_session cl = None"
  then show "fst (catch_connection (handle pb uninit (Renegotiation st')) (cl, r)) = Inl (Crash Null_deref)"
    by (simp add: catch_connection_def process_Renegotiation_def)
  assume "first_free 0 (dv_channels dev) \<noteq> None"
  then obtain j where "first_free 0 (dv_channels dev) = Some j" by blast
  then have start: "device_startSession uninit st dev = (Inl (Raise Out_of_range), set_channel j reserve dev)"
    by (simp add: device_startSession_def on_channel_bad_index [OF assms(4,5)])
  obtain r1 where find_devs: "findDevices codec r = (devices_of r codec, r1)" "live r1 = live r"
    by (rule findDevices_live [OF assms(1)])
  then have "start_first uninit st (d # ds) r1 =
      (Inl (Raise Out_of_range), set_device d (set_channel j reserve dev) r1)"
    using assms(3) by (simp add: on_device_live start)
  then have "fst (process_Request pb uninit codec st (cl, r)) = Inl (Raise Out_of_range)"
    by (simp add: process_Request_def stopSession_def none serve_request_def find_devs(1) assms(2)
        on_registry_def)
  then show "fst (catch_connection (handle pb uninit (Request codec st)) (cl, r)) = Inl (Raise Out_of_range)"
    by (cases "process_Request pb uninit codec st (cl, r)") (simp add: catch_connection_def)
next
  assume "cl_session cl = Some (d, i)" "cn_sends (cl_conn cl) = []"
  then show "\<exists>cl'. catch_connection (handle pb uninit (Renegotiation st)) (cl, r) = (Inr (), (cl', r)) \<and>
        cl_session cl' = Some (d, i) \<and>
        cn_out (cl_conn cl') = cn_out (cl_conn cl) @ wire pb [Response (response_error [])]"
    using assms(3) respond_sends(1) [of cl pb "response_error []" r] respond_sends(2) [of cl pb]
    by (simp add: catch_connection_def process_Renegotiation_def on_device_live
        on_channel_bad_index [OF assms(4,5)])
qed

definition huge_index :: settings where
  "huge_index = \<lparr>st_directions = [0, 1], st_args = [''index'' \<mapsto> ''99999999999'']\<rparr>"

theorem client_ends_server_witness:
  "fst (catch_connection (handle unary_protobuf (\<lambda>_. 0) (Renegotiation no_settings)) (greeted_client, one_stick)) =
     Inl (Crash Null_deref) \<and>
   fst (catch_connection (handle unary_protobuf (\<lambda>_. 0) (Request ''ambe'' huge_index)) (greeted_client, one_stick)) =
     Inl (Raise Out_of_range)"
proof -
  have "st_args huge_index ''index'' = Some ''99999999999''" by (simp add: huge_index_def)
  moreover have "stoi ''99999999999'' = Inl (Raise Out_of_range)"
    by (simp add: stoi_def parse_number)
  ultimately show ?thesis
    using client_ends_server [OF one_stick(1,2,4), where st = huge_index and cl = greeted_client and
        pb = unary_protobuf and uninit = "\<lambda>_. 0" and st' = no_settings]
    by (simp add: first_free_idle)
qed

section \<open>A reader that outlives its session\<close>

text \<open>C33: \<^verbatim>\<open>stopSession\<close> releases the channel before it joins the reader. When another client gets the
  channel in between, the first client's reader takes the other client's data from it, to send
  them to the first client.\<close>

theorem reader_takes_foreign_data:
  assumes "cl_session a = Some (d, i)" "cl_reader a = Some Reading" "cl_run a"
    and "live r d = Some dev" "i < length (dv_channels dev)"
    and "\<And>j. j < i \<Longrightarrow> isBusy (dv_channels dev ! j)"
    and "packet_output p = Inr bs" "bs \<noteq> []"
  shows "\<exists>r1 r2 r3.
    stopSession Then_delete k (a, r) = (Inr (), (a\<lparr>cl_pc := Joining Then_delete\<rparr>, r1)) \<and>
    start_first uninit no_settings [d] r1 = (Inr (Some (d, i)), r2) \<and>
    on_device d (\<lambda>dev. (Inr (), set_channel i (channel_receive p) dev)) r2 = (Inr (), r3) \<and>
    fst (snd (reader_work pb (a\<lparr>cl_pc := Joining Then_delete\<rparr>, r3))) =
      a\<lparr>cl_pc := Joining Then_delete, cl_reader := Some (Got bs)\<rparr>"
proof -
  let ?dev1 = "set_channel i release dev"
  let ?dev2 = "set_channel i reserve ?dev1"
  let ?dev3 = "set_channel i (channel_receive p) ?dev2"
  let ?r1 = "set_device d ?dev1 r" and ?a = "a\<lparr>cl_pc := Joining Then_delete\<rparr>"
  let ?r2 = "set_device d ?dev2 ?r1"
  let ?r3 = "set_device d ?dev3 ?r2"
  note del = live_not_deleted [OF assms(4)]
  have stop: "stopSession Then_delete k (a, r) = (Inr (), (?a, ?r1))"
    using assms(1,4) by (simp add: stopSession_def on_registry_def session_end_def on_device_live)
  have "first_free 0 (dv_channels ?dev1) = Some (0 + i)"
    using assms(5,6) by (intro first_free_least) (simp_all add: set_channel_nth)
  then have "device_startSession uninit no_settings ?dev1 = (Inr (Some i), ?dev2)"
    by (intro startSession_no_settings) (simp_all add: no_settings_def)
  then have start: "start_first uninit no_settings [d] ?r1 = (Inr (Some (d, i)), ?r2)"
    using del by (simp add: on_device_live)
  have receive: "on_device d (\<lambda>dev. (Inr (), set_channel i (channel_receive p) dev)) ?r2 = (Inr (), ?r3)"
    using del by (simp add: on_device_live)
  have "push (new_BlockingQueue 10) p False = Push_returns ((new_BlockingQueue 10)\<lparr>bq_items := [p]\<rparr>)"
    by (simp add: push_def new_BlockingQueue_def full_def)
  then have q: "ch_outQueue (dv_channels ?dev3 ! i) = Some ((new_BlockingQueue 10)\<lparr>bq_items := [p]\<rparr>)"
    using assms(5) by (simp add: set_channel_nth channel_receive_def reserve_def)
  have "fst (session_read i ?dev3) = Inr bs"
    using assms(7) by (simp add: session_read_def on_channel_def channel_read_def q pop_def
        new_BlockingQueue_def packet_output_def)
  then have "fst (snd (reader_work pb (?a, ?r3))) = ?a\<lparr>cl_reader := Some (Got bs)\<rparr>"
    using assms(1-3,8) del by (simp add: reader_work_def on_registry_def on_device_live bindS_def)
  with stop start receive show ?thesis by blast
qed

theorem reader_takes_foreign_data_witness:
  "\<exists>a r1 r2 r3. cl_session a = Some (0, 0) \<and>
     start_first (\<lambda>_. 0) no_settings [0] r1 = (Inr (Some (0, 0)), r2) \<and>
     cl_reader (fst (snd (reader_work unary_protobuf (a, r3)))) = Some (Got [0xAB])"
proof -
  let ?dev = "set_channel 0 reserve (idle_device (ascii ''AMBE3003F''))"
  let ?a = "greeted_client\<lparr>cl_session := Some (0, 0), cl_reader := Some Reading\<rparr>"
  have live: "live (set_device 0 ?dev one_stick) 0 = Some ?dev" by (simp add: one_stick)
  have len: "0 < length (dv_channels ?dev)" by (simp add: idle_device_def createChannels_3003)
  obtain r1 r2 r3 where
    "start_first (\<lambda>_. 0) no_settings [0] r1 = (Inr (Some (0, 0)), r2)"
    "fst (snd (reader_work unary_protobuf (?a\<lparr>cl_pc := Joining Then_delete\<rparr>, r3))) =
      ?a\<lparr>cl_pc := Joining Then_delete, cl_reader := Some (Got [0xAB])\<rparr>"
    using reader_takes_foreign_data [where a = ?a, OF _ _ _ live len _ data_packet_output,
        where uninit = "\<lambda>_. 0" and pb = unary_protobuf and k = delete_connection]
    by auto
  then show ?thesis
    by (intro exI [of _ "?a\<lparr>cl_pc := Joining Then_delete\<rparr>"] exI [of _ r1] exI [of _ r2] exI [of _ r3]) simp
qed

end
