(* ===== verification/Resource_Allocation.thy ===== *)
theory Resource_Allocation
  imports Main
begin

text \<open>
  What a server of exclusive resources promises to its clients, stated once: a table says which
  resources are available and which are taken, a client without a resource may take one that is
  available, a client with a resource may give it back, and the table may grow. The channels of the
  registered devices are the resources of the codec server (\<^verbatim>\<open>Server_Sessions\<close>).
\<close>

section \<open>The abstract allocator\<close>

text \<open>
  A state is who owns what together with the table. The five parameters are the operations of an
  allocator.
\<close>

inductive allocates ::
  "('t \<Rightarrow> 'x \<Rightarrow> bool) \<Rightarrow> ('x \<Rightarrow> 't \<Rightarrow> 't) \<Rightarrow> ('x \<Rightarrow> 't \<Rightarrow> 't) \<Rightarrow> ('t \<Rightarrow> 't \<Rightarrow> bool) \<Rightarrow>
    ('n \<Rightarrow> 'x option) \<times> 't \<Rightarrow> ('n \<Rightarrow> 'x option) \<times> 't \<Rightarrow> bool"
  for available acquire give_back grows where
  takes: "own n = None \<Longrightarrow> available t x \<Longrightarrow>
    allocates available acquire give_back grows (own, t) (own(n \<mapsto> x), acquire x t)"
| gives: "own n = Some x \<Longrightarrow>
    allocates available acquire give_back grows (own, t) (own(n := None), give_back x t)"
| table: "grows t t' \<Longrightarrow> allocates available acquire give_back grows (own, t) (own, t')"

text \<open>Everything that is owned is taken, and by one owner only.\<close>

definition exclusively :: "('t \<Rightarrow> 'x \<Rightarrow> bool) \<Rightarrow> ('n \<Rightarrow> 'x option) \<times> 't \<Rightarrow> bool" where
  "exclusively taken s \<longleftrightarrow>
     (\<forall>n x. fst s n = Some x \<longrightarrow> taken (snd s) x) \<and>
     (\<forall>n m x. fst s n = Some x \<longrightarrow> fst s m = Some x \<longrightarrow> n = m)"

lemma exclusivelyI:
  "(\<And>n x. own n = Some x \<Longrightarrow> taken t x) \<Longrightarrow>
   (\<And>n m x. own n = Some x \<Longrightarrow> own m = Some x \<Longrightarrow> n = m) \<Longrightarrow> exclusively taken (own, t)"
  by (simp add: exclusively_def)

lemma exclusively_owned: "exclusively taken s \<Longrightarrow> {x. \<exists>n. fst s n = Some x} \<subseteq> Collect (taken (snd s))"
  by (auto simp: exclusively_def)

lemma exclusively_inj: "exclusively taken s \<Longrightarrow> inj_on (fst s) {n. fst s n \<noteq> None}"
  by (intro inj_onI) (auto simp: exclusively_def)

section \<open>The contract\<close>

locale allocator =
  fixes available taken :: "'t \<Rightarrow> 'x \<Rightarrow> bool"
    and acquire give_back :: "'x \<Rightarrow> 't \<Rightarrow> 't"
    and grows :: "'t \<Rightarrow> 't \<Rightarrow> bool"
  assumes not_taken: "available t x \<Longrightarrow> \<not> taken t x"
    and taken_acquire: "available t x \<Longrightarrow> taken (acquire x t) y \<longleftrightarrow> y = x \<or> taken t y"
    and taken_give_back: "taken t x \<Longrightarrow> taken (give_back x t) y \<longleftrightarrow> taken t y \<and> y \<noteq> x"
    and taken_grows: "grows t t' \<Longrightarrow> taken t x \<Longrightarrow> taken t' x"
begin

lemma exclusively_step:
  assumes "allocates available acquire give_back grows s s'" "exclusively taken s"
  shows "exclusively taken s'"
  using assms
proof (induction rule: allocates.induct)
  case (takes own n t x)
  then have "own m \<noteq> Some x" for m using not_taken [of t x] by (auto simp: exclusively_def)
  with takes show ?case
    by (intro exclusivelyI) (auto simp: exclusively_def taken_acquire split: if_splits)
next
  case (gives own n x t)
  then have "taken t x" "own m = Some x \<Longrightarrow> m = n" for m by (auto simp: exclusively_def)
  with gives show ?case
    by (intro exclusivelyI) (auto simp: exclusively_def taken_give_back split: if_splits)
next
  case (table t t' own)
  then show ?case
    using taken_grows [of t t'] by (intro exclusivelyI) (auto simp: exclusively_def)
qed

lemma exclusively_run:
  "(allocates available acquire give_back grows)\<^sup>*\<^sup>* s s' \<Longrightarrow> exclusively taken s \<Longrightarrow> exclusively taken s'"
  by (induction rule: rtranclp_induct) (auto intro: exclusively_step)

lemma exclusively_from_nothing:
  "(allocates available acquire give_back grows)\<^sup>*\<^sup>* (\<lambda>_. None, t) s \<Longrightarrow> exclusively taken s"
  by (erule exclusively_run) (simp add: exclusively_def)

end

text \<open>An allocator whose resources can be used again: what is given back is available to everyone.\<close>

locale reusable_allocator = allocator +
  assumes available_give_back: "taken t x \<Longrightarrow> available (give_back x t) x"
begin

lemma owned_available: "exclusively taken (own, t) \<Longrightarrow> own n = Some x \<Longrightarrow> available (give_back x t) x"
  by (simp add: exclusively_def available_give_back)

end

end
