(* ===== verification/Channel_Table.thy ===== *)
theory Channel_Table
  imports Client_Connection Resource_Allocation
begin

text \<open>
  The channels of all devices as a table of the busy ones, which is what the clients of a server
  compete for: what every operation on the registry and on its devices does to the table, the
  invariant of the registry that holds them, and how calls on devices can fail.
\<close>

section \<open>The busy table\<close>

definition busy :: "server_registry \<Rightarrow> dev \<Rightarrow> bool list option" where
  "busy r d = map_option (\<lambda>dev. map isBusy (dv_channels dev)) (aw_devices (rg_world r) d)"

definition take_channel :: "dev \<times> nat \<Rightarrow> bool \<Rightarrow> (dev \<Rightarrow> bool list option) \<Rightarrow> dev \<Rightarrow> bool list option" where
  "take_channel sn b t = t(fst sn := map_option (\<lambda>bs. bs[snd sn := b]) (t (fst sn)))"

definition channel_is :: "(dev \<Rightarrow> bool list option) \<Rightarrow> bool \<Rightarrow> dev \<times> nat \<Rightarrow> bool" where
  "channel_is t b sn \<longleftrightarrow> (case t (fst sn) of None \<Rightarrow> False | Some bs \<Rightarrow> snd sn < length bs \<and> bs ! snd sn = b)"

section \<open>Operations on the table\<close>

lemma live_device: "live r d = Some dev \<Longrightarrow> aw_devices (rg_world r) d = Some dev"
  by (simp add: live_def split: if_splits)

lemma busy_set_device: "busy (set_device d dev r) = (busy r)(d \<mapsto> map isBusy (dv_channels dev))"
  by (simp add: busy_def set_device_def fun_eq_iff)

lemma busy_set_device_same:
  "live r d = Some dev \<Longrightarrow> map isBusy (dv_channels dev') = map isBusy (dv_channels dev) \<Longrightarrow>
   busy (set_device d dev' r) = busy r"
  using live_device [of r d dev] by (simp add: busy_set_device fun_eq_iff) (simp add: busy_def)

lemma busy_world: "rg_world r' = rg_world r \<Longrightarrow> busy r' = busy r"
  by (simp add: busy_def fun_eq_iff)

text \<open>Calls on a channel that leave \<^verbatim>\<open>busy\<close> as it is.\<close>

definition keeps_busy :: "(chan \<times> device_queue, 'a) operation \<Rightarrow> bool" where
  "keeps_busy f \<longleftrightarrow> (\<forall>c q. ch_busy (fst (snd (f (c, q)))) = ch_busy c)"

lemma keeps_busy_simps [simp]:
  "keeps_busy (encode bs sz)" "keeps_busy (decode bs sz)" "keeps_busy (renegotiate uninit st)"
  "keeps_busy (\<lambda>(c, q). case channel_read c of (r, c') \<Rightarrow> (r, (c', q)))"
proof -
  show "keeps_busy (encode bs sz)" "keeps_busy (decode bs sz)"
    by (simp_all add: keeps_busy_def channel_setup_frame)
  show "keeps_busy (renegotiate uninit st)"
    unfolding keeps_busy_def by (metis prod.collapse renegotiate_busy)
  show "keeps_busy (\<lambda>(c, q). case channel_read c of (r, c') \<Rightarrow> (r, (c', q)))"
    by (simp add: keeps_busy_def channel_frame split: prod.split) (metis channel_frame(4) snd_conv)
qed

lemma map_isBusy_update:
  "isBusy c = isBusy (cs ! i) \<Longrightarrow> map isBusy (cs[i := c]) = map isBusy cs"
  by (cases "i < length cs") (simp_all add: map_update list_update_same_conv list_update_beyond)

lemma on_channel_busy:
  assumes "keeps_busy f"
  shows "map isBusy (dv_channels (snd (on_channel i f d))) = map isBusy (dv_channels d)"
proof -
  obtain x c q where f: "f (dv_channels d ! i, dv_queue d) = (x, (c, q))" by (rule prod_cases3)
  from assms have "ch_busy (fst (snd (f (dv_channels d ! i, dv_queue d)))) = ch_busy (dv_channels d ! i)"
    unfolding keeps_busy_def by blast
  with f have "isBusy c = isBusy (dv_channels d ! i)" by (simp add: isBusy_def)
  with f show ?thesis by (simp add: on_channel_def map_isBusy_update)
qed

lemma set_channel_receive_busy:
  "map isBusy (dv_channels (set_channel i (channel_receive p) d)) = map isBusy (dv_channels d)"
  by (simp add: set_channel_def map_isBusy_update isBusy_def channel_frame)

lemma receivePacket_busy:
  "map isBusy (dv_channels (snd (device_receivePacket p d))) = map isBusy (dv_channels d)"
  by (auto simp: device_receivePacket_def bindS_def liftS_def set_channel_receive_busy split: sum.split)

lemma startSession_busy:
  assumes "device_startSession uninit st d = (x, d')"
  shows "map isBusy (dv_channels d') =
      (case x of Inr (Some i) \<Rightarrow> (map isBusy (dv_channels d))[i := True]
         | Inr None \<Rightarrow> map isBusy (dv_channels d) | Inl e \<Rightarrow> map isBusy (dv_channels d')) \<and>
    (\<forall>i. x = Inr (Some i) \<longrightarrow> i < length (dv_channels d) \<and> \<not> isBusy (dv_channels d ! i))"
proof (cases "first_free 0 (dv_channels d)")
  case None
  with assms show ?thesis by (auto simp: device_startSession_def)
next
  case (Some i)
  note i = first_free_0 [OF Some]
  obtain r1 d1 where r: "on_channel i (renegotiate uninit st) (set_channel i reserve d) = (r1, d1)"
    by fastforce
  have d1: "map isBusy (dv_channels d1) = (map isBusy (dv_channels d))[i := True]"
    using on_channel_busy [of "renegotiate uninit st" i "set_channel i reserve d"] r i
    by (simp add: set_channel_def map_update)
  then have "map isBusy (dv_channels (set_channel i release d1)) = map isBusy (dv_channels d)"
    using i by (simp add: set_channel_def map_update list_update_same_conv)
  with assms d1 i startSession_eq [OF Some r] show ?thesis
    by (cases r1) (auto split: if_splits)
qed

section \<open>The registry's invariant\<close>

text \<open>
  Every device has been constructed with the channels of its chip; the registered devices are
  different ones that exist and have not been deleted.
\<close>

definition constructed :: "ambe_world \<Rightarrow> bool" where
  "constructed w \<longleftrightarrow>
     (\<forall>d dev. aw_devices w d = Some dev \<longrightarrow> d < aw_attempts w \<and> device_ok dev)"

definition registered :: "(string \<Rightarrow> dev list) \<Rightarrow> dev set \<Rightarrow> dev set \<Rightarrow> bool" where
  "registered devs existing deleted \<longleftrightarrow>
     (\<forall>c. distinct (devs c) \<and> set (devs c) \<subseteq> existing - deleted) \<and> deleted \<subseteq> existing"

definition registry_inv :: "site \<Rightarrow> server_registry \<Rightarrow> bool" where
  "registry_inv site r \<longleftrightarrow> registry_ok r \<and> rg_drivers r = [(''ambe3k'', ambe3k_driver site)] \<and>
     constructed (rg_world r) \<and>
     registered (devices_of r) (dom (aw_devices (rg_world r))) (set (rg_deleted r))"

lemma registry_inv_device_ok: "registry_inv site r \<Longrightarrow> live r d = Some dev \<Longrightarrow> device_ok dev"
  using live_device [of r d dev] by (simp add: registry_inv_def constructed_def)

lemma registry_inv_live:
  assumes "registry_inv site r" "d \<in> set (devices_of r c)"
  shows "\<exists>dev. live r d = Some dev"
proof -
  from assms have "d \<in> dom (aw_devices (rg_world r)) - set (rg_deleted r)"
    unfolding registry_inv_def registered_def by blast
  then show ?thesis by (auto simp: live_def)
qed

lemma registry_ok_set_device [simp]: "registry_ok (set_device d dev r) = registry_ok r"
  by (simp add: registry_ok_def set_device_def)

lemma registry_ok_world [simp]: "registry_ok (r\<lparr>rg_world := w\<rparr>) = registry_ok r"
  by (simp add: registry_ok_def)

lemma registry_inv_set_device:
  assumes "registry_inv site r" "live r d = Some dev" "device_ok dev'"
  shows "registry_inv site (set_device d dev' r)"
proof -
  have w: "aw_devices (rg_world (set_device d dev' r)) = (aw_devices (rg_world r))(d \<mapsto> dev')"
    "aw_attempts (rg_world (set_device d dev' r)) = aw_attempts (rg_world r)"
    "rg_drivers (set_device d dev' r) = rg_drivers r"
    by (simp_all add: set_device_def)
  have dom: "dom ((aw_devices (rg_world r))(d \<mapsto> dev')) = dom (aw_devices (rg_world r))"
    using live_device [OF assms(2)] by auto
  have "constructed (rg_world (set_device d dev' r))"
    using assms(1,3) live_device [OF assms(2)] by (auto simp: registry_inv_def constructed_def w)
  with assms(1) show ?thesis
    unfolding registry_inv_def w dom by simp
qed

lemma registry_inv_findDevices:
  assumes "registry_inv site r" "findDevices codec r = (ds, r')"
  shows "registry_inv site r'" "busy r' = busy r" "live r' = live r" "ds = devices_of r codec"
    "rg_deleted r' = rg_deleted r"
proof -
  have ok: "registry_ok r" using assms(1) by (simp add: registry_inv_def)
  have w: "rg_world r' = rg_world r" "rg_drivers r' = rg_drivers r" "rg_deleted r' = rg_deleted r"
    using assms(2) by (auto simp: findDevices_def split: prod.splits)
  then show "rg_deleted r' = rg_deleted r" "live r' = live r" by (simp_all add: live_def fun_eq_iff)
  have d: "registry_ok r'" "devices_of r' = devices_of r" "ds = devices_of r codec"
    using findDevices_devices [OF ok, of codec] assms(2) by simp_all
  show "registry_inv site r'"
    using assms(1) d(1) unfolding registry_inv_def w d(2) by blast
  show "busy r' = busy r" by (rule busy_world) (rule w)
  show "ds = devices_of r codec" by (rule d)
qed

lemma unregisterDevice_deleted:
  assumes "registry_ok r"
  shows "set (rg_deleted (unregisterDevice d r)) =
    set (rg_deleted r) \<union> {d'. d' = d \<and> (\<exists>c. d \<in> set (devices_of r c))}"
proof -
  have dist: "distinct (map fst (rg_devices r))"
    using assms by (simp add: registry_ok_def map_valid_def strict_sorted_iff)
  have "(\<exists>c vec. (c, vec) \<in> set (rg_devices r) \<and> d \<in> set vec) \<longleftrightarrow> (\<exists>c. d \<in> set (devices_of r c))"
  proof
    assume "\<exists>c vec. (c, vec) \<in> set (rg_devices r) \<and> d \<in> set vec"
    then obtain c vec where "map_of (rg_devices r) c = Some vec" "d \<in> set vec"
      using map_of_is_SomeI [OF dist] by blast
    then have "d \<in> set (devices_of r c)" by (simp add: devices_of_def map_get_def)
    then show "\<exists>c. d \<in> set (devices_of r c)" by blast
  next
    assume "\<exists>c. d \<in> set (devices_of r c)"
    then obtain c where "d \<in> set (devices_of r c)" by blast
    then show "\<exists>c vec. (c, vec) \<in> set (rg_devices r) \<and> d \<in> set vec"
      by (cases "map_of (rg_devices r) c") (auto simp: devices_of_def map_get_def dest: map_of_SomeD)
  qed
  then have "filter (\<lambda>(c, vec). d \<in> set vec) (rg_devices r) = [] \<longleftrightarrow> \<not> (\<exists>c. d \<in> set (devices_of r c))"
    by (auto simp: filter_empty_conv)
  then show ?thesis
    using erase_device_deleted [of d "rg_devices r"]
    by (auto simp: unregisterDevice_def split: prod.split)
qed

lemma registry_inv_unregister:
  assumes "registry_inv site r"
  shows "registry_inv site (unregisterDevice d r)" "busy (unregisterDevice d r) = busy r"
proof -
  have ok: "registry_ok r" using assms by (simp add: registry_inv_def)
  have devs: "devices_of (unregisterDevice d r) = (\<lambda>c. remove1 d (devices_of r c))"
    using unregisterDevice_devices [OF ok, of d] by (simp add: fun_eq_iff)
  have "registered (devices_of r) (dom (aw_devices (rg_world r))) (set (rg_deleted r))"
    using assms by (simp add: registry_inv_def)
  then have "registered (\<lambda>c. remove1 d (devices_of r c)) (dom (aw_devices (rg_world r)))
      (set (rg_deleted (unregisterDevice d r)))"
    unfolding registered_def unregisterDevice_deleted [OF ok] by (auto dest: notin_set_remove1)
  with assms unregisterDevice_devices [OF ok, of d] show "registry_inv site (unregisterDevice d r)"
    unfolding registry_inv_def devs unregisterDevice_frame by blast
  show "busy (unregisterDevice d r) = busy r" by (rule busy_world) simp
qed

lemma registry_inv_addDevice:
  "registry_inv site (r\<lparr>rg_world := addDevice node x (rg_world r)\<rparr>) = registry_inv site r"
  "busy (r\<lparr>rg_world := addDevice node x (rg_world r)\<rparr>) = busy r"
  by (simp_all add: registry_inv_def registry_ok_def constructed_def addDevice_def busy_def fun_eq_iff)

section \<open>New devices\<close>

definition makes_channels :: "error + chan list \<times> tty \<Rightarrow> bool" where
  "makes_channels x \<longleftrightarrow> (\<forall>cs t. x = Inr (cs, t) \<longrightarrow> cs \<in> range createChannels)"

lemma makes_channels_intros:
  "(\<And>x. makes_channels (f x)) \<Longrightarrow> makes_channels (bindE m f)"
  "makes_channels (device_error message)"
  "makes_channels (Inr (createChannels prodId, t))"
  "(\<And>x y. makes_channels (g x y)) \<Longrightarrow> makes_channels (case p of (x, y) \<Rightarrow> g x y)"
  "makes_channels z \<Longrightarrow> (\<And>x. makes_channels (h x)) \<Longrightarrow> makes_channels (case q of None \<Rightarrow> z | Some x \<Rightarrow> h x)"
  "makes_channels z \<Longrightarrow> makes_channels z' \<Longrightarrow> makes_channels (if b then z else z')"
  by (auto simp: makes_channels_def device_error_def split: prod.split option.split)

lemma device_init_channels:
  assumes "device_init uninit t = Inr (cs, t')"
  shows "\<exists>prodId. cs = createChannels prodId"
proof -
  have "makes_channels (device_init uninit t)"
    unfolding device_init_def by (intro makes_channels_intros)
  with assms show ?thesis by (auto simp: makes_channels_def)
qed

lemma new_Device_ok:
  assumes "new_Device strerror sys uninit t baudRate = Inr (dev, t')"
  shows "device_ok dev"
  using assms by (auto simp: new_Device_def createChannels_ok dest: device_init_channels)

lemma registerDevice_frame [simp]:
  "rg_world (registerDevice codecs d r) = rg_world r"
  "rg_drivers (registerDevice codecs d r) = rg_drivers r"
  "rg_deleted (registerDevice codecs d r) = rg_deleted r"
proof -
  have "rg_world (fold (push_device d) cs r) = rg_world r \<and> rg_drivers (fold (push_device d) cs r) = rg_drivers r \<and>
      rg_deleted (fold (push_device d) cs r) = rg_deleted r" for cs
    by (induction cs arbitrary: r) (simp_all add: push_device_def split: prod.split)
  then show "rg_world (registerDevice codecs d r) = rg_world r"
    "rg_drivers (registerDevice codecs d r) = rg_drivers r"
    "rg_deleted (registerDevice codecs d r) = rg_deleted r"
    by (simp_all add: registerDevice_def)
qed

text \<open>A construction that succeeds adds the device with the number of the attempt.\<close>

lemma construct_Inr:
  assumes "construct site node rate w = (Inr d, w')"
  obtains dev where "d = aw_attempts w" "device_ok dev"
    "aw_devices w' = (aw_devices w)(d \<mapsto> dev)" "aw_attempts w' = aw_attempts w + 1"
proof -
  from assms obtain dev t where dev: "new_Device (site_strerror site) (site_calls site node (aw_attempts w))
      (site_memory site) (site_line site node (aw_attempts w)) rate = Inr (dev, t)" "d = aw_attempts w"
    "w' = w\<lparr>aw_attempts := aw_attempts w + 1, aw_devices := (aw_devices w)(d \<mapsto> dev)\<rparr>"
    by (auto simp: construct_def Let_def split: sum.splits)
  with that [of dev] new_Device_ok [OF dev(1)] show ?thesis by simp
qed

lemma construct_Inl:
  "construct site node rate w = (Inl e, w') \<Longrightarrow>
   aw_devices w' = aw_devices w \<and> aw_attempts w' = aw_attempts w + 1"
  by (auto simp: construct_def Let_def split: sum.splits)

lemma addDevice_frame [simp]:
  "aw_devices (addDevice n x w) = aw_devices w" "aw_attempts (addDevice n x w) = aw_attempts w"
  by (simp_all add: addDevice_def)

text \<open>What building a device does to the driver's state.\<close>

lemma build_effect:
  assumes "buildFromConfiguration site config w = (x, w')"
  shows "(\<forall>d. x = Inr (Some d) \<longrightarrow> d = aw_attempts w \<and> (\<exists>dev. device_ok dev \<and>
      aw_devices w' = (aw_devices w)(d \<mapsto> dev) \<and> aw_attempts w' = aw_attempts w + 1)) \<and>
    ((\<forall>d. x \<noteq> Inr (Some d)) \<longrightarrow> aw_devices w' = aw_devices w \<and> aw_attempts w \<le> aw_attempts w')"
proof (cases "map_get config ''tty''")
  case tty: (Some node)
  show ?thesis
  proof (cases "map_get config ''baudrate''")
    case rate: (Some str)
    show ?thesis
    proof (cases "stoul str")
      case (Inr n)
      let ?w = "addDevice node \<lparr>rn_config = config, rn_device = None\<rparr> w"
      obtain y w1 where c: "construct site node (n mod 2 ^ 32) ?w = (y, w1)" by fastforce
      show ?thesis
      proof (cases y)
        case (Inl e)
        with c assms tty rate Inr construct_Inl [of site node "n mod 2 ^ 32" ?w e w1] show ?thesis
          by (auto simp: buildFromConfiguration_def)
      next
        case d: (Inr d)
        from construct_Inr [OF c [unfolded d]] obtain dev where "d = aw_attempts w" "device_ok dev"
          "aw_devices w1 = (aw_devices w)(d \<mapsto> dev)" "aw_attempts w1 = aw_attempts w + 1" by auto
        with c d assms tty rate Inr show ?thesis by (auto simp: buildFromConfiguration_def)
      qed
    qed (use assms tty rate in \<open>auto simp: buildFromConfiguration_def split: if_splits\<close>)
  qed (use assms tty in \<open>auto simp: buildFromConfiguration_def\<close>)
qed (use assms in \<open>auto simp: buildFromConfiguration_def\<close>)

lemma registry_inv_no_device:
  assumes "registry_inv site r" "aw_devices w = aw_devices (rg_world r)" "aw_attempts (rg_world r) \<le> aw_attempts w"
  shows "registry_inv site (r\<lparr>rg_world := w\<rparr>)" "busy (r\<lparr>rg_world := w\<rparr>) = busy r"
proof -
  have "constructed w" using assms by (fastforce simp: registry_inv_def constructed_def)
  with assms(1,2) show "registry_inv site (r\<lparr>rg_world := w\<rparr>)"
    by (simp add: registry_inv_def)
  show "busy (r\<lparr>rg_world := w\<rparr>) = busy r" using assms(2) by (simp add: busy_def fun_eq_iff)
qed

lemma registry_inv_new_device:
  assumes "registry_inv site r" "aw_devices w = (aw_devices (rg_world r))(d \<mapsto> dev)"
    and "aw_attempts w = aw_attempts (rg_world r) + 1" "d = aw_attempts (rg_world r)" "device_ok dev"
  shows "registry_inv site (registerDevice ambe_codecs d (r\<lparr>rg_world := w\<rparr>))"
    "busy r \<subseteq>\<^sub>m busy (registerDevice ambe_codecs d (r\<lparr>rg_world := w\<rparr>))"
proof -
  have fresh: "aw_devices (rg_world r) d = None"
    using assms(1,4) by (cases "aw_devices (rg_world r) d") (auto simp: registry_inv_def constructed_def)
  have ok: "registry_ok (r\<lparr>rg_world := w\<rparr>)" using assms(1) by (simp add: registry_inv_def)
  have "constructed w"
    using assms by (fastforce simp: registry_inv_def constructed_def)
  moreover have "registered (devices_of (registerDevice ambe_codecs d (r\<lparr>rg_world := w\<rparr>)))
      (dom (aw_devices w)) (set (rg_deleted r))"
  proof -
    have "registered (devices_of r) (dom (aw_devices (rg_world r))) (set (rg_deleted r))"
      using assms(1) by (simp add: registry_inv_def)
    moreover have "d \<notin> dom (aw_devices (rg_world r))" using fresh by auto
    ultimately show ?thesis
      using ambe_dir.add [OF ok] unfolding registered_def assms(2) by auto
  qed
  ultimately show "registry_inv site (registerDevice ambe_codecs d (r\<lparr>rg_world := w\<rparr>))"
    using assms(1) ambe_dir.add [OF ok] by (simp add: registry_inv_def)
  show "busy r \<subseteq>\<^sub>m busy (registerDevice ambe_codecs d (r\<lparr>rg_world := w\<rparr>))"
    using fresh by (auto simp: busy_def map_le_def assms(2))
qed

lemma registry_inv_load:
  assumes "registry_inv site r" "loadDeviceFromConfig ambe_codecs config r = (x, r')"
  shows "registry_inv site r' \<and> busy r \<subseteq>\<^sub>m busy r'"
proof (cases "\<exists>name driver. map_get config ''driver'' = Some name \<and> map_get (rg_drivers r) name = Some driver")
  case True
  then have name: "map_get config ''driver'' = Some ''ambe3k''"
    and driver: "map_get (rg_drivers r) ''ambe3k'' = Some (ambe3k_driver site)"
    using assms(1) by (auto simp: registry_inv_def map_get_def split: if_splits)
  obtain y w where b: "buildFromConfiguration site config (rg_world r) = (y, w)" by fastforce
  note effect = build_effect [OF b]
  show ?thesis
  proof (cases "\<exists>d. y = Inr (Some d)")
    case True
    then obtain d where d: "y = Inr (Some d)" by blast
    with effect obtain dev where "d = aw_attempts (rg_world r)" "device_ok dev"
      "aw_devices w = (aw_devices (rg_world r))(d \<mapsto> dev)" "aw_attempts w = aw_attempts (rg_world r) + 1"
      by blast
    moreover have "r' = registerDevice ambe_codecs d (r\<lparr>rg_world := w\<rparr>)"
      using assms(2) name driver b d
      by (simp add: loadDeviceFromConfig_def ambe3k_driver_def Driver_default_def)
    ultimately show ?thesis using registry_inv_new_device [OF assms(1)] by blast
  next
    case False
    with effect have "aw_devices w = aw_devices (rg_world r)" "aw_attempts (rg_world r) \<le> aw_attempts w"
      by auto
    moreover have "r' = r\<lparr>rg_world := w\<rparr>"
      using assms(2) name driver b False
      by (auto simp: loadDeviceFromConfig_def ambe3k_driver_def Driver_default_def
          split: sum.splits option.splits)
    ultimately show ?thesis using registry_inv_no_device [OF assms(1)] by auto
  qed
next
  case False
  with assms have "r' = r" by (auto simp: loadDeviceFromConfig_def split: option.splits)
  with assms(1) show ?thesis by simp
qed

lemma registry_inv_event:
  assumes "registry_inv site r" "handle_event ev r = (x, r')"
  shows "registry_inv site r' \<and> busy r \<subseteq>\<^sub>m busy r'"
proof (cases ev)
  case (Udev_event action node)
  have remove: "registry_inv site (udev_remove node r) \<and> busy (udev_remove node r) = busy r"
  proof -
    have "registry_inv site ((unregisterDevice d r)\<lparr>rg_world := addDevice node m (rg_world r)\<rparr>) \<and>
        busy ((unregisterDevice d r)\<lparr>rg_world := addDevice node m (rg_world r)\<rparr>) = busy r" for d m
      using registry_inv_addDevice(1) [where site = site and r = "unregisterDevice d r"]
        registry_inv_addDevice(2) [where r = "unregisterDevice d r"] registry_inv_unregister [OF assms(1), of d]
      by simp
    with assms(1) show ?thesis by (auto simp: udev_remove_def split: option.split)
  qed
  have add: "registry_inv site (snd (udev_add node r)) \<and> busy r \<subseteq>\<^sub>m busy (snd (udev_add node r))"
    using assms(1) registry_inv_load [OF assms(1) prod.collapse [symmetric]]
    by (auto simp: udev_add_def split: option.split)
  show ?thesis
    using assms remove add by (auto simp: Udev_event split: if_splits)
qed

definition channel_exists :: "(dev \<Rightarrow> bool list option) \<Rightarrow> dev \<times> nat \<Rightarrow> bool" where
  "channel_exists t sn \<longleftrightarrow> (case t (fst sn) of None \<Rightarrow> False | Some bs \<Rightarrow> snd sn < length bs)"

lemma channel_exists_take [simp]: "channel_exists (take_channel sn b t) = channel_exists t"
  by (auto simp: channel_exists_def take_channel_def fun_eq_iff split: option.split)

lemma take_channel_back: "channel_is t False sn \<Longrightarrow> take_channel sn False (take_channel sn True t) = t"
  by (auto simp: channel_is_def take_channel_def fun_eq_iff split: option.splits)
    (metis list_update_id)

lemma channel_is_exists: "channel_is t b sn \<Longrightarrow> channel_exists t sn"
  by (auto simp: channel_is_def channel_exists_def split: option.splits)

lemma channel_exists_live:
  "channel_exists (busy r) (d, i) \<Longrightarrow> live r d = Some dev \<Longrightarrow> i < length (dv_channels dev)"
  using live_device [of r d dev] by (simp add: channel_exists_def busy_def)

lemma call_on_device:
  assumes "registry_inv site r" "channel_exists (busy r) (d, i)" "call_ok f" "keeps_busy f"
    and "on_device d (on_channel i f) r = (x, r')"
  shows "registry_inv site r' \<and> busy r' = busy r"
proof (cases "live r d")
  case None
  with assms show ?thesis by (simp add: on_device_def)
next
  case (Some dev)
  obtain y dev' where c: "on_channel i f dev = (y, dev')" by fastforce
  have "device_ok dev'"
    using on_channel_ok [OF assms(3) registry_inv_device_ok [OF assms(1) Some] _ c]
      channel_exists_live [OF assms(2) Some] by simp
  moreover have "busy (set_device d dev' r) = busy r"
    using busy_set_device_same [OF Some] on_channel_busy [OF assms(4), of i dev] c by simp
  moreover have "r' = set_device d dev' r" using assms(5) Some c by (simp add: on_device_live)
  ultimately show ?thesis using registry_inv_set_device [OF assms(1) Some] by simp
qed

lemma read_on_device:
  assumes "registry_inv site r" "channel_exists (busy r) (d, i)" "on_device d (session_read i) r = (x, r')"
  shows "registry_inv site r' \<and> busy r' = busy r"
  using call_on_device [OF assms(1,2) call_ok_read] assms(3) by (simp add: session_read_def)

lemma session_getFraming_frame:
  "session_getFraming sn r = (x, r') \<Longrightarrow> r' = r"
  by (auto simp: session_getFraming_def on_device_def split: option.splits)

lemma session_end_effect:
  assumes "registry_inv site r" "channel_exists (busy r) sn" "session_end sn r = (Inr (), r')"
  shows "registry_inv site r' \<and> busy r' = take_channel sn False (busy r)"
proof -
  obtain d i where sn: "sn = (d, i)" by fastforce
  show ?thesis
  proof (cases "live r d")
    case None
    with assms(3) sn show ?thesis by (simp add: session_end_def on_device_def)
  next
    case (Some dev)
    have i: "i < length (dv_channels dev)" using channel_exists_live assms(2) Some sn by simp
    have "device_ok (set_channel i release dev)"
      using registry_inv_device_ok [OF assms(1) Some] i
      by (intro set_channel_ok) (simp_all add: channel_frame)
    moreover have "busy (set_device d (set_channel i release dev) r) = take_channel sn False (busy r)"
      using i live_device [OF Some]
      by (simp add: busy_set_device sn take_channel_def fun_eq_iff set_channel_def map_update)
        (simp add: busy_def)
    ultimately show ?thesis
      using assms(3) Some sn registry_inv_set_device [OF assms(1) Some]
      by (auto simp: session_end_def on_device_live)
  qed
qed

lemma start_first_effect:
  "registry_inv site r \<Longrightarrow> start_first uninit st ds r = (x, r') \<Longrightarrow>
   (x = Inr None \<longrightarrow> registry_inv site r' \<and> busy r' = busy r) \<and>
   (\<forall>sn. x = Inr (Some sn) \<longrightarrow> registry_inv site r' \<and> channel_is (busy r) False sn \<and>
      busy r' = take_channel sn True (busy r))"
proof (induction ds arbitrary: r)
  case (Cons d ds)
  show ?case
  proof (cases "live r d")
    case None
    with Cons.prems show ?thesis by (auto simp: on_device_def)
  next
    case (Some dev)
    obtain y dev' where y: "device_startSession uninit st dev = (y, dev')" by fastforce
    then have on: "on_device d (device_startSession uninit st) r = (y, set_device d dev' r)"
      using Some by (simp add: on_device_live)
    have inv: "registry_inv site (set_device d dev' r)"
      using startSession_ok [OF registry_inv_device_ok [OF Cons.prems(1) Some] y]
        registry_inv_set_device [OF Cons.prems(1) Some] by simp
    note sb = startSession_busy [OF y]
    show ?thesis
    proof (cases y)
      case (Inl e)
      with Cons.prems(2) on show ?thesis by auto
    next
      case (Inr res)
      show ?thesis
      proof (cases res)
        case None
        have "busy (set_device d dev' r) = busy r"
          by (rule busy_set_device_same [OF Some]) (use sb Inr None in simp)
        with Cons.IH [OF inv] Cons.prems(2) on Inr None show ?thesis by simp
      next
        case i: (Some i)
        have "channel_is (busy r) False (d, i)"
          using sb Inr i live_device [OF Some] by (simp add: channel_is_def busy_def)
        moreover have "busy (set_device d dev' r) = take_channel (d, i) True (busy r)"
          using sb Inr i live_device [OF Some]
          by (simp add: busy_set_device take_channel_def fun_eq_iff) (simp add: busy_def)
        ultimately show ?thesis using Cons.prems(2) on Inr i inv by auto
      qed
    qed
  qed
qed auto

section \<open>How calls fail\<close>

definition bad_index :: "settings \<Rightarrow> error \<Rightarrow> bool" where
  "bad_index st e \<longleftrightarrow> (case st_args st ''index'' of None \<Rightarrow> False | Some str \<Rightarrow> stoi str = Inl e)"

lemma bad_index_errors: "bad_index st e \<Longrightarrow> e = Raise Invalid_argument \<or> e = Raise Out_of_range"
  by (auto simp: bad_index_def dest: stoi_errors split: option.splits)

text \<open>Only the device's queue makes a call that builds its packet fail, by waiting.\<close>

lemma write_fails:
  assumes "builds m k body" "queue_ok q" "bindS (liftS m) writePacket (c, q) = (Inl e, s)"
  shows "e = Waits"
proof -
  from assms(1) obtain p where p: "m = Inr p" by (rule buildsE)
  have q: "queue_open q" using assms(2) by (simp add: queue_ok_def)
  show ?thesis
  proof (cases "length (bq_items q) < queue_capacity q")
    case True
    with assms(3) p writePacket_room [OF q, of p c] show ?thesis by simp
  next
    case False
    with assms(3) p writePacket_full [OF q, of p c] show ?thesis by simp
  qed
qed

lemma renegotiate_fails:
  assumes "ch_index c \<le> 3" "queue_ok q" "renegotiate uninit st (c, q) = (Inl e, s)"
  shows "e = Waits \<or> bad_index st e"
proof (cases "st_args st ''index''")
  case (Some str)
  let ?dir = "direction_bits (st_directions st)"
  show ?thesis
  proof (cases "stoi str")
    case (Inl e')
    with assms(3) Some show ?thesis by (simp add: renegotiate_def bad_index_def)
  next
    case (Inr i)
    from builds_SetupRequest_index [OF assms(1), of "word_of_int i" ?dir] assms(2)
    have "e = Waits"
      by (rule write_fails) (use assms(3) Some Inr in \<open>simp add: renegotiate_def setup_index_def\<close>)
    then show ?thesis by simp
  qed
next
  case none: None
  show ?thesis
  proof (cases "st_args st ''ratep''")
    case (Some str)
    let ?dir = "direction_bits (st_directions st)"
    obtain w where w: "parseRatePString uninit str = Inr w" using parseRatePString_total by blast
    show ?thesis
    proof (cases w)
      case None
      with assms(3) none Some w show ?thesis by (simp add: renegotiate_def liftS_def [of "Inr ()"])
    next
      case cwds: (Some cwds)
      have "length cwds = 6" using w cwds parseRatePString_length by simp
      from builds_SetupRequest_ratep [OF assms(1) this, of ?dir] assms(2)
      have "e = Waits"
        by (rule write_fails) (use assms(3) none Some w cwds in \<open>simp add: renegotiate_def setup_ratep_def\<close>)
      then show ?thesis by simp
    qed
  qed (use assms(3) none in \<open>simp add: renegotiate_def\<close>)
qed

lemma decode_fails:
  assumes "ch_index c \<le> 3" "queue_ok q" "decode bs (length bs) (c, q) = (Inl e, s)"
  shows "e = Waits"
proof -
  have "(unat (of_nat (length bs * 8) :: byte) + 7) div 8 \<le> length bs" by (simp only: channel_bits mod_le_self)
  from builds_ChannelPacket [OF assms(1) this] assms(2) show ?thesis
    by (rule write_fails) (use assms(3) in \<open>simp add: decode_def\<close>)
qed

lemma encode_fails:
  assumes "ch_index c \<le> 3" "queue_ok q" "encode bs (length bs) (c, q) = (Inl e, s)"
  shows "e = Waits"
proof -
  have "unat (of_nat (length bs div 2) :: byte) * 2 \<le> length bs"
    using mod_le_self [of "length bs div 2" 256] unfolding speech_samples by linarith
  from builds_SpeechPacket [OF assms(1) this] assms(2) show ?thesis
    by (rule write_fails) (use assms(3) in \<open>simp add: encode_def\<close>)
qed

lemma device_ok_channel:
  assumes "device_ok dev" "i < length (dv_channels dev)"
  shows "ch_index (dv_channels dev ! i) \<le> 3" "queue_ok (dv_queue dev)"
proof -
  have "ch_index (dv_channels dev ! i) = of_nat i" "length (dv_channels dev) \<le> 3"
    using assms nth_map [of i "dv_channels dev" ch_index] by (simp_all add: device_ok_def)
  moreover have "i = 0 \<or> i = 1 \<or> i = 2" using assms(2) calculation(2) by auto
  ultimately show "ch_index (dv_channels dev ! i) \<le> 3" by auto
  show "queue_ok (dv_queue dev)" using assms(1) by (simp add: device_ok_def)
qed

lemma on_channel_fails:
  assumes "on_channel i f dev = (Inl e, dev')" "device_ok dev" "i < length (dv_channels dev)"
  obtains s where "f (dv_channels dev ! i, dv_queue dev) = (Inl e, s)"
    "ch_index (dv_channels dev ! i) \<le> 3" "queue_ok (dv_queue dev)"
  using assms device_ok_channel [OF assms(2,3)] that
  by (auto simp: on_channel_def split: prod.splits)

lemma device_startSession_fails:
  assumes "device_ok dev" "device_startSession uninit st dev = (Inl e, dev')"
  shows "e = Waits \<or> e = Raise Out_of_range \<and> bad_index st e"
proof -
  obtain i where i: "first_free 0 (dv_channels dev) = Some i"
    using assms(2) by (cases "first_free 0 (dv_channels dev)") (simp_all add: device_startSession_def)
  note len = first_free_0 [OF i]
  obtain x d1 where x: "on_channel i (renegotiate uninit st) (set_channel i reserve dev) = (x, d1)"
    by fastforce
  have e: "x = Inl e" "e \<noteq> Raise Invalid_argument"
    using assms(2) startSession_eq [OF i x] by (cases x; simp split: if_splits)+
  have "device_ok (set_channel i reserve dev)"
    using assms(1) len(1) by (rule set_channel_ok) (simp_all add: channel_frame)
  from on_channel_fails [OF x [unfolded e(1)] this] len(1) obtain s where
    "renegotiate uninit st (dv_channels (set_channel i reserve dev) ! i,
       dv_queue (set_channel i reserve dev)) = (Inl e, s)"
    "ch_index (dv_channels (set_channel i reserve dev) ! i) \<le> 3"
    "queue_ok (dv_queue (set_channel i reserve dev))"
    by auto
  from renegotiate_fails [OF this(2,3,1)] e(2) bad_index_errors [of st e] show ?thesis by auto
qed

lemma start_first_fails:
  "registry_inv site r \<Longrightarrow> (\<And>d. d \<in> set ds \<Longrightarrow> live r d \<noteq> None) \<Longrightarrow>
   start_first uninit st ds r = (Inl e, r') \<Longrightarrow> e = Waits \<or> e = Raise Out_of_range \<and> bad_index st e"
proof (induction ds arbitrary: r)
  case (Cons d ds)
  from Cons.prems(2) [of d] obtain dev where dev: "live r d = Some dev" by auto
  note ok = registry_inv_device_ok [OF Cons.prems(1) dev]
  obtain y dev' where y: "device_startSession uninit st dev = (y, dev')" by fastforce
  then have on: "on_device d (device_startSession uninit st) r = (y, set_device d dev' r)"
    using dev by (simp add: on_device_live)
  have inv: "registry_inv site (set_device d dev' r)"
    using startSession_ok [OF ok y] registry_inv_set_device [OF Cons.prems(1) dev] by simp
  show ?case
  proof (cases y)
    case (Inl e')
    with Cons.prems(3) on y device_startSession_fails [OF ok] show ?thesis by auto
  next
    case (Inr res)
    with Cons.prems(3) on have "start_first uninit st ds (set_device d dev' r) = (Inl e, r')"
      by (cases res) auto
    moreover have "live (set_device d dev' r) d' \<noteq> None" if "d' \<in> set ds" for d'
      using Cons.prems(2) [of d'] that by auto
    ultimately show ?thesis using Cons.IH [OF inv] by blast
  qed
qed simp

lemma start_first_live:
  "start_first uninit st ds r = (Inr (Some sn), r') \<Longrightarrow> \<exists>dev. live r' (fst sn) = Some dev"
proof (induction ds arbitrary: r)
  case (Cons d ds)
  show ?case
  proof (cases "live r d")
    case None
    with Cons.prems show ?thesis by (simp add: on_device_def)
  next
    case (Some dev)
    obtain y dev' where "device_startSession uninit st dev = (y, dev')" by fastforce
    then have "on_device d (device_startSession uninit st) r = (y, set_device d dev' r)"
      using Some by (simp add: on_device_live)
    with Cons Some live_not_deleted [OF Some] show ?thesis
      by (auto split: sum.splits option.splits)
  qed
qed simp

lemma on_device_fails:
  assumes "on_device d f r = (Inl e, r')"
  obtains "live r d = None" "e = Crash Use_after_free"
  | dev dev' where "live r d = Some dev" "f dev = (Inl e, dev')"
  using assms by (auto simp: on_device_def split: option.splits prod.splits)

lemma call_fails:
  assumes "registry_inv site r" "channel_exists (busy r) (d, i)" "on_device d (on_channel i f) r = (Inl e, r')"
    and "\<And>c q s. ch_index c \<le> 3 \<Longrightarrow> queue_ok q \<Longrightarrow> f (c, q) = (Inl e, s) \<Longrightarrow> P"
  shows "live r d = None \<and> e = Crash Use_after_free \<or> P"
  using assms(3)
proof (rule on_device_fails)
  fix dev dev'
  assume dev: "live r d = Some dev" "on_channel i f dev = (Inl e, dev')"
  from on_channel_fails [OF dev(2) registry_inv_device_ok [OF assms(1) dev(1)]
      channel_exists_live [OF assms(2) dev(1)]] assms(4)
  show ?thesis by metis
qed simp

section \<open>Channels as resources\<close>

lemma channel_is_le: "channel_is t b sn \<Longrightarrow> t \<subseteq>\<^sub>m t' \<Longrightarrow> channel_is t' b sn"
  by (cases "t (fst sn)") (auto simp: channel_is_def map_le_def dom_def split: option.splits)

lemma channel_exists_le: "channel_exists t sn \<Longrightarrow> t \<subseteq>\<^sub>m t' \<Longrightarrow> channel_exists t' sn"
  by (cases "t (fst sn)") (auto simp: channel_exists_def map_le_def dom_def split: option.splits)

lemma channel_is_take:
  "channel_exists t sn \<Longrightarrow> channel_is (take_channel sn b t) b' sn' =
     (if sn' = sn then b' = b else channel_is t b' sn')"
  by (cases sn; cases sn'; cases "t (fst sn)")
    (auto simp: channel_is_def take_channel_def channel_exists_def nth_list_update split: option.splits)

interpretation channels: reusable_allocator "\<lambda>t. channel_is t False" "\<lambda>t. channel_is t True"
  "\<lambda>sn. take_channel sn True" "\<lambda>sn. take_channel sn False" "(\<subseteq>\<^sub>m)"
proof
  fix t t' :: "dev \<Rightarrow> bool list option" and sn sn' :: "dev \<times> nat"
  show "\<not> channel_is t True sn" if "channel_is t False sn"
    using that by (auto simp: channel_is_def split: option.splits)
  show "channel_is (take_channel sn True t) True sn' = (sn' = sn \<or> channel_is t True sn')"
    if "channel_is t False sn"
    using channel_is_take [OF channel_is_exists [OF that]] by auto
  show "channel_is (take_channel sn False t) True sn' = (channel_is t True sn' \<and> sn' \<noteq> sn)"
    if "channel_is t True sn"
    using channel_is_take [OF channel_is_exists [OF that]] by auto
  show "channel_is t' True sn" if "t \<subseteq>\<^sub>m t'" "channel_is t True sn"
    using that channel_is_le by blast
  show "channel_is (take_channel sn False t) False sn" if "channel_is t True sn"
    using channel_is_take [OF channel_is_exists [OF that]] by simp
qed

abbreviation allocates_channel ::
  "('n \<Rightarrow> (dev \<times> nat) option) \<times> (dev \<Rightarrow> bool list option) \<Rightarrow>
   ('n \<Rightarrow> (dev \<times> nat) option) \<times> (dev \<Rightarrow> bool list option) \<Rightarrow> bool" where
  "allocates_channel \<equiv> allocates (\<lambda>t. channel_is t False) (\<lambda>sn. take_channel sn True)
     (\<lambda>sn. take_channel sn False) (\<subseteq>\<^sub>m)"

end
