(* ===== verification/Client_Turns.thy ===== *)
theory Client_Turns
  imports Channel_Table
begin

text \<open>
  What one step of a client does to the table of channels: the invariant of a client, the
  allocation that a step may make, and the errors with which it may end, for every message and
  every state of the connection's threads.
\<close>

section \<open>Clients and the table\<close>

text \<open>A client owns the channel of its session until it ends the session.\<close>

definition owned :: "client \<Rightarrow> (dev \<times> nat) option" where
  "owned cl = (case cl_pc cl of Joining k \<Rightarrow> None | _ \<Rightarrow> cl_session cl)"

text \<open>
  A step of a client's threads keeps the table and the channel it owns, or takes a channel that is
  free, or gives the one that it owns back.
\<close>

definition allocation :: "client \<times> server_registry \<Rightarrow> client \<times> server_registry \<Rightarrow> bool" where
  "allocation s s' \<longleftrightarrow>
     owned (fst s') = owned (fst s) \<and> busy (snd s') = busy (snd s) \<or>
     (\<exists>sn. owned (fst s) = None \<and> owned (fst s') = Some sn \<and> channel_is (busy (snd s)) False sn \<and>
        busy (snd s') = take_channel sn True (busy (snd s))) \<or>
     (\<exists>sn. owned (fst s) = Some sn \<and> owned (fst s') = None \<and>
        busy (snd s') = take_channel sn False (busy (snd s)))"

text \<open>
  A session always comes with a reader and with a channel that exists, and a reader that is done
  has cleared \<^verbatim>\<open>run\<close>.
\<close>

fun pc_ok :: "client_pc \<Rightarrow> (dev \<times> nat) option \<Rightarrow> bool" where
  "pc_ok (Joining k) sn \<longleftrightarrow> sn \<noteq> None"
| "pc_ok Looping sn \<longleftrightarrow> True"
| "pc_ok Handshaking sn \<longleftrightarrow> sn = None"
| "pc_ok Deleted sn \<longleftrightarrow> sn = None"

definition client_ok :: "client \<Rightarrow> bool" where
  "client_ok cl \<longleftrightarrow>
     (cl_session cl = None \<longleftrightarrow> cl_reader cl = None) \<and>
     pc_ok (cl_pc cl) (cl_session cl) \<and>
     (cl_reader cl = Some Reader_done \<longrightarrow> \<not> cl_run cl)"

definition turn_ok :: "site \<Rightarrow> client \<times> server_registry \<Rightarrow> bool" where
  "turn_ok site s \<longleftrightarrow> client_ok (fst s) \<and> registry_inv site (snd s) \<and>
     set_option (cl_session (fst s)) \<subseteq> Collect (channel_exists (busy (snd s)))"

section \<open>Steps of a client\<close>

lemma respond_fails: "respond pb rs s = (Inl e, s') \<Longrightarrow> e = Raise (Connection_exception ''sending response failed'')"
  by (auto simp: respond_def split: prod.splits if_splits)

lemma allocation_delete:
  assumes "allocation s s1" "owned (fst s2) = None"
    and "busy (snd s2) = (case owned (fst s1) of None \<Rightarrow> busy (snd s1)
           | Some sn \<Rightarrow> take_channel sn False (busy (snd s1)))"
  shows "allocation s s2"
  using assms(1) unfolding allocation_def
proof (elim disjE exE conjE)
  assume "owned (fst s1) = owned (fst s)" "busy (snd s1) = busy (snd s)"
  with assms(2,3) show "owned (fst s2) = owned (fst s) \<and> busy (snd s2) = busy (snd s) \<or>
      (\<exists>sn. owned (fst s) = None \<and> owned (fst s2) = Some sn \<and> channel_is (busy (snd s)) False sn \<and>
         busy (snd s2) = take_channel sn True (busy (snd s))) \<or>
      (\<exists>sn. owned (fst s) = Some sn \<and> owned (fst s2) = None \<and>
         busy (snd s2) = take_channel sn False (busy (snd s)))"
    by (cases "owned (fst s)") simp_all
qed (use assms(2,3) take_channel_back in simp_all)

lemma allocation_same: "owned (fst s') = owned (fst s) \<Longrightarrow> busy (snd s') = busy (snd s) \<Longrightarrow> allocation s s'"
  by (simp add: allocation_def)

text \<open>\<^verbatim>\<open>stopSession\<close> when there is a session.\<close>

lemma stop_effect:
  assumes "turn_ok site s" "cl_session (fst s) = Some sn" "stopSession k f s = (Inr (), s')"
  shows "turn_ok site s' \<and> owned (fst s') = None \<and> busy (snd s') = take_channel sn False (busy (snd s))"
proof -
  from assms(2,3) obtain r' where r': "session_end sn (snd s) = (Inr (), r')"
    "s' = ((fst s)\<lparr>cl_pc := Joining k\<rparr>, r')"
    by (auto simp: stopSession_def on_registry_def bindS_def split: sum.splits prod.splits)
  with assms session_end_effect [of site "snd s" sn r'] show ?thesis
    by (auto simp: turn_ok_def owned_def client_ok_def split: client_pc.splits)
qed

lemma delete_connection_effect:
  assumes "turn_ok site s" "cl_session (fst s) = None"
  shows "turn_ok site (snd (delete_connection s)) \<and> owned (fst (snd (delete_connection s))) = None \<and>
    busy (snd (snd (delete_connection s))) = busy (snd s)"
  using assms by (simp add: delete_connection_def turn_ok_def client_ok_def owned_def)

lemma delete_effect:
  assumes "turn_ok site s" "cl_pc (fst s) \<in> {Handshaking, Looping}" "delete_client s = (Inr (), s')"
  shows "turn_ok site s' \<and> owned (fst s') = None \<and>
    busy (snd s') = (case owned (fst s) of None \<Rightarrow> busy (snd s)
           | Some sn \<Rightarrow> take_channel sn False (busy (snd s)))"
proof (cases "cl_session (fst s)")
  case None
  have "s' = snd (delete_connection s)"
    using assms(3) None by (simp add: delete_client_def stopSession_def)
  moreover have "owned (fst s) = None" using None by (simp add: owned_def split: client_pc.split)
  ultimately show ?thesis using delete_connection_effect [OF assms(1) None] by simp
next
  case (Some sn)
  then have "owned (fst s) = Some sn" using assms(2) by (auto simp: owned_def)
  with stop_effect [OF assms(1) Some assms(3) [unfolded delete_client_def]] show ?thesis by simp
qed

text \<open>
  A handler of the connection's thread: when it returns, or throws a \<^verbatim>\<open>ConnectionException\<close>, it has
  made at most one allocation.
\<close>

definition fair :: "site \<Rightarrow> client \<times> server_registry \<Rightarrow> unit handler \<Rightarrow> bool" where
  "fair site s m \<longleftrightarrow>
     (\<forall>s'. m s = (Inr (), s') \<longrightarrow> turn_ok site s' \<and> allocation s s') \<and>
     (\<forall>e s'. m s = (Inl (Raise (Connection_exception e)), s') \<longrightarrow>
        turn_ok site s' \<and> allocation s s' \<and> cl_pc (fst s') \<in> {Handshaking, Looping})"

lemma catch_connection_effect:
  assumes "fair site s m" "catch_connection m s = (Inr (), s')"
  shows "turn_ok site s' \<and> allocation s s'"
proof -
  obtain x s1 where m: "m s = (x, s1)" by (rule prod.exhaust)
  show ?thesis
  proof (cases "\<exists>e. x = Inl (Raise (Connection_exception e))")
    case True
    then obtain e where x: "x = Inl (Raise (Connection_exception e))" by blast
    with m assms(2) have "delete_client s1 = (Inr (), s')" by (simp add: catch_connection_def)
    moreover have "turn_ok site s1" "allocation s s1" "cl_pc (fst s1) \<in> {Handshaking, Looping}"
      using assms(1) m x unfolding fair_def by blast+
    ultimately show ?thesis using delete_effect [of site s1 s'] allocation_delete [of s s1 s'] by blast
  next
    case False
    with m have "catch_connection m s = m s"
      by (auto simp: catch_connection_def split: sum.splits error.splits exn.splits)
    with assms show ?thesis unfolding fair_def by metis
  qed
qed

lemma turn_ok_send [simp]:
  "turn_ok site (snd (send_client pb m cl), r) = turn_ok site (cl, r)"
  by (simp add: turn_ok_def client_ok_def split: client_pc.split)

lemma owned_send [simp]: "owned (snd (send_client pb m cl)) = owned cl"
  by (simp add: owned_def split: client_pc.split)

lemma respond_snd: "snd (respond pb rs s) = (snd (send_client pb (Response rs) (fst s)), snd s)"
  by (simp add: respond_def split: prod.split)

lemma fair_respond:
  assumes "turn_ok site s1" "allocation s s1" "cl_pc (fst s1) = Looping"
  shows "fair site s (\<lambda>_. respond pb rs s1)"
proof -
  have "allocation s (snd (send_client pb (Response rs) (fst s1)), snd s1)"
    using assms(2) by (simp add: allocation_def)
  moreover have "turn_ok site (snd (send_client pb (Response rs) (fst s1)), snd s1)"
    using assms(1) by simp
  ultimately show ?thesis
    using assms(3) respond_snd [of pb rs s1] unfolding fair_def by (metis insert_iff prod.collapse
        fst_conv snd_conv send_client_frame(1))
qed

text \<open>\<^verbatim>\<open>serve_request\<close> by what the devices of the codec answered.\<close>

lemma serve_request_eq:
  assumes "findDevices codec (snd s) = (devices, r1)" "start_first uninit st devices r1 = (x, r2)"
  shows "x = Inl e \<Longrightarrow> serve_request pb uninit codec st s = (Inl e, (fst s, r2))"
    and "x = Inr None \<Longrightarrow> serve_request pb uninit codec st s =
      respond pb (response_error ''no device available'') (fst s, r2)"
    and "x = Inr (Some sn) \<Longrightarrow> session_getFraming sn r2 = (Inr f, r2) \<Longrightarrow>
      serve_request pb uninit codec st s =
        respond pb (response_ok f) (startSession ((fst s)\<lparr>cl_session := Some sn\<rparr>), r2)"
  using assms by (simp_all add: serve_request_def on_registry_def)

lemma started_framing:
  "start_first uninit st devices r1 = (Inr (Some sn), r2) \<Longrightarrow> \<exists>f. session_getFraming sn r2 = (Inr f, r2)"
  by (drule start_first_live) (auto simp: session_getFraming_def on_device_live)

lemma found_live:
  assumes "registry_inv site r" "findDevices codec r = (devices, r1)" "d \<in> set devices"
  shows "live r1 d \<noteq> None"
  using registry_inv_findDevices [OF assms(1,2)] registry_inv_live [OF assms(1)] assms(3) by fastforce

lemma fair_started:
  assumes "turn_ok site s" "cl_session (fst s) = None" "cl_pc (fst s) = Looping"
    and "registry_inv site r" "channel_is (busy (snd s)) False sn" "busy r = take_channel sn True (busy (snd s))"
  shows "fair site s (\<lambda>_. respond pb rs (startSession ((fst s)\<lparr>cl_session := Some sn\<rparr>), r))"
proof -
  let ?cl = "startSession ((fst s)\<lparr>cl_session := Some sn\<rparr>)"
  have cl: "client_ok ?cl" "cl_session ?cl = Some sn" "cl_pc ?cl = Looping" "owned ?cl = Some sn"
    using assms(1,3) by (simp_all add: startSession_def client_ok_def owned_def turn_ok_def)
  then have "turn_ok site (?cl, r)"
    using assms(4,6) channel_is_exists [OF assms(5)] by (simp add: turn_ok_def)
  moreover have "allocation s (?cl, r)"
    using assms(2,3,5,6) cl(4) by (simp add: allocation_def owned_def)
  ultimately show ?thesis using cl(3) by (intro fair_respond) simp_all
qed

lemma fair_serve_request:
  assumes "turn_ok site s" "cl_session (fst s) = None" "cl_pc (fst s) = Looping"
  shows "fair site s (serve_request pb uninit codec st)"
proof -
  obtain devices r1 where devs: "findDevices codec (snd s) = (devices, r1)" by fastforce
  have inv: "registry_inv site (snd s)" using assms(1) by (simp add: turn_ok_def)
  note found = registry_inv_findDevices [OF inv devs]
  obtain x r2 where start: "start_first uninit st devices r1 = (x, r2)" by fastforce
  note effect = start_first_effect [OF found(1) start] and serve = serve_request_eq [OF devs start, where pb = pb]
  consider e where "x = Inl e" | "x = Inr None" | sn where "x = Inr (Some sn)"
    by (metis option.exhaust sum.exhaust)
  then show ?thesis
  proof cases
    case (1 e)
    have "e \<noteq> Raise (Connection_exception m)" for m
      using start_first_fails [OF found(1) found_live [OF inv devs] start [unfolded 1]] by auto
    with serve(1) [OF 1] show ?thesis by (simp add: fair_def)
  next
    case 2
    then have "fair site s (\<lambda>_. respond pb (response_error ''no device available'') (fst s, r2))"
      using effect found(2) assms by (intro fair_respond) (simp_all add: turn_ok_def allocation_def)
    then show ?thesis by (simp add: fair_def serve(2) [OF 2])
  next
    case (3 sn)
    obtain f where f: "session_getFraming sn r2 = (Inr f, r2)"
      using started_framing start 3 by blast
    have "fair site s (\<lambda>_. respond pb (response_ok f) (startSession ((fst s)\<lparr>cl_session := Some sn\<rparr>), r2))"
      using effect 3 found(2) by (intro fair_started [OF assms]) simp_all
    then show ?thesis by (simp add: fair_def serve(3) [OF 3 f])
  qed
qed

text \<open>The device of the client's session has been deleted.\<close>

definition unplugged :: "client \<times> server_registry \<Rightarrow> bool" where
  "unplugged s \<longleftrightarrow> (case cl_session (fst s) of None \<Rightarrow> False | Some sn \<Rightarrow> live (snd s) (fst sn) = None)"

text \<open>The errors that the messages of a client may cause.\<close>

definition message_fails :: "client \<times> server_registry \<Rightarrow> message \<Rightarrow> error \<Rightarrow> bool" where
  "message_fails s m e \<longleftrightarrow>
     e = Waits \<or> e = Raise (Connection_exception ''sending response failed'') \<or>
     unplugged s \<and> e = Crash Use_after_free \<or>
     cl_session (fst s) = None \<and> (\<exists>st. m = Renegotiation st) \<and> e = Crash Null_deref \<or>
     cl_session (fst s) = None \<and> (\<exists>codec st. m = Request codec st \<and> bad_index st e) \<and> e = Raise Out_of_range"

lemma session_channel:
  assumes "turn_ok site s" "cl_session (fst s) = Some sn"
  shows "registry_inv site (snd s)" "channel_exists (busy (snd s)) sn" "cl_reader (fst s) \<noteq> None"
  using assms by (auto simp: turn_ok_def client_ok_def)

lemma serve_request_fails:
  assumes "turn_ok site s" "serve_request pb uninit codec st s = (Inl e, s')"
  shows "e = Waits \<or> e = Raise (Connection_exception ''sending response failed'') \<or>
    e = Raise Out_of_range \<and> bad_index st e"
proof -
  obtain devices r1 where devs: "findDevices codec (snd s) = (devices, r1)" by fastforce
  have inv: "registry_inv site (snd s)" using assms(1) by (simp add: turn_ok_def)
  note found = registry_inv_findDevices [OF inv devs]
  obtain x r2 where start: "start_first uninit st devices r1 = (x, r2)" by fastforce
  note serve = serve_request_eq [OF devs start, where pb = pb]
  consider e where "x = Inl e" | "x = Inr None" | sn where "x = Inr (Some sn)"
    by (metis option.exhaust sum.exhaust)
  then show ?thesis
  proof cases
    case (1 e')
    with assms(2) serve(1) have "e' = e" by simp
    with start_first_fails [OF found(1) found_live [OF inv devs] start [unfolded 1]] show ?thesis by auto
  next
    case 2
    with assms(2) serve(2) show ?thesis by (auto dest: respond_fails)
  next
    case (3 sn)
    then obtain f where "session_getFraming sn r2 = (Inr f, r2)" using started_framing start by blast
    with assms(2) serve(3) [OF 3] show ?thesis by (auto dest: respond_fails)
  qed
qed

lemma call_effect:
  assumes "turn_ok site s" "cl_session (fst s) = Some (d, i)" "call_ok f" "keeps_busy f"
    and "on_device d (on_channel i f) (snd s) = (x, r')"
  shows "turn_ok site (fst s, r') \<and> allocation s (fst s, r')"
  using call_on_device [OF session_channel(1,2) [OF assms(1,2)] assms(3,4,5)] assms(1)
  by (simp add: turn_ok_def allocation_def)

lemma data_fails:
  assumes "turn_ok site s" "cl_session (fst s) = Some (d, i)"
    and "on_registry (on_device d (on_channel i f)) s = (Inl e, s')"
    and "\<And>c q s. ch_index c \<le> 3 \<Longrightarrow> queue_ok q \<Longrightarrow> f (c, q) = (Inl e, s) \<Longrightarrow> e = Waits"
  shows "e = Waits \<or> unplugged s \<and> e = Crash Use_after_free"
proof -
  from assms(3) obtain r' where "on_device d (on_channel i f) (snd s) = (Inl e, r')"
    by (auto simp: on_registry_def split: prod.splits)
  from call_fails [OF session_channel(1,2) [OF assms(1,2)] this, of "e = Waits"] assms(2,4)
  show ?thesis by (auto simp: unplugged_def)
qed

lemma handle_fails_idle:
  assumes "turn_ok site s" "cl_session (fst s) = None" "handle pb uninit m s = (Inl e, s')"
  shows "message_fails s m e"
proof (cases m)
  case (Request codec st)
  then have "serve_request pb uninit codec st s = (Inl e, s')"
    using assms(2,3) by (simp add: process_Request_def stopSession_def)
  from serve_request_fails [OF assms(1) this] show ?thesis
    by (auto simp: message_fails_def assms(2) Request)
qed (use assms(2,3) in \<open>auto simp: message_fails_def process_Check_def process_ChannelData_def
    process_SpeechData_def process_Renegotiation_def dest: respond_fails split: prod.splits\<close>)

lemma renegotiation_fails:
  assumes "turn_ok site s" "cl_session (fst s) = Some (d, i)"
    and "process_Renegotiation pb uninit st s = (Inl e, s')"
  shows "message_fails s (Renegotiation st) e"
proof -
  note ch = session_channel [OF assms(1,2)]
  obtain x r1 where x: "on_device d (on_channel i (renegotiate uninit st)) (snd s) = (x, r1)" by fastforce
  show ?thesis
  proof (cases x)
    case (Inl e')
    from call_fails [OF ch(1,2) x [unfolded Inl], of "e' = Waits \<or> bad_index st e'"]
    have "live (snd s) d = None \<and> e' = Crash Use_after_free \<or> e' = Waits \<or> bad_index st e'"
      using renegotiate_fails by blast
    then consider "live (snd s) d = None" "e' = Crash Use_after_free" | "e' = Waits" | exn where "e' = Raise exn"
      by (auto dest!: bad_index_errors)
    then show ?thesis
      using assms(2,3) x Inl
      by cases (auto simp: process_Renegotiation_def message_fails_def bindS_def unplugged_def dest: respond_fails)
  next
    case (Inr u)
    then obtain dev where dev: "live (snd s) d = Some dev"
      using x by (auto simp: on_device_def split: option.splits)
    then have "live r1 d \<noteq> None"
      using x live_not_deleted [OF dev] by (auto simp: on_device_live)
    then obtain f where "session_getFraming (d, i) r1 = (Inr f, r1)"
      by (auto simp: session_getFraming_def on_device_live)
    with assms(2,3) x Inr show ?thesis
      by (auto simp: process_Renegotiation_def message_fails_def bindS_def dest: respond_fails)
  qed
qed

lemma handle_fails:
  assumes "turn_ok site s" "handle pb uninit m s = (Inl e, s')"
  shows "message_fails s m e"
proof (cases "cl_session (fst s)")
  case None
  from handle_fails_idle [OF assms(1) None assms(2)] show ?thesis .
next
  case (Some sn)
  obtain d i where sn: "sn = (d, i)" by fastforce
  note data = data_fails [OF assms(1) Some [unfolded sn]]
  show ?thesis
  proof (cases m)
    case (Request codec st)
    with assms(2) Some sn show ?thesis
      by (auto simp: process_Request_def stopSession_def on_registry_def bindS_def session_end_def
          message_fails_def on_device_def unplugged_def split: option.splits prod.splits)
  next
    case (ChannelData bs)
    with assms(2) Some sn have "on_registry (on_device d (on_channel i (decode bs (length bs)))) s = (Inl e, s')"
      by (simp add: process_ChannelData_def)
    from data [OF this] decode_fails show ?thesis by (auto simp: message_fails_def)
  next
    case (SpeechData bs)
    with assms(2) Some sn have "on_registry (on_device d (on_channel i (encode bs (length bs)))) s = (Inl e, s')"
      by (simp add: process_SpeechData_def)
    from data [OF this] encode_fails show ?thesis by (auto simp: message_fails_def)
  next
    case (Renegotiation st)
    with renegotiation_fails [OF assms(1) Some [unfolded sn]] assms(2) show ?thesis by simp
  qed (use assms(2) in \<open>auto simp: message_fails_def process_Check_def dest: respond_fails split: prod.splits\<close>)
qed

lemma fair_data:
  assumes "turn_ok site s" "cl_session (fst s) = Some (d, i)" "call_ok f" "keeps_busy f"
    and "\<And>c q s e. ch_index c \<le> 3 \<Longrightarrow> queue_ok q \<Longrightarrow> f (c, q) = (Inl e, s) \<Longrightarrow> e = Waits"
  shows "fair site s (on_registry (on_device d (on_channel i f)))"
proof -
  obtain x r' where x: "on_device d (on_channel i f) (snd s) = (x, r')" by fastforce
  then have "on_registry (on_device d (on_channel i f)) s = (x, (fst s, r'))"
    by (simp add: on_registry_def)
  note run = this
  have "x \<noteq> Inl (Raise (Connection_exception e))" for e
  proof
    assume "x = Inl (Raise (Connection_exception e))"
    with run have "on_registry (on_device d (on_channel i f)) s =
        (Inl (Raise (Connection_exception e)), (fst s, r'))" by simp
    from data_fails [OF assms(1,2) this assms(5)] show False by simp
  qed
  with call_effect [OF assms(1-4) x] run show ?thesis by (simp add: fair_def)
qed

lemma fair_same: "turn_ok site s \<Longrightarrow> fair site s (\<lambda>s. (Inr (), s))"
  by (simp add: fair_def allocation_same)

lemma fair_process_Request:
  assumes "turn_ok site s" "cl_pc (fst s) = Looping"
  shows "fair site s (process_Request pb uninit codec st)"
proof (cases "cl_session (fst s)")
  case None
  then have "fair site s (serve_request pb uninit codec st)"
    by (rule fair_serve_request [OF assms(1) _ assms(2)])
  then show ?thesis by (simp add: process_Request_def stopSession_def None fair_def)
next
  case (Some sn)
  have "owned (fst s) = Some sn" using Some assms(2) by (simp add: owned_def)
  with stop_effect [OF assms(1) Some] have returns: "process_Request pb uninit codec st s = (Inr (), s') \<Longrightarrow>
      turn_ok site s' \<and> allocation s s'" for s'
    unfolding process_Request_def allocation_def by blast
  have "process_Request pb uninit codec st s = (Inl e, s') \<Longrightarrow> e = Crash Use_after_free" for e s'
    using Some by (auto simp: process_Request_def stopSession_def on_registry_def bindS_def
        session_end_def on_device_def split: option.splits prod.splits)
  with returns show ?thesis by (fastforce simp: fair_def)
qed

lemma fair_process_Check:
  assumes "turn_ok site s" "cl_pc (fst s) = Looping"
  shows "fair site s (process_Check pb codec)"
proof -
  obtain devices r1 where devs: "findDevices codec (snd s) = (devices, r1)" by fastforce
  have inv: "registry_inv site (snd s)" using assms(1) by (simp add: turn_ok_def)
  note found = registry_inv_findDevices [OF inv devs]
  have "fair site s (\<lambda>_. respond pb rs (fst s, r1))" for rs
    using assms found by (intro fair_respond) (simp_all add: turn_ok_def allocation_def)
  then show ?thesis by (simp add: process_Check_def devs fair_def)
qed

lemma fair_process_data:
  assumes "turn_ok site s"
  shows "fair site s (process_ChannelData bs)" "fair site s (process_SpeechData bs)"
proof -
  have "fair site s (process_ChannelData bs) \<and> fair site s (process_SpeechData bs)"
  proof (cases "cl_session (fst s)")
    case None
    with fair_same [OF assms] show ?thesis
      by (simp add: process_ChannelData_def process_SpeechData_def fair_def)
  next
    case (Some sn)
    obtain d i where sn: "sn = (d, i)" by fastforce
    from fair_data [OF assms Some [unfolded sn] call_ok_decode keeps_busy_simps(2) decode_fails]
      fair_data [OF assms Some [unfolded sn] call_ok_encode keeps_busy_simps(1) encode_fails]
    show ?thesis by (simp add: process_ChannelData_def process_SpeechData_def Some sn fair_def)
  qed
  then show "fair site s (process_ChannelData bs)" "fair site s (process_SpeechData bs)" by blast+
qed

lemma fair_process_Renegotiation:
  assumes "turn_ok site s" "cl_pc (fst s) = Looping"
  shows "fair site s (process_Renegotiation pb uninit st)"
proof (cases "cl_session (fst s)")
  case None
  then show ?thesis by (simp add: process_Renegotiation_def fair_def)
next
  case (Some sn)
  obtain d i where sn: "sn = (d, i)" by fastforce
  obtain x r1 where x: "on_device d (on_channel i (renegotiate uninit st)) (snd s) = (x, r1)" by fastforce
  note effect = call_effect [OF assms(1) Some [unfolded sn] call_ok_renegotiate keeps_busy_simps(3) x]
  have fair: "fair site s (\<lambda>_. respond pb rs (fst s, r1))" for rs
    using assms(2) effect by (intro fair_respond) simp_all
  obtain y r2 where y: "bindS (on_device d (on_channel i (renegotiate uninit st)))
      (\<lambda>_. session_getFraming (d, i)) (snd s) = (y, r2)" by fastforce
  have r2: "r2 = r1"
    using x y by (cases x) (auto dest: session_getFraming_frame)
  have "(\<exists>rs. process_Renegotiation pb uninit st s = respond pb rs (fst s, r1)) \<or>
      (\<exists>e. (\<forall>exn. e \<noteq> Raise exn) \<and> process_Renegotiation pb uninit st s = (Inl e, (fst s, r1)))"
    using Some sn y r2 by (auto simp: process_Renegotiation_def split: sum.split error.split)
  then show ?thesis
  proof (elim disjE exE conjE)
    fix rs
    assume "process_Renegotiation pb uninit st s = respond pb rs (fst s, r1)"
    with fair [of rs] show ?thesis unfolding fair_def by simp
  next
    fix e
    assume "\<forall>exn. e \<noteq> Raise exn" "process_Renegotiation pb uninit st s = (Inl e, (fst s, r1))"
    then show ?thesis unfolding fair_def by simp
  qed
qed

lemma fair_handle:
  assumes "turn_ok site s" "cl_pc (fst s) = Looping"
  shows "fair site s (handle pb uninit m)"
proof -
  note fairs = fair_process_Request [OF assms] fair_process_Check [OF assms]
    fair_process_data [OF assms(1)] fair_process_Renegotiation [OF assms] fair_same [OF assms(1)]
  show ?thesis by (cases m) (use fairs in \<open>simp_all add: fair_def\<close>)
qed

lemma poll_loop_fails: "poll_loop sock polls = Inl e \<Longrightarrow> e = Waits"
proof (induction polls)
  case (Cons ev polls)
  then show ?case
    by (cases ev) (auto simp: poll_loop.simps [of sock "ev # polls"] split: if_splits,
        simp_all add: poll_loop.simps [of sock "_ # _"] split: if_splits)
qed (simp add: poll_loop.simps split: if_splits)

lemma receiveMessage_fails: "receiveMessage pb cn = Some (Inl e, cn') \<Longrightarrow> e = Waits"
  by (auto simp: receiveMessage_def Let_def split: sum.splits option.splits if_splits dest: poll_loop_fails)

lemma turn_ok_conn [simp]:
  "turn_ok site (cl\<lparr>cl_conn := cn\<rparr>, r) = turn_ok site (cl, r)"
  "owned (cl\<lparr>cl_conn := cn\<rparr>) = owned cl" "owned (cl\<lparr>cl_conn := cn, cl_run := b\<rparr>) = owned cl"
  "owned (cl\<lparr>cl_run := b\<rparr>) = owned cl" "owned (cl\<lparr>cl_reader := rd\<rparr>) = owned cl"
  "owned (cl\<lparr>cl_run := b, cl_reader := rd\<rparr>) = owned cl"
  by (simp_all add: turn_ok_def client_ok_def owned_def split: client_pc.split)

lemma turn_ok_stop: "turn_ok site (cl, r) \<Longrightarrow> turn_ok site (cl\<lparr>cl_conn := cn, cl_run := False\<rparr>, r)"
  by (simp add: turn_ok_def client_ok_def)

lemma fair_loop_turn:
  assumes "turn_ok site s" "cl_pc (fst s) = Looping"
  shows "fair site s (loop_turn pb uninit)"
proof (cases "receiveMessage pb (cl_conn (fst s))")
  case None
  then show ?thesis by (simp add: fair_def loop_turn_def)
next
  case (Some res)
  obtain x cn where res: "res = (x, cn)" by fastforce
  have turn: "turn_ok site (fst s, snd s)" using assms(1) by simp
  show ?thesis
  proof (cases x)
    case (Inl e)
    then have "e = Waits" using Some res receiveMessage_fails by blast
    with Some res Inl show ?thesis by (simp add: fair_def loop_turn_def)
  next
    case (Inr msg)
    show ?thesis
    proof (cases msg)
      case None
      with Some res Inr turn_ok_stop [OF turn] show ?thesis
        by (simp add: fair_def loop_turn_def allocation_def)
    next
      case m: (Some m)
      have "fair site ((fst s)\<lparr>cl_conn := cn\<rparr>, snd s) (handle pb uninit m)"
        by (rule fair_handle) (use assms in simp_all)
      then show ?thesis
        unfolding fair_def allocation_def by (simp add: loop_turn_def Some res Inr m)
    qed
  qed
qed

lemma fair_handshake:
  assumes "turn_ok site s" "cl_pc (fst s) = Handshaking"
  shows "fair site s (handshake pb version)"
proof -
  let ?m = "Handshake ''codecserver'' version PROTOCOL_VERSION"
  have "turn_ok site (snd (send_client pb ?m (fst s)), snd s)" using assms(1) by simp
  moreover have "cl_session (fst s) = None" using assms by (simp add: turn_ok_def client_ok_def)
  ultimately have "turn_ok site ((snd (send_client pb ?m (fst s)))\<lparr>cl_pc := Looping\<rparr>, snd s)"
    "owned ((snd (send_client pb ?m (fst s)))\<lparr>cl_pc := Looping\<rparr>) = owned (fst s)"
    using assms(2) by (simp_all add: turn_ok_def client_ok_def owned_def)
  then show ?thesis
    using assms by (auto simp: fair_def handshake_def allocation_def split: prod.splits if_splits)
      (metis turn_ok_send owned_send send_client_frame(1) snd_conv prod.collapse)+
qed

text \<open>When the reader is done, the connection's thread forgets the session and goes on.\<close>

lemma joined_effect:
  assumes "turn_ok site s" "cl_pc (fst s) = Joining k" "client_work pb version uninit s = (Inr (), s')"
  shows "turn_ok site s' \<and> allocation s s'"
proof -
  obtain rd where rd: "cl_reader (fst s) = Some rd"
    using assms(1,2) by (auto simp: turn_ok_def client_ok_def)
  have rdone: "rd = Reader_done" using assms(2,3) rd by (cases rd) (simp_all add: client_work_def)
  let ?s = "(forget_session (fst s), snd s)" and ?t = "((forget_session (fst s))\<lparr>cl_pc := Looping\<rparr>, snd s)"
  have owned: "owned (fst s) = None" "owned (fst ?t) = None"
    using assms(2) by (simp_all add: owned_def forget_session_def)
  have looping: "turn_ok site ?t"
    using assms(1) by (simp add: turn_ok_def client_ok_def forget_session_def)
  show ?thesis
  proof (cases k)
    case Then_delete
    then have "s' = snd (delete_connection ?s)"
      using assms(2,3) rd rdone by (simp add: client_work_def)
    with looping owned show ?thesis
      by (simp add: delete_connection_def turn_ok_def client_ok_def forget_session_def allocation_def owned_def)
  next
    case (Then_request codec st)
    have "catch_connection (serve_request pb uninit codec st) ?t = (Inr (), s')"
      using assms(2,3) rd rdone Then_request by (simp add: client_work_def)
    moreover have "fair site ?t (serve_request pb uninit codec st)"
      by (rule fair_serve_request [OF looping]) (simp_all add: forget_session_def)
    ultimately have "turn_ok site s' \<and> allocation ?t s'" by (rule catch_connection_effect [rotated])
    with owned show ?thesis by (simp add: allocation_def)
  qed
qed

text \<open>Every step of a client's thread keeps the invariant and makes at most one allocation.\<close>

lemma client_work_effect:
  assumes "turn_ok site s" "client_work pb version uninit s = (Inr (), s')"
  shows "turn_ok site s' \<and> allocation s s'"
proof (cases "cl_pc (fst s)")
  case Handshaking
  with assms(2) catch_connection_effect [OF fair_handshake [OF assms(1) Handshaking]] show ?thesis
    by (simp add: client_work_def)
next
  case Looping
  show ?thesis
  proof (cases "cl_run (fst s)")
    case True
    with assms(2) Looping catch_connection_effect [OF fair_loop_turn [OF assms(1) Looping]] show ?thesis
      by (simp add: client_work_def)
  next
    case False
    then have "delete_client s = (Inr (), s')" using assms(2) Looping by (simp add: client_work_def)
    with delete_effect [OF assms(1)] Looping have "turn_ok site s'" "owned (fst s') = None"
      "busy (snd s') = (case owned (fst s) of None \<Rightarrow> busy (snd s)
         | Some sn \<Rightarrow> take_channel sn False (busy (snd s)))" by auto
    with allocation_delete [OF allocation_same [OF refl refl]] show ?thesis by blast
  qed
next
  case (Joining k)
  from joined_effect [OF assms(1) Joining assms(2)] show ?thesis .
next
  case Deleted
  with assms show ?thesis by (simp add: client_work_def allocation_same)
qed

text \<open>The reader changes neither what its client owns nor the table.\<close>

lemma reading_effect:
  assumes "turn_ok site s" "cl_reader (fst s) = Some Reading" "reader_work pb s = (Inr (), s')"
  shows "turn_ok site s' \<and> owned (fst s') = owned (fst s) \<and> busy (snd s') = busy (snd s)"
proof -
  obtain d i where sn: "cl_session (fst s) = Some (d, i)"
    using assms(1,2) by (auto simp: turn_ok_def client_ok_def)
  show ?thesis
  proof (cases "cl_run (fst s)")
    case False
    then have "s' = ((fst s)\<lparr>cl_reader := Some Reader_done\<rparr>, snd s)"
      using assms(2,3) by (simp add: reader_work_def)
    with assms(1,2) False show ?thesis by (simp add: turn_ok_def client_ok_def)
  next
    case True
    obtain x r' where x: "on_device d (session_read i) (snd s) = (x, r')" by fastforce
    note r' = read_on_device [OF session_channel(1,2) [OF assms(1) sn] x]
    then have turn: "turn_ok site (fst s, r')" using assms(1) by (simp add: turn_ok_def)
    show ?thesis
      using assms(2,3) True sn x turn r'
      by (auto simp: reader_work_def on_registry_def bindS_def turn_ok_def client_ok_def
          split: sum.splits if_splits)
  qed
qed

lemma reader_work_effect:
  assumes "turn_ok site s" "reader_work pb s = (Inr (), s')"
  shows "turn_ok site s' \<and> owned (fst s') = owned (fst s) \<and> busy (snd s') = busy (snd s)"
proof (cases "cl_reader (fst s)")
  case None
  with assms show ?thesis by (simp add: reader_work_def)
next
  case (Some rd)
  show ?thesis
  proof (cases rd)
    case Reading
    with reading_effect [OF assms(1) _ assms(2)] Some show ?thesis by simp
  next
    case (Got bs)
    let ?sent = "snd (send_client pb (SpeechData bs) (fst s))"
    have "turn_ok site (?sent, snd s)" using assms(1) by simp
    then have "turn_ok site (?sent\<lparr>cl_reader := Some Reading\<rparr>, snd s)"
      "turn_ok site (?sent\<lparr>cl_run := False, cl_reader := Some Reading\<rparr>, snd s)"
      using Some by (simp_all add: turn_ok_def client_ok_def)
    moreover have "s' = (?sent\<lparr>cl_reader := Some Reading\<rparr>, snd s) \<or>
        s' = (?sent\<lparr>cl_run := False, cl_reader := Some Reading\<rparr>, snd s)"
      using assms(2) Some Got by (auto simp: reader_work_def split: prod.splits if_splits)
    ultimately show ?thesis by (auto simp del: send_client_frame)
  next
    case Reader_done
    with assms Some show ?thesis by (simp add: reader_work_def)
  qed
qed

end
