(* ===== verification/Server_Sessions.thy ===== *)
theory Server_Sessions
  imports Client_Turns
begin

text \<open>
  All connections of a server together: their threads and readers, the workers of the devices, the
  udev monitor and the loading of devices take turns on one registry. The step relation interleaves
  the steps of \<open>client_work\<close> and \<open>reader_work\<close> with the operations of the devices and of the
  registry; the abstract state is the table of the channels that are busy, and the channels that
  clients own.
\<close>

section \<open>The server\<close>

record server =
  sv_clients :: "nat \<Rightarrow> client option"
  sv_registry :: server_registry

definition new_server :: "site \<Rightarrow> server" where
  "new_server site = \<lparr>sv_clients = (\<lambda>_. None), sv_registry = started_registry site\<rparr>"

definition put_client :: "nat \<Rightarrow> client \<times> server_registry \<Rightarrow> server \<Rightarrow> server" where
  "put_client n s sv = \<lparr>sv_clients = (sv_clients sv)(n \<mapsto> fst s), sv_registry = snd s\<rparr>"

text \<open>A thread that waits, or that ends the process, makes no step.\<close>

inductive server_step :: "'c protobuf \<Rightarrow> string \<Rightarrow> (nat \<Rightarrow> short) \<Rightarrow> server \<Rightarrow> server \<Rightarrow> bool"
  for pb :: "'c protobuf" and version uninit where
  accept: "sv_clients sv n = None \<Longrightarrow>
    server_step pb version uninit sv (put_client n (new_ClientConnection cn, sv_registry sv) sv)"
| client: "sv_clients sv n = Some cl \<Longrightarrow>
    client_work pb version uninit (cl, sv_registry sv) = (Inr (), s) \<Longrightarrow>
    server_step pb version uninit sv (put_client n s sv)"
| reader: "sv_clients sv n = Some cl \<Longrightarrow> reader_work pb (cl, sv_registry sv) = (Inr (), s) \<Longrightarrow>
    server_step pb version uninit sv (put_client n s sv)"
| take_packet: "live (sv_registry sv) d = Some dev \<Longrightarrow> queue_get (dv_queue dev) = Some (p, q) \<Longrightarrow>
    server_step pb version uninit sv
      (sv\<lparr>sv_registry := set_device d (dev\<lparr>dv_queue := q\<rparr>) (sv_registry sv)\<rparr>)"
| receive_packet: "live (sv_registry sv) d = Some dev \<Longrightarrow> device_receivePacket p dev = (Inr (), dev') \<Longrightarrow>
    server_step pb version uninit sv (sv\<lparr>sv_registry := set_device d dev' (sv_registry sv)\<rparr>)"
| queue_error: "server_step pb version uninit sv (sv\<lparr>sv_registry := unregisterDevice d (sv_registry sv)\<rparr>)"
| udev: "handle_event ev (sv_registry sv) = (Inr (), r) \<Longrightarrow>
    server_step pb version uninit sv (sv\<lparr>sv_registry := r\<rparr>)"
| load: "loadDeviceFromConfig ambe_codecs config (sv_registry sv) = (Inr (), r) \<Longrightarrow>
    server_step pb version uninit sv (sv\<lparr>sv_registry := r\<rparr>)"

section \<open>The invariant of the server\<close>

definition server_ok :: "site \<Rightarrow> server \<Rightarrow> bool" where
  "server_ok site sv \<longleftrightarrow> registry_inv site (sv_registry sv) \<and>
     (\<forall>n cl. sv_clients sv n = Some cl \<longrightarrow> turn_ok site (cl, sv_registry sv))"

lemma turn_ok_le:
  assumes "turn_ok site (cl, r)" "registry_inv site r'" "busy r \<subseteq>\<^sub>m busy r'"
  shows "turn_ok site (cl, r')"
  using assms channel_exists_le by (fastforce simp: turn_ok_def)

lemma server_ok_registry:
  assumes "server_ok site sv" "registry_inv site r" "busy (sv_registry sv) \<subseteq>\<^sub>m busy r"
  shows "server_ok site (sv\<lparr>sv_registry := r\<rparr>)"
  using assms turn_ok_le unfolding server_ok_def by simp blast

lemma turn_ok_table:
  "turn_ok site (cl, r) \<Longrightarrow> registry_inv site r' \<Longrightarrow> channel_exists (busy r') = channel_exists (busy r) \<Longrightarrow>
   turn_ok site (cl, r')"
  by (simp add: turn_ok_def)

lemma allocation_exists: "allocation s s' \<Longrightarrow> channel_exists (busy (snd s')) = channel_exists (busy (snd s))"
  by (auto simp: allocation_def)

lemma server_ok_turn:
  assumes "server_ok site sv" "turn_ok site s'" "allocation (cl, sv_registry sv) s'"
  shows "server_ok site (put_client n s' sv)"
proof -
  have "turn_ok site (cl', snd s')" if "sv_clients (put_client n s' sv) m = Some cl'" for m cl'
  proof (cases "m = n")
    case False
    with that assms(1) have "turn_ok site (cl', sv_registry sv)" by (simp add: put_client_def server_ok_def)
    then show ?thesis
      using assms(2) allocation_exists [OF assms(3)] turn_ok_table by (simp add: turn_ok_def)
  qed (use that assms(2) in \<open>auto simp: put_client_def\<close>)
  with assms(2) show ?thesis unfolding server_ok_def by (simp add: put_client_def turn_ok_def)
qed

lemma put_device_ok:
  assumes "server_ok site sv" "live (sv_registry sv) d = Some dev" "device_ok dev'"
    and "map isBusy (dv_channels dev') = map isBusy (dv_channels dev)"
  shows "server_ok site (sv\<lparr>sv_registry := set_device d dev' (sv_registry sv)\<rparr>)"
  using assms registry_inv_set_device [of site "sv_registry sv" d dev dev'] busy_set_device_same [OF assms(2,4)]
  by (intro server_ok_registry) (simp_all add: server_ok_def)

lemma server_step_ok:
  assumes "server_step pb version uninit sv sv'" "server_ok site sv"
  shows "server_ok site sv'"
  using assms
proof (induction rule: server_step.induct)
  case (accept sv n cn)
  have "turn_ok site (new_ClientConnection cn, sv_registry sv)"
    using accept.prems by (simp add: turn_ok_def client_ok_def new_ClientConnection_def server_ok_def)
  moreover have "owned (new_ClientConnection cn) = None" by (simp add: owned_def new_ClientConnection_def)
  ultimately show ?case
    using accept by (auto simp: server_ok_def put_client_def)
next
  case (client sv n cl s)
  then have "turn_ok site (cl, sv_registry sv)" by (simp add: server_ok_def)
  with client client_work_effect [of site "(cl, sv_registry sv)"] server_ok_turn show ?case by blast
next
  case (reader sv n cl s)
  then have "turn_ok site (cl, sv_registry sv)" by (simp add: server_ok_def)
  from reader_work_effect [OF this reader.hyps(2)] have "turn_ok site s" "allocation (cl, sv_registry sv) s"
    by (simp_all add: allocation_def)
  with reader server_ok_turn show ?case by blast
next
  case (take_packet sv d dev p q)
  have "registry_inv site (sv_registry sv)" using take_packet by (simp add: server_ok_def)
  then have "device_ok dev" by (rule registry_inv_device_ok) (rule take_packet.hyps(1))
  then have "device_ok (dev\<lparr>dv_queue := q\<rparr>)"
    using queue_ok_get [OF _ take_packet.hyps(2)] by (simp add: device_ok_def)
  with take_packet show ?case by (intro put_device_ok) simp_all
next
  case (receive_packet sv d dev p dev')
  have "registry_inv site (sv_registry sv)" using receive_packet by (simp add: server_ok_def)
  then have "device_ok dev" by (rule registry_inv_device_ok) (rule receive_packet.hyps(1))
  with receive_packet receivePacket_ok [of dev p] receivePacket_busy [of p dev] show ?case
    by (intro put_device_ok) auto
next
  case (queue_error sv d)
  then show ?case
    using registry_inv_unregister [of site "sv_registry sv" d]
    by (intro server_ok_registry) (simp_all add: server_ok_def)
next
  case (udev ev sv r)
  then show ?case
    using registry_inv_event [of site "sv_registry sv" ev]
    by (intro server_ok_registry) (auto simp: server_ok_def)
next
  case (load config sv r)
  then show ?case
    using registry_inv_load [of site "sv_registry sv" config]
    by (intro server_ok_registry) (auto simp: server_ok_def)
qed

lemma new_server_ok: "server_ok site (new_server site)"
proof -
  have "registry_inv site (started_registry site)"
    by (simp add: registry_inv_def started_registry_def registerDriver_def new_Registry_def
        registry_ok_def new_world_def ambe3k_driver_def Driver_default_def map_get_def map_valid_def
        constructed_def registered_def devices_of_def)
  then show ?thesis by (simp add: server_ok_def new_server_def)
qed

lemma server_steps_ok:
  "(server_step pb version uninit)\<^sup>*\<^sup>* (new_server site) sv \<Longrightarrow> server_ok site sv"
  by (induction rule: rtranclp_induct) (auto intro: new_server_ok server_step_ok)

section \<open>The server as an allocator of channels\<close>

definition owner :: "server \<Rightarrow> nat \<Rightarrow> (dev \<times> nat) option" where
  "owner sv n = (case sv_clients sv n of None \<Rightarrow> None | Some cl \<Rightarrow> owned cl)"

definition allocation_of :: "server \<Rightarrow> (nat \<Rightarrow> (dev \<times> nat) option) \<times> (dev \<Rightarrow> bool list option)" where
  "allocation_of sv = (owner sv, busy (sv_registry sv))"

lemma owner_put: "owner (put_client n s sv) = (owner sv)(n := owned (fst s))"
  by (simp add: owner_def put_client_def fun_eq_iff)

lemma allocation_of_put [simp]:
  "allocation_of (put_client n s sv) = ((owner sv)(n := owned (fst s)), busy (snd s))"
  by (simp add: allocation_of_def owner_put) (simp add: put_client_def)

lemma allocation_of_registry [simp]: "allocation_of (sv\<lparr>sv_registry := r\<rparr>) = (owner sv, busy r)"
  by (simp add: allocation_of_def owner_def fun_eq_iff)

text \<open>Each step of the server is a step of the abstract allocator.\<close>

lemma turn_allocates:
  assumes "sv_clients sv n = Some cl" "allocation (cl, sv_registry sv) s'"
  shows "allocates_channel (allocation_of sv) (allocation_of (put_client n s' sv))"
proof -
  have own: "owner sv n = owned cl" using assms(1) by (simp add: owner_def)
  from assms(2) show ?thesis
    unfolding allocation_def fst_conv snd_conv
  proof (elim disjE exE conjE)
    assume "owned (fst s') = owned cl" "busy (snd s') = busy (sv_registry sv)"
    with own have "allocation_of (put_client n s' sv) = allocation_of sv" by (simp add: allocation_of_def [of sv] fun_upd_idem)
    then show ?thesis by (simp add: allocation_of_def [of sv] allocates.table)
  next
    fix sn
    assume "owned cl = None" "owned (fst s') = Some sn" "channel_is (busy (sv_registry sv)) False sn"
      "busy (snd s') = take_channel sn True (busy (sv_registry sv))"
    with own allocates.takes [where available = "\<lambda>t. channel_is t False" and own = "owner sv" and n = n]
    show ?thesis by (simp add: allocation_of_def [of sv])
  next
    fix sn
    assume "owned cl = Some sn" "owned (fst s') = None"
      "busy (snd s') = take_channel sn False (busy (sv_registry sv))"
    with own allocates.gives [where give_back = "\<lambda>sn. take_channel sn False" and own = "owner sv" and n = n]
    show ?thesis by (simp add: allocation_of_def [of sv])
  qed
qed

lemma table_allocates:
  "busy (sv_registry sv) \<subseteq>\<^sub>m busy r \<Longrightarrow>
   allocates_channel (allocation_of sv) (allocation_of (sv\<lparr>sv_registry := r\<rparr>))"
  by (simp add: allocation_of_def [of sv] allocates.table)

lemma server_step_allocates:
  assumes "server_step pb version uninit sv sv'" "server_ok site sv"
  shows "allocates_channel (allocation_of sv) (allocation_of sv')"
  using assms
proof (induction rule: server_step.induct)
  case (accept sv n cn)
  then have "(owner sv)(n := None) = owner sv" by (simp add: owner_def fun_eq_iff)
  moreover have "owned (new_ClientConnection cn) = None" by (simp add: owned_def new_ClientConnection_def)
  ultimately show ?case by (simp add: allocation_of_def [of sv] allocates.table)
next
  case (client sv n cl s)
  then have "turn_ok site (cl, sv_registry sv)" by (simp add: server_ok_def)
  with client client_work_effect [of site "(cl, sv_registry sv)"] turn_allocates show ?case by blast
next
  case (reader sv n cl s)
  then have "turn_ok site (cl, sv_registry sv)" by (simp add: server_ok_def)
  from reader_work_effect [OF this reader.hyps(2)] have "allocation (cl, sv_registry sv) s"
    by (simp add: allocation_def)
  with reader turn_allocates show ?case by blast
next
  case (take_packet sv d dev p q)
  then show ?case by (intro table_allocates) (simp add: busy_set_device_same)
next
  case (receive_packet sv d dev p dev')
  then show ?case
    using receivePacket_busy [of p dev] by (intro table_allocates) (simp add: busy_set_device_same)
next
  case (queue_error sv d)
  then show ?case
    using registry_inv_unregister [of site "sv_registry sv" d]
    by (intro table_allocates) (simp add: server_ok_def)
next
  case (udev ev sv r)
  then show ?case
    using registry_inv_event [of site "sv_registry sv" ev] by (intro table_allocates) (auto simp: server_ok_def)
next
  case (load config sv r)
  then show ?case
    using registry_inv_load [of site "sv_registry sv" config] by (intro table_allocates) (auto simp: server_ok_def)
qed

lemma server_run_allocates:
  "(server_step pb version uninit)\<^sup>*\<^sup>* (new_server site) sv \<Longrightarrow>
   allocates_channel\<^sup>*\<^sup>* (allocation_of (new_server site)) (allocation_of sv)"
proof (induction rule: rtranclp_induct)
  case (step sv sv')
  then have "allocates_channel (allocation_of sv) (allocation_of sv')"
    using server_steps_ok server_step_allocates by blast
  with step.IH show ?case by (rule rtranclp.rtrancl_into_rtrancl)
qed simp

lemma nobody: "owner (new_server site) = (\<lambda>_. None)"
  by (simp add: owner_def new_server_def fun_eq_iff)

lemma no_channels: "busy (sv_registry (new_server site)) = (\<lambda>_. None)"
  by (simp add: new_server_def started_registry_def registerDriver_def new_Registry_def busy_def
      new_world_def fun_eq_iff)

lemma server_run_exclusive:
  "(server_step pb version uninit)\<^sup>*\<^sup>* (new_server site) sv \<Longrightarrow>
   exclusively (\<lambda>t. channel_is t True) (owner sv, busy (sv_registry sv))"
  using channels.exclusively_from_nothing [of "busy (sv_registry (new_server site))" "allocation_of sv"]
    server_run_allocates [of pb version uninit site sv]
  by (simp add: allocation_of_def nobody)

section \<open>Properties of a running server\<close>



lemma catch_fails:
  assumes "catch_connection m s = (Inl e, s')"
  obtains "m s = (Inl e, s')" "\<And>x. e \<noteq> Raise (Connection_exception x)"
  | x s1 where "m s = (Inl (Raise (Connection_exception x)), s1)" "delete_client s1 = (Inl e, s')"
  using assms unfolding catch_connection_def
  by (auto split: prod.splits sum.splits error.splits exn.splits)

lemma delete_fails:
  assumes "turn_ok site s" "delete_client s = (Inl e, s')"
  shows "e = Crash Use_after_free \<and> rg_deleted (snd s) \<noteq> []"
proof (cases "cl_session (fst s)")
  case None
  with assms(2) show ?thesis by (simp add: delete_client_def stopSession_def delete_connection_def)
next
  case (Some sn)
  obtain d i where sn: "sn = (d, i)" by fastforce
  from assms(2) have "e = Crash Use_after_free \<and> live (snd s) d = None"
    by (auto simp: delete_client_def stopSession_def Some sn on_registry_def bindS_def session_end_def
        on_device_def split: option.splits prod.splits)
  then show ?thesis
    using session_channel(2) [OF assms(1) Some]
    by (auto simp: sn channel_exists_def busy_def live_def split: option.splits if_splits)
qed

lemma fair_exception:
  "fair site s m \<Longrightarrow> m s = (Inl (Raise (Connection_exception x)), s1) \<Longrightarrow> turn_ok site s1"
  unfolding fair_def by blast

text \<open>No step of a client's thread deletes a device.\<close>

lemma on_device_deleted [simp]: "rg_deleted (snd (on_device d f r)) = rg_deleted r"
  by (simp add: on_device_def split: option.split prod.split)

lemma on_registry_deleted:
  "(\<And>r. rg_deleted (snd (f r)) = rg_deleted r) \<Longrightarrow> rg_deleted (snd (snd (on_registry f s))) = rg_deleted (snd s)"
  by (simp add: on_registry_def split: prod.split) (metis snd_conv)

lemma bindS_deleted:
  assumes "rg_deleted (snd (snd (m s))) = rg_deleted (snd s)"
    and "\<And>x s. rg_deleted (snd (snd (f x s))) = rg_deleted (snd s)"
  shows "rg_deleted (snd (snd (bindS m f s))) = rg_deleted (snd s)"
proof -
  obtain x s1 where m: "m s = (x, s1)" by (rule prod.exhaust)
  with assms show ?thesis by (cases x) simp_all
qed

lemma start_first_deleted: "rg_deleted (snd (start_first uninit st ds r)) = rg_deleted r"
proof (induction ds arbitrary: r)
  case (Cons d ds)
  obtain x r1 where x: "on_device d (device_startSession uninit st) r = (x, r1)" by fastforce
  then have "rg_deleted r1 = rg_deleted r" using on_device_deleted [of d "device_startSession uninit st" r] by simp
  with Cons x show ?case by (auto split: sum.split option.split)
qed simp

lemma respond_deleted [simp]: "snd (snd (respond pb rs s)) = snd s"
  by (simp add: respond_snd)

lemma findDevices_deleted: "findDevices codec r = (ds, r1) \<Longrightarrow> rg_deleted r1 = rg_deleted r"
  by (auto simp: findDevices_def split: prod.splits)

lemma session_deleted:
  "rg_deleted (snd (session_getFraming sn r)) = rg_deleted r" "rg_deleted (snd (session_end sn r)) = rg_deleted r"
  by (simp_all add: session_getFraming_def session_end_def)

lemma serve_request_deleted:
  "rg_deleted (snd (snd (serve_request pb uninit codec st s))) = rg_deleted (snd s)"
proof -
  obtain ds r1 where devs: "findDevices codec (snd s) = (ds, r1)" by fastforce
  have "rg_deleted (snd (snd (bindS (on_registry (start_first uninit st ds)) (\<lambda>session s.
      case session of
        None \<Rightarrow> respond pb (response_error ''no device available'') s
      | Some sn \<Rightarrow> bindS (on_registry (session_getFraming sn)) (\<lambda>framing s.
          respond pb (response_ok framing) (startSession ((fst s)\<lparr>cl_session := Some sn\<rparr>), snd s)) s)
      (fst s, r1)))) = rg_deleted (snd (fst s, r1))"
    by (intro bindS_deleted on_registry_deleted start_first_deleted)
      (auto intro!: bindS_deleted on_registry_deleted simp: session_deleted split: option.split)
  then show ?thesis using findDevices_deleted [OF devs] by (simp add: serve_request_def devs)
qed

lemma stopSession_deleted:
  "rg_deleted (snd (snd (f s))) = rg_deleted (snd s) \<Longrightarrow>
   rg_deleted (snd (snd (stopSession k f s))) = rg_deleted (snd s)"
  by (auto simp: stopSession_def session_deleted intro!: bindS_deleted on_registry_deleted split: option.split)

lemma handle_deleted: "rg_deleted (snd (snd (handle pb uninit m s))) = rg_deleted (snd s)"
proof (cases m)
  case (Renegotiation st)
  show ?thesis
  proof (cases "cl_session (fst s)")
    case (Some sn)
    obtain d i where sn: "sn = (d, i)" by fastforce
    obtain y r2 where y: "bindS (on_device d (on_channel i (renegotiate uninit st)))
        (\<lambda>_. session_getFraming (d, i)) (snd s) = (y, r2)" by fastforce
    obtain x r1 where x: "on_device d (on_channel i (renegotiate uninit st)) (snd s) = (x, r1)" by fastforce
    then have "rg_deleted r1 = rg_deleted (snd s)"
      using on_device_deleted [of d "on_channel i (renegotiate uninit st)" "snd s"] by simp
    moreover have "r2 = r1" using x y by (cases x) (auto dest: session_getFraming_frame)
    ultimately show ?thesis
      using Some sn y by (auto simp: Renegotiation process_Renegotiation_def split: sum.split error.split)
  qed (simp add: Renegotiation process_Renegotiation_def)
qed (auto simp: process_Request_def process_Check_def process_ChannelData_def process_SpeechData_def
    intro!: stopSession_deleted serve_request_deleted on_registry_deleted dest: findDevices_deleted
    split: option.split prod.split)

lemma unplugged_deleted: "turn_ok site s \<Longrightarrow> unplugged s \<Longrightarrow> rg_deleted (snd s) \<noteq> []"
  using session_channel(2) [of site s]
  by (auto simp: unplugged_def channel_exists_def busy_def live_def split: option.splits if_splits)

lemma serve_caught_fails:
  assumes "turn_ok site s" "cl_session (fst s) = None" "cl_pc (fst s) = Looping"
    and "catch_connection (serve_request pb uninit codec st) s = (Inl e, s')"
  shows "e = Waits \<or> e = Raise Out_of_range \<and> bad_index st e \<or>
    e = Crash Use_after_free \<and> rg_deleted (snd s) \<noteq> []"
  using assms(4)
proof (rule catch_fails)
  assume "serve_request pb uninit codec st s = (Inl e, s')" "\<And>x. e \<noteq> Raise (Connection_exception x)"
  with serve_request_fails [OF assms(1)] show ?thesis by blast
next
  fix x s1
  assume s1: "serve_request pb uninit codec st s = (Inl (Raise (Connection_exception x)), s1)"
    "delete_client s1 = (Inl e, s')"
  have "turn_ok site s1" by (rule fair_exception [OF fair_serve_request [OF assms(1-3)] s1(1)])
  from delete_fails [OF this s1(2)] serve_request_deleted [of pb uninit codec st s] s1(1)
  show ?thesis by simp
qed

text \<open>The two requests by which a client can end the server.\<close>

definition fatal_message :: "message \<Rightarrow> error \<Rightarrow> bool" where
  "fatal_message m e \<longleftrightarrow>
     (case m of
        Renegotiation st \<Rightarrow> e = Crash Null_deref
      | Request codec st \<Rightarrow> bad_index st e \<and> e = Raise Out_of_range
      | _ \<Rightarrow> False)"

lemma loop_turn_fails:
  assumes "turn_ok site s" "cl_pc (fst s) = Looping"
    and "catch_connection (loop_turn pb uninit) s = (Inl e, s')" "e \<noteq> Waits"
  shows "(e = Crash Use_after_free \<and> rg_deleted (snd s) \<noteq> []) \<or>
    (\<exists>m cn. receiveMessage pb (cl_conn (fst s)) = Some (Inr (Some m), cn) \<and>
       cl_session (fst s) = None \<and> fatal_message m e)"
proof (cases "\<exists>m cn. receiveMessage pb (cl_conn (fst s)) = Some (Inr (Some m), cn)")
  case True
  then obtain m cn where m: "receiveMessage pb (cl_conn (fst s)) = Some (Inr (Some m), cn)" by blast
  let ?s = "((fst s)\<lparr>cl_conn := cn\<rparr>, snd s)"
  have turn: "loop_turn pb uninit s = handle pb uninit m ?s" by (simp add: loop_turn_def m)
  have ok: "turn_ok site ?s" using assms(1) by simp
  from assms(3) show ?thesis
  proof (rule catch_fails)
    assume "loop_turn pb uninit s = (Inl e, s')" "\<And>x. e \<noteq> Raise (Connection_exception x)"
    with handle_fails [OF ok, of pb uninit m e s'] turn assms(4) unplugged_deleted [OF ok] m
    show ?thesis by (auto simp: message_fails_def fatal_message_def)
  next
    fix x s1
    assume s1: "loop_turn pb uninit s = (Inl (Raise (Connection_exception x)), s1)"
      "delete_client s1 = (Inl e, s')"
    have "turn_ok site s1" by (rule fair_exception [OF fair_loop_turn [OF assms(1,2)] s1(1)])
    from delete_fails [OF this s1(2)] handle_deleted [of pb uninit m ?s] s1(1) turn
    show ?thesis by simp
  qed
next
  case False
  have "loop_turn pb uninit s = (Inl Waits, snd (loop_turn pb uninit s)) \<or>
      loop_turn pb uninit s = (Inr (), snd (loop_turn pb uninit s))"
    using False by (auto simp: loop_turn_def split: option.split prod.split sum.split dest: receiveMessage_fails)
  with assms(3,4) show ?thesis by (auto simp: catch_connection_def split: prod.splits)
qed

lemma greeting_fails:
  assumes "turn_ok site (cl, r)" "cl_pc cl = Handshaking"
    and "catch_connection (handshake pb version) (cl, r) = (Inl e, s')"
  shows "e = Crash Use_after_free \<and> rg_deleted r \<noteq> []"
  using assms(3)
proof (rule catch_fails)
  fix x s1
  assume s1: "handshake pb version (cl, r) = (Inl (Raise (Connection_exception x)), s1)"
    "delete_client s1 = (Inl e, s')"
  have "turn_ok site s1"
    by (rule fair_exception [OF fair_handshake [OF assms(1)] s1(1)]) (simp add: assms(2))
  moreover have "snd s1 = r" using s1(1) by (auto simp: handshake_def split: prod.splits if_splits)
  ultimately show ?thesis using delete_fails [OF _ s1(2)] by auto
qed (auto simp: handshake_def split: prod.splits if_splits)

lemma joined_fails:
  assumes "turn_ok site (cl, r)" "cl_pc cl = Joining k"
    and "client_work pb version uninit (cl, r) = (Inl e, s')" "e \<noteq> Waits"
  shows "(\<exists>codec st. k = Then_request codec st \<and> fatal_message (Request codec st) e) \<or>
    e = Crash Use_after_free \<and> rg_deleted r \<noteq> []"
proof -
  obtain rd where rd: "cl_reader cl = Some rd" using assms(1,2) by (auto simp: turn_ok_def client_ok_def)
  have rdone: "rd = Reader_done" using assms(2-4) rd by (cases rd) (simp_all add: client_work_def)
  show ?thesis
  proof (cases k)
    case Then_delete
    with assms(2,3) rd rdone show ?thesis by (simp add: client_work_def delete_connection_def)
  next
    case (Then_request codec st)
    have "turn_ok site ((forget_session cl)\<lparr>cl_pc := Looping\<rparr>, r)"
      using assms(1) by (simp add: turn_ok_def client_ok_def forget_session_def)
    from serve_caught_fails [OF this, of pb uninit codec st e s'] assms(2-4) rd rdone Then_request
    show ?thesis by (auto simp: client_work_def forget_session_def fatal_message_def)
  qed
qed

text \<open>C37: In every reachable state, the only ways in which the thread of a connection can end the server
  are the renegotiation of a client without session, a request with a codec index out of range, and
  the use of a device that has been deleted. Nothing else that a client sends, no data and no
  failing send, does harm.\<close>

theorem connection_failures:
  assumes "(server_step pb version uninit)\<^sup>*\<^sup>* (new_server site) sv" "sv_clients sv n = Some cl"
    and "client_work pb version uninit (cl, sv_registry sv) = (Inl e, s')" "e \<noteq> Waits"
  shows "(\<exists>m cn. cl_pc cl = Looping \<and> cl_session cl = None \<and>
      receiveMessage pb (cl_conn cl) = Some (Inr (Some m), cn) \<and> fatal_message m e) \<or>
    (\<exists>codec st. cl_pc cl = Joining (Then_request codec st) \<and> fatal_message (Request codec st) e) \<or>
    (e = Crash Use_after_free \<and> rg_deleted (sv_registry sv) \<noteq> [])"
proof -
  let ?s = "(cl, sv_registry sv)"
  have ok: "turn_ok site ?s"
    using server_steps_ok [OF assms(1)] assms(2) by (simp add: server_ok_def)
  show ?thesis
  proof (cases "cl_pc cl")
    case Handshaking
    then have "catch_connection (handshake pb version) ?s = (Inl e, s')"
      using assms(3) by (simp add: client_work_def)
    from greeting_fails [OF ok Handshaking this] show ?thesis by simp
  next
    case Looping
    show ?thesis
    proof (cases "cl_run cl")
      case True
      with loop_turn_fails [OF ok, of pb uninit e s'] assms(3,4) Looping show ?thesis
        by (auto simp: client_work_def)
    next
      case False
      with assms(3) Looping have "delete_client ?s = (Inl e, s')" by (simp add: client_work_def)
      with delete_fails [OF ok] show ?thesis by simp
    qed
  next
    case (Joining k)
    from joined_fails [OF ok Joining assms(3,4)] show ?thesis by (auto simp: Joining)
  next
    case Deleted
    with assms(3) show ?thesis by (simp add: client_work_def)
  qed
qed

text \<open>A protobuf library to which every message is \<open>m\<close>.\<close>

definition constant_protobuf :: "message \<Rightarrow> (nat \<times> bytes) protobuf" where
  "constant_protobuf m = unary_protobuf\<lparr>pb_parse := (\<lambda>(l, bs). (True, m, (0, drop l bs)))\<rparr>"

lemma constant_protobuf_receives:
  assumes "cn_sock cn \<noteq> - 1" "cn_polls cn = Poll_revents False True # polls" "cn_stream cn = Some (1 # 0 # x # rest)"
  shows "receiveMessage (constant_protobuf m) cn =
    Some (Inr (Some m), cn\<lparr>cn_polls := polls, cn_stream := Some rest\<rparr>)"
  using assms poll_loop_skips [of "cn_sock cn" 0 polls]
  by (simp add: receiveMessage_def receive_body_def constant_protobuf_def unary_protobuf_def)

text \<open>A client behind the handshake that has sent two messages.\<close>

definition busy_client :: "message \<Rightarrow> client" where
  "busy_client m = snd (send_client (constant_protobuf m) (Handshake ''codecserver'' ''1'' PROTOCOL_VERSION)
     (new_ClientConnection (new_Connection 4 [1, 0, 9, 1, 0, 9] (replicate 2 (Poll_revents False True)) [])))
       \<lparr>cl_pc := Looping\<rparr>"

lemma busy_client [simp]:
  "cl_pc (busy_client m) = Looping" "cl_session (busy_client m) = None" "cl_run (busy_client m)"
  "cn_sends (cl_conn (busy_client m)) = []" "cn_sock (cl_conn (busy_client m)) = 4"
  "cn_polls (cl_conn (busy_client m)) = [Poll_revents False True, Poll_revents False True]"
  "cn_stream (cl_conn (busy_client m)) = Some [1, 0, 9, 1, 0, 9]"
  by (simp_all add: busy_client_def new_ClientConnection_def send_client_scheduled new_Connection_def
      numeral_2_eq_2)

lemma busy_client_step:
  assumes "sv_clients sv n = None"
  shows "(server_step (constant_protobuf m) ''1'' uninit)\<^sup>*\<^sup>* sv (put_client n (busy_client m, sv_registry sv) sv)"
proof -
  let ?cl = "new_ClientConnection
    (new_Connection 4 [1, 0, 9, 1, 0, 9] (replicate 2 (Poll_revents False True)) [])"
  let ?sv = "put_client n (?cl, sv_registry sv) sv"
  have "server_step (constant_protobuf m) ''1'' uninit sv ?sv" by (rule accept) (rule assms)
  moreover have "server_step (constant_protobuf m) ''1'' uninit ?sv
      (put_client n (busy_client m, sv_registry sv) ?sv)"
    by (rule client [of ?sv n ?cl])
      (simp_all add: put_client_def client_work_def catch_connection_def handshake_def
        new_ClientConnection_def new_Connection_def send_client_scheduled busy_client_def)
  then have "server_step (constant_protobuf m) ''1'' uninit ?sv (put_client n (busy_client m, sv_registry sv) sv)"
    by (simp add: put_client_def)
  ultimately show ?thesis by (rule converse_rtranclp_into_rtranclp [OF _ r_into_rtranclp])
qed

theorem connection_failures_witness:
  "\<exists>m. fatal_message m (Crash Null_deref) \<and>
     fst (client_work (constant_protobuf (Renegotiation no_settings)) ''1'' (\<lambda>_. 0)
       (busy_client (Renegotiation no_settings), sv_registry (new_server working_site))) = Inl (Crash Null_deref)"
proof -
  let ?m = "Renegotiation no_settings"
  let ?pb = "constant_protobuf ?m"
  let ?sv = "put_client 0 (busy_client ?m, sv_registry (new_server working_site)) (new_server working_site)"
  obtain cn where recv: "receiveMessage ?pb (cl_conn (busy_client ?m)) = Some (Inr (Some ?m), cn)"
    using constant_protobuf_receives [of "cl_conn (busy_client ?m)" _ 9 "[1, 0, 9]"] by simp
  have "fst (client_work ?pb ''1'' (\<lambda>_. 0) (busy_client ?m, sv_registry ?sv)) = Inl (Crash Null_deref)"
    by (simp add: client_work_def catch_connection_def loop_turn_def recv process_Renegotiation_def)
  then obtain s' where fails: "client_work ?pb ''1'' (\<lambda>_. 0) (busy_client ?m, sv_registry ?sv) =
      (Inl (Crash Null_deref), s')" by (metis prod.collapse)
  have "(server_step ?pb ''1'' (\<lambda>_. 0))\<^sup>*\<^sup>* (new_server working_site) ?sv"
    by (rule busy_client_step) (simp add: new_server_def)
  moreover have "sv_clients ?sv 0 = Some (busy_client ?m)" by (simp add: put_client_def)
  ultimately have "\<exists>m. fatal_message m (Crash Null_deref)"
    using connection_failures [OF _ _ fails] by fastforce
  with fails show ?thesis by (simp add: put_client_def)
qed

section \<open>One session for each connection\<close>

lemma serve_request_run:
  "cl_run (fst (snd (serve_request pb uninit codec st s))) = cl_run (fst s)"
  by (auto simp: serve_request_def on_registry_def bindS_def respond_snd startSession_def
      split: prod.split sum.split option.split)

lemma delete_run: "cl_run (fst (snd (delete_client s))) = cl_run (fst s)"
  by (auto simp: delete_client_def stopSession_def delete_connection_def on_registry_def bindS_def
      split: prod.split sum.split option.split)

lemma catch_run:
  assumes "cl_run (fst (snd (m s))) = cl_run (fst s)"
  shows "cl_run (fst (snd (catch_connection m s))) = cl_run (fst s)"
  using assms delete_run
  by (auto simp: catch_connection_def split: prod.split sum.split error.split exn.split)

text \<open>C38: A connection can have one session only: when a second request has stopped the first
  session, joining its reader has cleared \<^verbatim>\<open>run\<close>. Whatever session the second request starts, the
  next turn of the loop reads no message but ends it together with the connection.\<close>

theorem second_request_ends:
  assumes "(server_step pb version uninit)\<^sup>*\<^sup>* (new_server site) sv" "sv_clients sv n = Some cl"
    and "cl_pc cl = Joining k" "client_work pb version uninit (cl, sv_registry sv) = (Inr (), (cl', r'))"
  shows "\<not> cl_run cl' \<and>
    (cl_pc cl' = Looping \<longrightarrow> client_work pb version uninit (cl', r) = delete_client (cl', r))"
proof -
  have ok: "client_ok cl"
    using server_steps_ok [OF assms(1)] assms(2) by (auto simp: server_ok_def turn_ok_def)
  then obtain rd where rd: "cl_reader cl = Some rd" using assms(3) by (auto simp: client_ok_def)
  have rdone: "rd = Reader_done" using assms(3,4) rd by (cases rd) (simp_all add: client_work_def)
  then have stopped: "\<not> cl_run cl" using ok rd by (simp add: client_ok_def)
  have "\<not> cl_run cl'"
  proof (cases k)
    case Then_delete
    with assms(3,4) rd rdone stopped show ?thesis
      by (auto simp: client_work_def delete_connection_def forget_session_def)
  next
    case (Then_request codec st)
    let ?t = "((forget_session cl)\<lparr>cl_pc := Looping\<rparr>, sv_registry sv)"
    have "catch_connection (serve_request pb uninit codec st) ?t = (Inr (), (cl', r'))"
      using assms(3,4) rd rdone Then_request by (simp add: client_work_def)
    with catch_run [where s = ?t and m = "serve_request pb uninit codec st", OF serve_request_run] stopped show ?thesis
      by (simp add: forget_session_def)
  qed
  then show ?thesis by (simp add: client_work_def)
qed

text \<open>A run of the server: it loads the stick, and one client requests a session twice.\<close>

lemma load_stick:
  obtains r dev where "loadDeviceFromConfig ambe_codecs (stick_config ''460800'') (started_registry working_site) = (Inr (), r)"
    "registry_ok r" "devices_of r ''ambe'' = [0]" "live r 0 = Some dev"
    "dv_channels dev = createChannels (ascii ''AMBE3003F'')"
proof -
  obtain t where "device_init (\<lambda>_ _. 0xEE) answering_line = Inr (createChannels (ascii ''AMBE3003F''), t)"
    using answering_line_init by blast
  then obtain dev where dev: "new_Device (site_strerror working_site) (site_calls working_site ''/dev/ttyUSB0'' 0)
      (site_memory working_site) (site_line working_site ''/dev/ttyUSB0'' 0) 460800 = Inr (dev, t)"
    "dv_channels dev = createChannels (ascii ''AMBE3003F'')"
    by (simp add: new_Device_def open_tty_def working_site_def broken_site_def convertBaudrate_def
        check_call_def Let_def)
  let ?init = "started_registry working_site"
  have n: "stoul ''460800'' = Inr 460800" by (simp add: stoul_def parse_number)
  have w0: "rg_world ?init = new_world" "rg_deleted ?init = []" "rg_devices ?init = []"
    by (simp_all add: started_registry_def registerDriver_def new_Registry_def map_get_def)
  obtain w where build: "buildFromConfiguration working_site (stick_config ''460800'') (rg_world ?init) = (Inr (Some 0), w)"
    "aw_devices w = [0 \<mapsto> dev]"
    using dev(1) n by (simp add: buildFromConfiguration_def construct_def stick_config_get w0 new_world_def
        addDevice_def)
  have ok: "ambe_registry_ok working_site ?init" by (rule started_registry_ok)
  let ?r = "registerDevice ambe_codecs 0 (?init\<lparr>rg_world := w\<rparr>)"
  have driver: "map_get (rg_drivers ?init) ''ambe3k'' = Some (ambe3k_driver working_site)"
    "dr_build (ambe3k_driver working_site) = buildFromConfiguration working_site"
    using ok by (simp_all add: ambe_registry_ok_def ambe3k_driver_def Driver_default_def)
  have "loadDeviceFromConfig ambe_codecs (stick_config ''460800'') ?init = (Inr (), ?r)"
    unfolding loadDeviceFromConfig_def stick_config_get option.case driver build(1) by simp
  moreover have reg: "registry_ok (?init\<lparr>rg_world := w\<rparr>)" using ok by (simp add: ambe_registry_ok_def)
  moreover have "devices_of ?init ''ambe'' = []" by (simp add: devices_of_def w0 map_get_def)
  then have "devices_of ?r ''ambe'' = [0]" "registry_ok ?r"
    using ambe_dir.add [OF reg, of 0 "''ambe''"] by (simp_all add: getCodecs_def)
  moreover have "live ?r 0 = Some dev" using build(2) by (simp add: live_def w0)
  ultimately show ?thesis using that dev(2) by blast
qed

lemma free_start:
  assumes "dv_channels dev = c # cs" "\<not> isBusy c"
  shows "device_startSession uninit no_settings dev = (Inr (Some 0), set_channel 0 reserve dev)"
  by (rule startSession_no_settings) (use assms in \<open>simp_all add: no_settings_def\<close>)

lemma put_client_again [simp]: "put_client n s (put_client n s' sv) = put_client n s sv"
  by (simp add: put_client_def)

lemma put_client_sel [simp]:
  "sv_clients (put_client n s sv) n = Some (fst s)" "sv_registry (put_client n s sv) = snd s"
  by (simp_all add: put_client_def)

lemma client_steps:
  assumes "client_work pb version uninit s = (Inr (), s') \<or> reader_work pb s = (Inr (), s')"
  shows "(server_step pb version uninit)\<^sup>*\<^sup>* (put_client n s sv) (put_client n s' sv)"
  using assms client [of "put_client n s sv" n "fst s" pb version uninit s']
    reader [of "put_client n s sv" n "fst s" pb s' version uninit]
  by (auto intro: r_into_rtranclp)

abbreviation request_protobuf :: "(nat \<times> bytes) protobuf" where
  "request_protobuf \<equiv> constant_protobuf (Request ''ambe'' no_settings)"

text \<open>A run in which the client has got a session, and in which it is about to request another one.\<close>

lemma requesting_once:
  obtains sv cl r dev where
    "(server_step request_protobuf ''1'' (\<lambda>_. 0))\<^sup>*\<^sup>* (new_server working_site) (put_client 0 (cl, r) sv)"
    "cl_pc cl = Looping" "cl_run cl" "cl_session cl = Some (0, 0)" "cl_reader cl = Some Reading"
    "cn_sends (cl_conn cl) = []" "cn_sock (cl_conn cl) = 4"
    "cn_polls (cl_conn cl) = [Poll_revents False True]" "cn_stream (cl_conn cl) = Some [1, 0, 9]"
    "live r 0 = Some (set_channel 0 reserve dev)" "devices_of r ''ambe'' = [0]" "registry_ok r"
    "\<exists>c cs. dv_channels dev = c # cs \<and> \<not> isBusy c"
proof -
  let ?pb = "request_protobuf" and ?m = "Request ''ambe'' no_settings"
  obtain r dev where load: "loadDeviceFromConfig ambe_codecs (stick_config ''460800'')
      (started_registry working_site) = (Inr (), r)"
    and r: "registry_ok r" "devices_of r ''ambe'' = [] @ 0 # []" "live r 0 = Some dev"
    and chans: "dv_channels dev = createChannels (ascii ''AMBE3003F'')"
    by (rule load_stick) simp
  let ?sv = "(new_server working_site)\<lparr>sv_registry := r\<rparr>"
  have "server_step ?pb ''1'' (\<lambda>_. 0) (new_server working_site) ?sv"
    by (rule server_step.load [where config = "stick_config ''460800''"]) (simp add: load new_server_def)
  moreover have "(server_step ?pb ''1'' (\<lambda>_. 0))\<^sup>*\<^sup>* ?sv (put_client 0 (busy_client ?m, r) ?sv)"
    using busy_client_step [of ?sv 0] by (simp add: new_server_def)
  ultimately have run0: "(server_step ?pb ''1'' (\<lambda>_. 0))\<^sup>*\<^sup>* (new_server working_site)
      (put_client 0 (busy_client ?m, r) ?sv)"
    by (rule converse_rtranclp_into_rtranclp)
  \<comment> \<open>the first request\<close>
  let ?cl1 = "(busy_client ?m)\<lparr>cl_conn := (cl_conn (busy_client ?m))
    \<lparr>cn_polls := [Poll_revents False True], cn_stream := Some [1, 0, 9]\<rparr>\<rparr>"
  have recv1: "receiveMessage ?pb (cl_conn (busy_client ?m)) = Some (Inr (Some ?m), cl_conn ?cl1)"
    by (simp add: constant_protobuf_receives)
  have free: "\<exists>c cs. dv_channels dev = c # cs \<and> \<not> isBusy c"
    by (simp add: chans createChannels_3003 new_Channel_def isBusy_def)
  then have start1: "device_startSession (\<lambda>_. 0) no_settings dev = (Inr (Some 0), set_channel 0 reserve dev)"
    using free_start by blast
  obtain cl2 r2 where req1: "process_Request ?pb (\<lambda>_. 0) ''ambe'' no_settings (?cl1, r) = (Inr (), (cl2, r2))"
    and cl2: "cl2 = snd (send_client ?pb (Response (response_ok (getFraming
       (dv_channels (set_channel 0 reserve dev) ! 0)))) (startSession (?cl1\<lparr>cl_session := Some (0, 0)\<rparr>)))"
    and r2: "live r2 = (live r)(0 \<mapsto> set_channel 0 reserve dev)" "devices_of r2 = devices_of r" "registry_ok r2"
    by (rule request_served [OF _ _ r(1,2) _ r(3) start1, of ?cl1 ?pb]) simp_all
  have "client_work ?pb ''1'' (\<lambda>_. 0) (busy_client ?m, r) = (Inr (), (cl2, r2))"
    using req1 by (simp add: client_work_def catch_connection_def loop_turn_def recv1)
  then have run1: "(server_step ?pb ''1'' (\<lambda>_. 0))\<^sup>*\<^sup>* (new_server working_site) (put_client 0 (cl2, r2) ?sv)"
    by (rule rtranclp_trans [OF run0 client_steps [OF disjI1]])
  have cl2_sel: "cl_pc cl2 = Looping" "cl_run cl2" "cl_session cl2 = Some (0, 0)" "cl_reader cl2 = Some Reading"
    "cn_sends (cl_conn cl2) = []" "cn_sock (cl_conn cl2) = 4"
    "cn_polls (cl_conn cl2) = [Poll_revents False True]" "cn_stream (cl_conn cl2) = Some [1, 0, 9]"
    by (simp_all add: cl2 startSession_def send_client_scheduled)
  moreover have "live r2 0 = Some (set_channel 0 reserve dev)" "devices_of r2 ''ambe'' = [0]" "registry_ok r2"
    using r2 r(2) by simp_all
  ultimately show ?thesis using that [OF run1] free by simp
qed

text \<open>The second request waits for the reader of the first session, and the reader ends.\<close>

lemma requesting_again:
  obtains sv cl r dev where
    "(server_step request_protobuf ''1'' (\<lambda>_. 0))\<^sup>*\<^sup>* (new_server working_site) (put_client 0 (cl, r) sv)"
    "cl_pc cl = Joining (Then_request ''ambe'' no_settings)" "cl_session cl = Some (0, 0)"
    "cn_sends (cl_conn cl) = []" "cl_reader cl = Some Reader_done"
    "live r 0 = Some dev" "devices_of r ''ambe'' = [0]" "registry_ok r"
    "\<exists>c cs. dv_channels dev = c # cs \<and> \<not> isBusy c"
proof -
  let ?pb = "request_protobuf" and ?m = "Request ''ambe'' no_settings"
  obtain sv cl r dev where run0:
    "(server_step ?pb ''1'' (\<lambda>_. 0))\<^sup>*\<^sup>* (new_server working_site) (put_client 0 (cl, r) sv)"
    and cl: "cl_pc cl = Looping" "cl_run cl" "cl_session cl = Some (0, 0)" "cl_reader cl = Some Reading"
      "cn_sends (cl_conn cl) = []" "cn_sock (cl_conn cl) = 4"
      "cn_polls (cl_conn cl) = [Poll_revents False True]" "cn_stream (cl_conn cl) = Some [1, 0, 9]"
    and live0: "live r 0 = Some (set_channel 0 reserve dev)"
    and r: "devices_of r ''ambe'' = [0]" "registry_ok r"
    and free: "\<exists>c cs. dv_channels dev = c # cs \<and> \<not> isBusy c"
    by (rule requesting_once)
  let ?dev = "set_channel 0 release (set_channel 0 reserve dev)"
  let ?cl1 = "cl\<lparr>cl_conn := (cl_conn cl)\<lparr>cn_polls := [], cn_stream := Some []\<rparr>, cl_pc := Joining (Then_request ''ambe'' no_settings)\<rparr>"
  let ?r1 = "set_device 0 ?dev r"
  have recv: "receiveMessage ?pb (cl_conn cl) = Some (Inr (Some ?m), cl_conn ?cl1)"
    using cl by (simp add: constant_protobuf_receives)
  have "client_work ?pb ''1'' (\<lambda>_. 0) (cl, r) = (Inr (), (?cl1, ?r1))"
    using cl live0
    by (simp add: client_work_def catch_connection_def loop_turn_def recv process_Request_def
        stopSession_def on_registry_def session_end_def on_device_live)
  then have run1: "(server_step ?pb ''1'' (\<lambda>_. 0))\<^sup>*\<^sup>* (new_server working_site) (put_client 0 (?cl1, ?r1) sv)"
    by (rule rtranclp_trans [OF run0 client_steps [OF disjI1]])
  have live1: "live ?r1 0 = Some ?dev" using live_not_deleted [OF live0] by simp
  have released: "dv_channels ?dev ! 0 = release (reserve (dv_channels dev ! 0))"
    using free by (auto simp: set_channel_def)
  have read: "session_read 0 ?dev = (Inr [], ?dev)"
    using free by (auto simp: session_read_def on_channel_def released channel_read_def release_def set_channel_def)
  let ?cl2 = "?cl1\<lparr>cl_run := False, cl_reader := Some Reader_done\<rparr>"
  have "reader_work ?pb (?cl1, ?r1) = (Inr (), (?cl2, ?r1))"
    using cl live1 read by (simp add: reader_work_def on_registry_def on_device_live bindS_def)
  then have "(server_step ?pb ''1'' (\<lambda>_. 0))\<^sup>*\<^sup>* (new_server working_site) (put_client 0 (?cl2, ?r1) sv)"
    by (rule rtranclp_trans [OF run1 client_steps [OF disjI2]])
  moreover have "\<exists>c cs. dv_channels ?dev = c # cs \<and> \<not> isBusy c"
    using free by (auto simp: set_channel_def)
  ultimately show ?thesis
    using that [of ?cl2 ?r1 sv ?dev] cl(3,5) live1 r by simp
qed

text \<open>After the join it is served, and the session starts.\<close>

lemma twice_requesting:
  obtains sv cl k cl' r' where
    "(server_step request_protobuf ''1'' (\<lambda>_. 0))\<^sup>*\<^sup>* (new_server working_site) sv"
    "sv_clients sv 0 = Some cl" "cl_pc cl = Joining k"
    "client_work request_protobuf ''1'' (\<lambda>_. 0) (cl, sv_registry sv) = (Inr (), (cl', r'))"
    "cl_session cl' = Some (0, 0)" "cl_pc cl' = Looping"
proof -
  let ?pb = "request_protobuf"
  obtain sv cl r dev where run:
    "(server_step ?pb ''1'' (\<lambda>_. 0))\<^sup>*\<^sup>* (new_server working_site) (put_client 0 (cl, r) sv)"
    and cl: "cl_pc cl = Joining (Then_request ''ambe'' no_settings)" "cl_session cl = Some (0, 0)"
      "cn_sends (cl_conn cl) = []" "cl_reader cl = Some Reader_done"
    and r: "live r 0 = Some dev" "devices_of r ''ambe'' = [] @ 0 # []" "registry_ok r"
    and free: "\<exists>c cs. dv_channels dev = c # cs \<and> \<not> isBusy c"
    by (rule requesting_again) simp
  let ?cl1 = "(forget_session cl)\<lparr>cl_pc := Looping\<rparr>"
  have cl1: "cl_session ?cl1 = None" "cn_sends (cl_conn ?cl1) = []" using cl by (simp_all add: forget_session_def)
  have start: "device_startSession (\<lambda>_. 0) no_settings dev = (Inr (Some 0), set_channel 0 reserve dev)"
    using free free_start by blast
  obtain cl2 r2 where req: "process_Request ?pb (\<lambda>_. 0) ''ambe'' no_settings (?cl1, r) = (Inr (), (cl2, r2))"
    and cl2: "cl2 = snd (send_client ?pb (Response (response_ok (getFraming
       (dv_channels (set_channel 0 reserve dev) ! 0)))) (startSession (?cl1\<lparr>cl_session := Some (0, 0)\<rparr>)))"
    by (rule request_served [OF cl1 r(3,2) _ r(1) start, of ?pb]) simp
  have "client_work ?pb ''1'' (\<lambda>_. 0) (cl, r) = (Inr (), (cl2, r2))"
    using req by (simp add: client_work_def catch_connection_def process_Request_def stopSession_def cl cl1)
  moreover have "cl_session cl2 = Some (0, 0)" "cl_pc cl2 = Looping"
    by (simp_all add: cl2 startSession_def)
  ultimately show ?thesis using that [OF run, of cl] cl(1) by simp
qed

theorem second_request_ends_witness:
  "\<exists>cl r. cl_session cl = Some (0, 0) \<and> \<not> cl_run cl \<and>
     client_work request_protobuf ''1'' (\<lambda>_. 0) (cl, r) = delete_client (cl, r)"
proof -
  obtain sv cl k cl' r' where run:
    "(server_step request_protobuf ''1'' (\<lambda>_. 0))\<^sup>*\<^sup>* (new_server working_site) sv"
    "sv_clients sv 0 = Some cl" "cl_pc cl = Joining k"
    "client_work request_protobuf ''1'' (\<lambda>_. 0) (cl, sv_registry sv) = (Inr (), (cl', r'))"
    and sn: "cl_session cl' = Some (0, 0)" "cl_pc cl' = Looping"
    by (rule twice_requesting)
  from second_request_ends [OF run, of r'] have "\<not> cl_run cl'"
    "cl_pc cl' = Looping \<Longrightarrow> client_work request_protobuf ''1'' (\<lambda>_. 0) (cl', r') = delete_client (cl', r')"
    by blast+
  with sn show ?thesis by blast
qed

lemma session_running:
  obtains sv where "(server_step request_protobuf ''1'' (\<lambda>_. 0))\<^sup>*\<^sup>* (new_server working_site) sv"
    "owner sv 0 = Some (0, 0)"
proof -
  obtain sv cl k cl' r' where run:
    "(server_step request_protobuf ''1'' (\<lambda>_. 0))\<^sup>*\<^sup>* (new_server working_site) sv"
    "sv_clients sv 0 = Some cl" "cl_pc cl = Joining k"
    "client_work request_protobuf ''1'' (\<lambda>_. 0) (cl, sv_registry sv) = (Inr (), (cl', r'))"
    and sn: "cl_session cl' = Some (0, 0)" "cl_pc cl' = Looping"
    by (rule twice_requesting)
  have "server_step request_protobuf ''1'' (\<lambda>_. 0) sv (put_client 0 (cl', r') sv)"
    using run(2) run(4) by (rule client)
  with run(1) have "(server_step request_protobuf ''1'' (\<lambda>_. 0))\<^sup>*\<^sup>* (new_server working_site)
      (put_client 0 (cl', r') sv)" by (rule rtranclp.rtrancl_into_rtrancl)
  moreover have "owner (put_client 0 (cl', r') sv) 0 = Some (0, 0)" 
    unfolding owner_put owned_def using sn by simp
  ultimately show ?thesis by (rule that)
qed



section \<open>Clients that go away\<close>

text \<open>
  The turns of a client's threads once its socket has ended: the connection's thread learns it and
  ends the session, the reader ends (after a send, if it has data), and the thread deletes the
  connection.
\<close>

definition last_turns :: "'c protobuf \<Rightarrow> string \<Rightarrow> (nat \<Rightarrow> short) \<Rightarrow> unit handler" where
  "last_turns pb version uninit =
     bindS (client_work pb version uninit) (\<lambda>_.
     bindS (client_work pb version uninit) (\<lambda>_.
     bindS (reader_work pb) (\<lambda>_.
     bindS (reader_work pb) (\<lambda>_.
     client_work pb version uninit))))"

lemma reader_ends:
  assumes "cl_reader cl = Some rd" "\<not> cl_run cl"
  obtains cl' where "bindS (reader_work pb) (\<lambda>_. bindS (reader_work pb) f) (cl, r) = f () (cl', r)"
    "cl_reader cl' = Some Reader_done" "\<not> cl_run cl'" "cl_pc cl' = cl_pc cl" "cl_session cl' = cl_session cl"
proof (cases rd)
  case Reading
  with that [of "cl\<lparr>cl_reader := Some Reader_done\<rparr>"] assms show ?thesis
    by (simp add: bindS_def reader_work_def)
next
  case (Got bs)
  obtain ok cl1 where send: "send_client pb (SpeechData bs) cl = (ok, cl1)" by fastforce
  let ?cl = "cl1\<lparr>cl_run := False, cl_reader := Some Reading\<rparr>"
  have cl1: "cl_pc cl1 = cl_pc cl" "cl_run cl1 = cl_run cl" "cl_session cl1 = cl_session cl"
    using send_client_frame [of pb "SpeechData bs" cl] send by simp_all
  then have "cl1\<lparr>cl_reader := Some Reading\<rparr> = ?cl" using assms(2) by (cases cl1) simp
  then have "reader_work pb (cl, r) = (Inr (), (?cl, r))"
    using assms(1) Got send by (simp add: reader_work_def)
  moreover have "reader_work pb (?cl, r) = (Inr (), (?cl\<lparr>cl_reader := Some Reader_done\<rparr>, r))"
    by (simp add: reader_work_def)
  ultimately show ?thesis using that [of "?cl\<lparr>cl_reader := Some Reader_done\<rparr>"] cl1 by (simp add: bindS_def)
next
  case Reader_done
  with that [of cl] assms show ?thesis by (simp add: bindS_def reader_work_def)
qed

text \<open>The turns after the one that found the end of the socket, without and with a session.\<close>

lemma last_turns_idle:
  assumes "turn_ok site (cl, r)" "cl_session cl = None"
    and "client_work pb version uninit (cl, r) = (Inr (), (cl\<lparr>cl_conn := cn, cl_run := False\<rparr>, r))"
    and "cl_pc cl = Looping"
  shows "last_turns pb version uninit (cl, r) =
    (Inr (), (cl\<lparr>cl_conn := close_connection cn, cl_run := False, cl_pc := Deleted\<rparr>, r))"
proof -
  let ?cl = "cl\<lparr>cl_conn := cn, cl_run := False\<rparr>"
  let ?d = "?cl\<lparr>cl_conn := close_connection cn, cl_pc := Deleted\<rparr>"
  have "client_work pb version uninit (?cl, r) = (Inr (), (?d, r))"
    using assms(2,4)
    by (simp add: client_work_def delete_client_def stopSession_def delete_connection_def)
  moreover have "cl_reader cl = None" using assms(1,2) by (simp add: turn_ok_def client_ok_def)
  then have "reader_work pb (?d, r) = (Inr (), (?d, r))" by (simp add: reader_work_def)
  moreover have "client_work pb version uninit (?d, r) = (Inr (), (?d, r))" by (simp add: client_work_def)
  ultimately show ?thesis unfolding last_turns_def using assms(3) by simp
qed

lemma last_turns_session:
  assumes "turn_ok site (cl, r)" "cl_session cl = Some sn" "session_end sn r = (Inr (), r')"
    and "client_work pb version uninit (cl, r) = (Inr (), (cl\<lparr>cl_conn := cn, cl_run := False\<rparr>, r))"
    and "cl_pc cl = Looping"
  obtains cl' where "last_turns pb version uninit (cl, r) = delete_connection (forget_session cl', r')"
proof -
  let ?cl = "cl\<lparr>cl_conn := cn, cl_run := False\<rparr>" and ?f = "\<lambda>_. client_work pb version uninit"
  let ?j = "?cl\<lparr>cl_pc := Joining Then_delete\<rparr>"
  obtain rd where rd: "cl_reader cl = Some rd" using session_channel(3) [OF assms(1)] assms(2) by auto
  have stop: "client_work pb version uninit (?cl, r) = (Inr (), (?j, r'))"
    using assms(2,3,5) by (simp add: client_work_def delete_client_def stopSession_def on_registry_def)
  obtain cl' where cl': "bindS (reader_work pb) (\<lambda>_. bindS (reader_work pb) ?f) (?j, r') = ?f () (cl', r')"
    "cl_reader cl' = Some Reader_done" "\<not> cl_run cl'" "cl_pc cl' = Joining Then_delete"
    by (rule reader_ends [of ?j rd pb ?f r']) (use rd in simp_all)
  have "client_work pb version uninit (cl', r') = delete_connection (forget_session cl', r')"
    using cl'(2,4) by (simp add: client_work_def)
  moreover have "last_turns pb version uninit (cl, r) = client_work pb version uninit (cl', r')"
    unfolding last_turns_def using assms(4) stop cl'(1) by simp
  ultimately show ?thesis using that by simp
qed



end
