(* ===== verification/Socket_Servers.thy ===== *)
theory Socket_Servers
  imports Ambe_Device Std_Map
begin

text \<open>
  The servers that accept connections: \<^verbatim>\<open>SocketServer\<close> (\<^verbatim>\<open>src/server/socketserver.cpp\<close>) with its
  subclasses for TCP (\<^verbatim>\<open>tcpserver.cpp\<close>) and Unix domain sockets (\<^verbatim>\<open>unixdomainsocketserver.cpp\<close>):
  reading the configuration, setting up the socket, accepting, stopping.

  The results of the system calls are inputs, the record \<open>sock_calls\<close>: a call fails with its error
  number or succeeds. \<^verbatim>\<open>bind\<close> may look at the address. Whether \<^verbatim>\<open>chmod\<close> of the socket works is only
  logged. \<^verbatim>\<open>accept\<close> delivers the events of a list.
\<close>

section \<open>Servers\<close>

datatype server_type =
    Unix_server string            \<comment> \<open>\<^verbatim>\<open>socket_path\<close>\<close>
  | Tcp4_server string short      \<comment> \<open>\<^verbatim>\<open>bindAddr\<close> and \<^verbatim>\<open>port\<close>\<close>
  | Tcp6_server string short

definition new_UnixDomainSocketServer :: server_type where
  "new_UnixDomainSocketServer = Unix_server ''/tmp/codecserver.sock''"

definition new_Tcp4Server :: server_type where
  "new_Tcp4Server = Tcp4_server ''0.0.0.0'' 1073"

definition new_Tcp6Server :: server_type where
  "new_Tcp6Server = Tcp6_server ''::'' 1073"

record socket_server =
  so_type :: server_type
  so_sock :: int
  so_dorun :: bool
  so_closed :: "int list"   \<comment> \<open>history: the descriptors given to \<^verbatim>\<open>close\<close>\<close>

definition new_SocketServer :: "server_type \<Rightarrow> socket_server" where
  "new_SocketServer t = \<lparr>so_type = t, so_sock = - 1, so_dorun = True, so_closed = []\<rparr>"

section \<open>Configuration\<close>

text \<open>\<^verbatim>\<open>stoul\<close> yields an \<^verbatim>\<open>unsigned long\<close>, of which the port keeps 16 bits.\<close>

definition read_port :: "section_map \<Rightarrow> short \<Rightarrow> error + short" where
  "read_port config port =
     (case map_get config ''port'' of
        None \<Rightarrow> Inr port
      | Some s \<Rightarrow> bindE (stoul s) (\<lambda>n. Inr (of_nat n)))"

definition read_bindAddr :: "section_map \<Rightarrow> string \<Rightarrow> string" where
  "read_bindAddr config bindAddr =
     (case map_get config ''bind'' of None \<Rightarrow> bindAddr | Some s \<Rightarrow> s)"

definition read_path :: "section_map \<Rightarrow> string \<Rightarrow> string" where
  "read_path config socket_path =
     (case map_get config ''socket'' of None \<Rightarrow> socket_path | Some s \<Rightarrow> s)"

fun readConfig :: "section_map \<Rightarrow> server_type \<Rightarrow> error + server_type" where
  "readConfig config (Unix_server path) =
     Inr (Unix_server (read_path config path))"
| "readConfig config (Tcp4_server addr port) =
     bindE (read_port config port) (\<lambda>port. Inr (Tcp4_server (read_bindAddr config addr) port))"
| "readConfig config (Tcp6_server addr port) =
     bindE (read_port config port) (\<lambda>port. Inr (Tcp6_server (read_bindAddr config addr) port))"

section \<open>Setting up the socket\<close>

text \<open>
  The addresses given to \<^verbatim>\<open>bind\<close>: 108 bytes of path, or the port in network byte order and the
  address; an IPv6 address that \<^verbatim>\<open>inet_pton\<close> refuses stays zero.
\<close>

datatype sockaddr = Sockaddr_un bytes | Sockaddr_in short "32 word" | Sockaddr_in6 short bytes

datatype address_family = AF_UNIX | AF_INET | AF_INET6

record sock_calls =
  sc_strerror :: "int \<Rightarrow> string"
  sc_socket :: "address_family \<Rightarrow> nat \<Rightarrow> int + int"   \<comment> \<open>of a family and a protocol\<close>
  sc_setsockopt :: "int option"
  sc_lstat :: "int + bool"          \<comment> \<open>whether the file is a socket\<close>
  sc_unlink :: "int option"
  sc_bind :: "sockaddr \<Rightarrow> int option"
  sc_listen :: "int option"
  sc_inet_addr :: "string \<Rightarrow> 32 word"
  sc_inet_pton :: "string \<Rightarrow> bytes option"

definition runtime_error :: "sock_calls \<Rightarrow> string \<Rightarrow> int \<Rightarrow> error" where
  "runtime_error sys message err = Raise (Runtime_error (message @ sc_strerror sys err))"

definition check_sys :: "sock_calls \<Rightarrow> string \<Rightarrow> int option \<Rightarrow> error + unit" where
  "check_sys sys message r = (case r of None \<Rightarrow> Inr () | Some err \<Rightarrow> Inl (runtime_error sys message err))"

definition ENOENT :: int where
  "ENOENT = 2"

definition clearSocket :: "sock_calls \<Rightarrow> string \<Rightarrow> error + unit" where
  "clearSocket sys path =
     (case sc_lstat sys of
        Inl err \<Rightarrow>
          if err = ENOENT then Inr ()
          else Inl (runtime_error sys ''could not query socket status: '' err)
      | Inr is_socket \<Rightarrow>
          if \<not> is_socket
          then Inl (Raise (Runtime_error (''file '' @ [CHR 0x22] @ path @ [CHR 0x22] @ '' exists but is not a socket'')))
          else check_sys sys ''failed to clear existing socket: '' (sc_unlink sys))"

text \<open>\<^verbatim>\<open>strncpy(dst, src, n)\<close>: at most \<open>n\<close> bytes up to the NUL of \<^verbatim>\<open>src\<close>, filled up with NULs.\<close>

definition strncpy :: "bytes \<Rightarrow> bytes \<Rightarrow> nat \<Rightarrow> error + bytes" where
  "strncpy dst src n =
     (let s = take n (takeWhile (\<lambda>b. b \<noteq> 0) src) in
      write_bytes dst 0 (s @ replicate (n - length s) 0))"

definition bind_unix :: "sock_calls \<Rightarrow> string \<Rightarrow> error + unit" where
  "bind_unix sys path =
     bindE (clearSocket sys path) (\<lambda>_.
     bindE (strncpy (replicate 108 0) (ascii path) (length path)) (\<lambda>sun_path.
     check_sys sys ''bind error: '' (sc_bind sys (Sockaddr_un sun_path))))"

fun socket_bind :: "sock_calls \<Rightarrow> server_type \<Rightarrow> error + unit" where
  "socket_bind sys (Unix_server path) = bind_unix sys path"
| "socket_bind sys (Tcp4_server addr port) =
     check_sys sys ''bind error: ''
       (sc_bind sys (Sockaddr_in (htons port) (sc_inet_addr sys addr)))"
| "socket_bind sys (Tcp6_server addr port) =
     check_sys sys ''bind error: ''
       (sc_bind sys (Sockaddr_in6 (htons port)
          (case sc_inet_pton sys addr of None \<Rightarrow> replicate 16 0 | Some a \<Rightarrow> a)))"

definition IPPROTO_TCP :: nat where
  "IPPROTO_TCP = 6"

fun getSocket :: "sock_calls \<Rightarrow> server_type \<Rightarrow> int + int" where
  "getSocket sys (Unix_server path) = sc_socket sys AF_UNIX 0"
| "getSocket sys (Tcp4_server addr port) = sc_socket sys AF_INET IPPROTO_TCP"
| "getSocket sys (Tcp6_server addr port) = sc_socket sys AF_INET6 IPPROTO_TCP"

definition setupSocket :: "sock_calls \<Rightarrow> (socket_server, unit) operation" where
  "setupSocket sys sv =
     (case getSocket sys (so_type sv) of
        Inl err \<Rightarrow> (Inl (runtime_error sys ''socket error: '' err), sv\<lparr>so_sock := - 1\<rparr>)
      | Inr fd \<Rightarrow>
          (bindE (check_sys sys ''error setting socket options: '' (sc_setsockopt sys)) (\<lambda>_.
           bindE (socket_bind sys (so_type sv)) (\<lambda>_.
           check_sys sys ''listen error: '' (sc_listen sys))),
           sv\<lparr>so_sock := fd\<rparr>))"

section \<open>Accepting and stopping\<close>

datatype accept_event = Accepted int | Stopped

text \<open>
  \<^verbatim>\<open>run\<close>: the descriptors for which connections are made, and whether the loop has ended; it waits
  when there are no more events. \<open>Stopped\<close> is \<^verbatim>\<open>stop\<close> by another thread, which wakes \<^verbatim>\<open>accept\<close>.
\<close>

fun server_run :: "bool \<Rightarrow> accept_event list \<Rightarrow> int list \<times> bool" where
  "server_run False evs = ([], True)"
| "server_run True [] = ([], False)"
| "server_run True (Stopped # evs) = server_run False evs"
| "server_run True (Accepted client_sock # evs) =
     (case server_run True evs of (socks, ended) \<Rightarrow>
        (if client_sock > 0 then client_sock # socks else socks, ended))"

text \<open>The files that the loop's thread removes at its end: the path of a Unix domain socket.\<close>

definition run_unlinks :: "socket_server \<Rightarrow> accept_event list \<Rightarrow> string list" where
  "run_unlinks sv evs =
     (if snd (server_run (so_dorun sv) evs)
      then (case so_type sv of Unix_server path \<Rightarrow> [path] | _ \<Rightarrow> [])
      else [])"

definition stop_server :: "socket_server \<Rightarrow> socket_server" where
  "stop_server sv = sv\<lparr>so_dorun := False, so_closed := so_closed sv @ [so_sock sv]\<rparr>"

text \<open>The destructor stops the server, again.\<close>

definition delete_server :: "socket_server \<Rightarrow> socket_server" where
  "delete_server sv = stop_server sv"

section \<open>What is bound\<close>

lemma setup_keeps:
  "so_type (snd (setupSocket sys sv)) = so_type sv" "so_dorun (snd (setupSocket sys sv)) = so_dorun sv"
  "so_closed (snd (setupSocket sys sv)) = so_closed sv"
  by (simp_all add: setupSocket_def split: sum.split)

lemma check_sys_Inr [simp]: "check_sys sys m r = Inr () \<longleftrightarrow> r = None"
  by (simp add: check_sys_def split: option.split)

lemma strncpy_path:
  assumes "0 \<notin> set (ascii path)"
  shows "strncpy (replicate 108 0) (ascii path) (length path) =
    (if length path \<le> 108 then Inr (ascii path @ replicate (108 - length path) 0)
     else Inl (Crash Out_of_bounds))"
proof -
  have all: "takeWhile (\<lambda>b. b \<noteq> 0) (ascii path) = ascii path"
    using assms by (auto simp: takeWhile_eq_all_conv)
  have "length (ascii path) = length path" by (simp add: ascii_def)
  then show ?thesis unfolding strncpy_def all by (simp add: write_bytes_def)
qed


definition quiet_calls :: sock_calls where
  "quiet_calls = \<lparr>sc_strerror = (\<lambda>_. ''error''), sc_socket = (\<lambda>_ _. Inr 3), sc_setsockopt = None,
     sc_lstat = Inl ENOENT, sc_unlink = None, sc_bind = (\<lambda>_. None), sc_listen = None,
     sc_inet_addr = (\<lambda>_. 0), sc_inet_pton = (\<lambda>_. None)\<rparr>"


section \<open>What is accepted\<close>

lemma server_run_stopped:
  "server_run True (map Accepted socks @ Stopped # evs) = (filter (\<lambda>s. s > 0) socks, True)"
  by (induction socks) simp_all

lemma server_run_waits: "server_run True (map Accepted socks) = (filter (\<lambda>s. s > 0) socks, False)"
  by (induction socks) simp_all

end
