(* ===== verification/Config_File.thy ===== *)
theory Config_File
  imports Std_Map Std_Text
begin

text \<open>
  The configuration file: \<^verbatim>\<open>Config\<close> of \<^verbatim>\<open>src/lib/config.cpp\<close> and \<^verbatim>\<open>ServerConfig\<close> of
  \<^verbatim>\<open>src/server/serverconfig.cpp\<close>. A file is the string of its characters, or \<open>None\<close> if it
  cannot be opened. The messages about invalid lines are not modelled.
\<close>

section \<open>Reading\<close>

record config =
  cf_sections :: "(string, section_map) assoc_map"

text \<open>The lines that \<^verbatim>\<open>getline\<close> returns: the text after the last newline is one unless it is empty.\<close>

definition getlines :: "string \<Rightarrow> string list" where
  "getlines s =
     (let ls = split_at_char (CHR 0x0A) s in if last ls = [] then butlast ls else ls)"

record read_state =
  rd_map :: section_map
  rd_name :: string
  rd_sections :: "(string, section_map) assoc_map"

definition store_section :: "read_state \<Rightarrow> read_state" where
  "store_section r =
     (if rd_name r \<noteq> [] then r\<lparr>rd_sections := map_put (rd_name r) (rd_map r) (rd_sections r)\<rparr> else r)"

definition is_comment :: "string \<Rightarrow> bool" where
  "is_comment line \<longleftrightarrow> hd line \<in> set '';#''"

definition is_header :: "string \<Rightarrow> bool" where
  "is_header line \<longleftrightarrow> hd line = CHR ''['' \<and> last line = CHR '']''"

text \<open>\<^verbatim>\<open>line.substr(1, line.length() - 2)\<close>; a header has at least its two brackets.\<close>

definition header_name :: "string \<Rightarrow> string" where
  "header_name line = take (length line - 2) (drop 1 line)"

definition read_line :: "string \<Rightarrow> read_state \<Rightarrow> read_state" where
  "read_line line r =
     (if length line = 0 then r
      else if is_comment line then r
      else if is_header line then (store_section r)\<lparr>rd_name := header_name line, rd_map := []\<rparr>
      else (case find_char line CHR ''='' 0 of
          Some pos \<Rightarrow> r\<lparr>rd_map := map_put (take pos line) (drop (pos + 1) line) (rd_map r)\<rparr>
        | None \<Rightarrow> r))"

definition read_config :: "string \<Rightarrow> config" where
  "read_config s =
     \<lparr>cf_sections = rd_sections (store_section
        (fold read_line (getlines s) \<lparr>rd_map = [], rd_name = [], rd_sections = []\<rparr>))\<rparr>"

definition new_Config :: "string option \<Rightarrow> error + config" where
  "new_Config file =
     (case file of
        None \<Rightarrow> Inl (Raise (Config_exception ''error opening config file''))
      | Some s \<Rightarrow> Inr (read_config s))"

section \<open>Queries\<close>

definition getSections :: "string \<Rightarrow> config \<Rightarrow> string list" where
  "getSections type c =
     (let prefix = type @ '':''; len = length prefix in
      map (drop len) (filter (\<lambda>name. take len name = prefix) (map_keys (cf_sections c))))"

definition getSection :: "string \<Rightarrow> config \<Rightarrow> section_map \<times> config" where
  "getSection name c =
     (case map_index [] name (cf_sections c) of (v, m) \<Rightarrow> (v, c\<lparr>cf_sections := m\<rparr>))"

definition getServers :: "config \<Rightarrow> string list" where
  "getServers = getSections ''server''"

definition getServerConfig :: "string \<Rightarrow> config \<Rightarrow> section_map \<times> config" where
  "getServerConfig key = getSection (''server:'' @ key)"

definition getDevices :: "config \<Rightarrow> string list" where
  "getDevices = getSections ''device''"

definition getDeviceConfig :: "string \<Rightarrow> config \<Rightarrow> section_map \<times> config" where
  "getDeviceConfig key = getSection (''device:'' @ key)"

definition getDrivers :: "config \<Rightarrow> string list" where
  "getDrivers = getSections ''driver''"

definition getDriverConfig :: "string \<Rightarrow> config \<Rightarrow> section_map \<times> config" where
  "getDriverConfig key = getSection (''driver:'' @ key)"

section \<open>A reference syntax\<close>

text \<open>
  Files are sequences of sections, each with settings and lines that mean nothing: blank lines,
  comments, and lines without an equals sign.
\<close>

datatype item = Setting string string | Ignored string

fun item_line :: "item \<Rightarrow> string" where
  "item_line (Setting k v) = k @ ''='' @ v"
| "item_line (Ignored l) = l"

fun wf_item :: "item \<Rightarrow> bool" where
  "wf_item (Setting k v) \<longleftrightarrow> CHR ''='' \<notin> set k \<and> \<not> is_comment (k @ ''='' @ v) \<and> \<not> is_header (k @ ''='' @ v)
     \<and> CHR 0x0A \<notin> set (k @ v)"
| "wf_item (Ignored l) \<longleftrightarrow> (l = [] \<or> is_comment l \<or> CHR ''='' \<notin> set l \<and> \<not> is_header l) \<and> CHR 0x0A \<notin> set l"

fun setting_of :: "item \<Rightarrow> (string \<times> string) list" where
  "setting_of (Setting k v) = [(k, v)]"
| "setting_of (Ignored l) = []"

definition settings_of :: "item list \<Rightarrow> (string \<times> string) list" where
  "settings_of items = concat (map setting_of items)"

type_synonym sect = "string \<times> item list"

definition section_lines :: "sect \<Rightarrow> string list" where
  "section_lines s = (''['' @ fst s @ '']'') # map item_line (snd s)"

definition wf_section :: "sect \<Rightarrow> bool" where
  "wf_section s \<longleftrightarrow> fst s \<noteq> [] \<and> CHR 0x0A \<notin> set (fst s) \<and> list_all wf_item (snd s)"

text \<open>A whole file: lines in front of the first header, and the sections.\<close>

definition print_config :: "item list \<Rightarrow> sect list \<Rightarrow> string" where
  "print_config pre ss =
     concat (map (\<lambda>l. l @ [CHR 0x0A]) (map item_line pre @ concat (map section_lines ss)))"

lemma getlines_printed:
  assumes "list_all (\<lambda>l. CHR 0x0A \<notin> set l) ls"
  shows "getlines (concat (map (\<lambda>l. l @ [CHR 0x0A]) ls)) = ls"
proof -
  have "split_at_char (CHR 0x0A) (concat (map (\<lambda>l. l @ [CHR 0x0A]) ls)) = ls @ [[]]"
    using assms by (induction ls) (simp_all add: split_append)
  then show ?thesis by (simp add: getlines_def)
qed

lemma find_first: "c \<notin> set k \<Longrightarrow> find_char (k @ c # v) c 0 = Some (length k)"
  using find_char_append [of c k "[]" v] by simp

lemma find_absent: "c \<notin> set s \<Longrightarrow> find_char s c 0 = None"
  by (simp add: find_char_None)

lemma read_item:
  "wf_item i \<Longrightarrow> read_line (item_line i) r = r\<lparr>rd_map := std_map.assign_all (setting_of i) (rd_map r)\<rparr>"
  by (cases i) (auto simp: read_line_def find_first find_absent)

lemma read_items:
  "list_all wf_item items \<Longrightarrow> fold read_line (map item_line items) r =
     r\<lparr>rd_map := std_map.assign_all (settings_of items) (rd_map r)\<rparr>"
proof (induction items arbitrary: r)
  case (Cons i items)
  then show ?case
    by (simp add: read_item settings_of_def std_map.assign_all_def)
qed (simp add: settings_of_def)

lemma read_header: "read_line (''['' @ n @ '']'') r = (store_section r)\<lparr>rd_name := n, rd_map := []\<rparr>"
  by (simp add: read_line_def is_comment_def is_header_def header_name_def)

lemma read_section:
  "wf_section s \<Longrightarrow> fold read_line (section_lines s) r =
     (store_section r)\<lparr>rd_name := fst s, rd_map := std_map.assign_all (settings_of (snd s)) []\<rparr>"
  by (simp add: section_lines_def wf_section_def read_header [simplified] read_items)

definition section_entry :: "sect \<Rightarrow> string \<times> section_map" where
  "section_entry s = (fst s, std_map.assign_all (settings_of (snd s)) [])"

lemma read_sections:
  "list_all wf_section ss \<Longrightarrow>
   rd_sections (store_section (fold read_line (concat (map section_lines ss)) r)) =
     std_map.assign_all (map section_entry ss) (rd_sections (store_section r))"
proof (induction ss arbitrary: r)
  case (Cons s ss)
  then have "rd_sections (store_section (fold read_line (section_lines s) r)) =
      map_put (fst s) (std_map.assign_all (settings_of (snd s)) []) (rd_sections (store_section r))"
    by (simp add: read_section) (simp add: store_section_def wf_section_def)
  with Cons show ?case by (simp add: section_entry_def)
qed simp

lemma wf_lines:
  "list_all wf_item items \<Longrightarrow> list_all (\<lambda>l. CHR 0x0A \<notin> set l) (map item_line items)"
  "list_all wf_section ss \<Longrightarrow> list_all (\<lambda>l. CHR 0x0A \<notin> set l) (concat (map section_lines ss))"
proof -
  have item: "wf_item i \<Longrightarrow> CHR 0x0A \<notin> set (item_line i)" for i by (cases i) auto
  then show "list_all wf_item items \<Longrightarrow> list_all (\<lambda>l. CHR 0x0A \<notin> set l) (map item_line items)"
    by (auto simp: list_all_iff)
  from item show "list_all wf_section ss \<Longrightarrow> list_all (\<lambda>l. CHR 0x0A \<notin> set l) (concat (map section_lines ss))"
    by (auto simp: list_all_iff wf_section_def section_lines_def)
qed

lemma read_printed_sections:
  assumes "list_all wf_item pre" "list_all wf_section ss"
  shows "cf_sections (read_config (print_config pre ss)) = std_map.assign_all (map section_entry ss) []"
proof -
  have "getlines (print_config pre ss) = map item_line pre @ concat (map section_lines ss)"
    unfolding print_config_def using assms by (intro getlines_printed) (simp add: wf_lines)
  then show ?thesis
    by (simp add: read_config_def read_items assms(1) read_sections assms(2)) (simp add: store_section_def)
qed

section \<open>Properties\<close>

text \<open>C25: A printed configuration is read back: every section has the value of its last occurrence in
  the file, and in it every key the value of its last occurrence; lines in front of the first
  header, blank lines, comments and lines without an equals sign mean nothing.\<close>

theorem read_print_config:
  assumes "list_all wf_item pre" "list_all wf_section ss"
  shows "map_option map_get (map_get (cf_sections (read_config (print_config pre ss))) name) =
    map_of (rev (map (\<lambda>(n, items). (n, map_of (rev (settings_of items)))) ss)) name"
proof -
  have entry: "map_option map_get (map_of (map section_entry ss) name) =
      map_of (map (\<lambda>(n, items). (n, map_of (rev (settings_of items)))) ss) name" for ss
    by (induction ss) (auto simp: section_entry_def std_map.lookup_assign_all_emp)
  show ?thesis
    unfolding read_printed_sections [OF assms] std_map.lookup_assign_all_emp
    by (simp add: rev_map entry del: map_map)
qed

theorem read_print_config_witness:
  "map_option map_get (map_get (cf_sections (read_config (print_config [Ignored ''# comment'']
     [(''device:a'', [Setting ''driver'' ''x'', Setting ''driver'' ''ambe3k'', Ignored [], Setting ''tty'' ''=''])])))
     ''device:a'') = Some (Map.empty(''driver'' \<mapsto> ''ambe3k'', ''tty'' \<mapsto> ''=''))"
proof -
  have "list_all wf_item [Ignored ''# comment'']"
    by (simp add: is_comment_def)
  moreover have "list_all wf_section [(''device:a'', [Setting ''driver'' ''x'', Setting ''driver'' ''ambe3k'',
      Ignored [], Setting ''tty'' ''=''])]"
    by (simp add: wf_section_def is_comment_def is_header_def)
  ultimately show ?thesis
    by (subst read_print_config) (auto simp: settings_of_def fun_eq_iff)
qed

lemma read_line_valid:
  "map_valid (rd_map r) \<and> map_valid (rd_sections r) \<Longrightarrow>
   map_valid (rd_map (read_line l r)) \<and> map_valid (rd_sections (read_line l r))"
  by (auto simp: read_line_def store_section_def std_map.valid_assign split: option.split)

lemma read_config_valid: "map_valid (cf_sections (read_config s))"
proof -
  have "map_valid (rd_map (fold read_line ls r)) \<and> map_valid (rd_sections (fold read_line ls r))"
    if "map_valid (rd_map r) \<and> map_valid (rd_sections r)" for ls r
    using that by (induction ls arbitrary: r) (simp_all add: read_line_valid)
  from this [of "\<lparr>rd_map = [], rd_name = [], rd_sections = []\<rparr>" "getlines s"]
  show ?thesis by (simp add: read_config_def store_section_def std_map.valid_assign)
qed

lemma append_le_append [simp]: "p @ x \<le> p @ y \<longleftrightarrow> x \<le> (y :: 'a::linorder list)"
  by (induction p) simp_all

text \<open>\<^verbatim>\<open>getSections\<close> lists, in order and without repetition, exactly the names \<open>n\<close> for which
  the file has a section \<open>type:n\<close>; asking for one of them returns it and leaves the
  configuration as it is.\<close>

theorem getSections_lists:
  assumes "c = read_config s"
  shows "set (getSections type c) = {n. map_get (cf_sections c) (type @ '':'' @ n) \<noteq> None} \<and>
    sorted (getSections type c) \<and> distinct (getSections type c) \<and>
    (\<forall>n \<in> set (getSections type c). \<exists>m. map_get (cf_sections c) (type @ '':'' @ n) = Some m \<and>
       getSection (type @ '':'' @ n) c = (m, c))"
proof -
  let ?p = "type @ '':''" and ?m = "cf_sections c"
  let ?ks = "filter (\<lambda>name. take (length ?p) name = ?p) (map_keys ?m)"
  have valid: "map_valid ?m" using assms by (simp add: read_config_valid)
  have keys: "set (map_keys ?m) = dom (map_get ?m)" "sorted (map_keys ?m)" "distinct (map_keys ?m)"
    using std_map.keys_dom [OF valid] std_map.keys_sorted [OF valid] by simp_all
  have "map (\<lambda>x. ?p @ drop (length ?p) x) ?ks = ?ks"
  proof (rule map_idI)
    fix x
    assume "x \<in> set ?ks"
    then have "take (length ?p) x = ?p" by simp
    then show "?p @ drop (length ?p) x = x" by (metis append_take_drop_id)
  qed
  then have ks: "map ((@) ?p) (getSections type c) = ?ks"
    by (simp add: getSections_def Let_def comp_def)
  have set: "n \<in> set (getSections type c) \<longleftrightarrow> map_get ?m (?p @ n) \<noteq> None" for n
  proof -
    have "n \<in> set (getSections type c) \<longleftrightarrow> ?p @ n \<in> set (map ((@) ?p) (getSections type c))"
      by auto
    also have "\<dots> \<longleftrightarrow> map_get ?m (?p @ n) \<noteq> None"
      unfolding ks using keys(1) by auto
    finally show ?thesis .
  qed
  have "sorted (map ((@) ?p) (getSections type c))" "distinct (map ((@) ?p) (getSections type c))"
    unfolding ks using keys(2,3) by (simp_all add: sorted_filter [of "\<lambda>x. x", simplified])
  then have "sorted (getSections type c)" "distinct (getSections type c)"
    by (simp_all add: sorted_map distinct_map del: append_assoc)
  with set show ?thesis
    by (auto simp: getSection_def map_index_def)
qed

theorem getSections_lists_witness:
  "getDevices (read_config (print_config [] [(''device:b'', []), (''server:tcp'', []), (''device:a'', [])])) =
     [''a'', ''b'']"
proof -
  let ?c = "read_config (print_config [] [(''device:b'', []), (''server:tcp'', []), (''device:a'', [])])"
  have "cf_sections ?c = std_map.assign_all
      (map section_entry [(''device:b'', []), (''server:tcp'', []), (''device:a'', [])]) []"
    by (rule read_printed_sections) (simp_all add: wf_section_def)
  then have "map_get (cf_sections ?c) = map_of
      (rev (map section_entry [(''device:b'', []), (''server:tcp'', []), (''device:a'', [])]))"
    by (simp only: std_map.lookup_assign_all_emp)
  then have get: "map_get (cf_sections ?c) = [''device:b'' \<mapsto> [], ''server:tcp'' \<mapsto> [], ''device:a'' \<mapsto> []]"
    by (simp add: section_entry_def settings_of_def)
  have "set (getSections ''device'' ?c) = {''a'', ''b''}" "sorted (getSections ''device'' ?c)"
    "distinct (getSections ''device'' ?c)"
    using getSections_lists [OF refl, of "''device''" "print_config []
        [(''device:b'', []), (''server:tcp'', []), (''device:a'', [])]"]
    by (auto simp: get split: if_splits)
  then have "getSections ''device'' ?c = sorted_list_of_set {''a'', ''b''}"
    by (metis sorted_list_of_set.idem_if_sorted_distinct)
  then show ?thesis by (simp add: getDevices_def less_char_def)
qed

end
