(* ===== verification/Server_Main.thy ===== *)
theory Server_Main
  imports Socket_Servers Config_File Ambe_Driver
begin

text \<open>
  The program: \<^verbatim>\<open>Server::main\<close> of \<^verbatim>\<open>src/server/server.cpp\<close>, from the command line to the running
  servers, and the signals that end them; with the scanner of modules (\<^verbatim>\<open>scanner.cpp\<close>). What
  \<^verbatim>\<open>getopt_long\<close> makes of the command line is the list of its results. The system is the record
  \<open>platform\<close>: the readable files, \<^verbatim>\<open>glob\<close>, \<^verbatim>\<open>dlopen\<close> with what the initialisation of a module does to
  the registry (it registers its drivers), the socket calls for each type of server, and the two
  paths of the build.
\<close>

section \<open>The system\<close>

datatype glob_result = Glob_matches "string list" | Glob_nomatch | Glob_failed int

record 'w platform =
  pf_CONFIG :: string
  pf_MODULES_PATH :: string
  pf_files :: "string \<Rightarrow> string option"
  pf_glob :: "string \<Rightarrow> glob_result"
  pf_dlopen :: "string \<Rightarrow> 'w registry \<Rightarrow> 'w registry option"
  pf_sockets :: "string \<Rightarrow> sock_calls"

section \<open>Options and signals\<close>

datatype option_result = Opt_version | Opt_help | Opt_config string | Opt_unknown

text \<open>Whether to go on, and the configuration file; an option that is not known is passed over.\<close>

fun parseOptions :: "option_result list \<Rightarrow> string \<Rightarrow> bool \<times> string" where
  "parseOptions [] configFile = (True, configFile)"
| "parseOptions (Opt_version # opts) configFile = (False, configFile)"
| "parseOptions (Opt_help # opts) configFile = (False, configFile)"
| "parseOptions (Opt_config optarg # opts) configFile = parseOptions opts optarg"
| "parseOptions (Opt_unknown # opts) configFile = parseOptions opts configFile"

definition SIGPIPE :: int where
  "SIGPIPE = 13"

definition stop_all :: "socket_server list \<Rightarrow> socket_server list" where
  "stop_all servers = map stop_server servers"

definition handle_signal :: "int \<Rightarrow> socket_server list \<Rightarrow> socket_server list" where
  "handle_signal sig servers = (if sig = SIGPIPE then servers else stop_all servers)"

section \<open>Modules\<close>

definition getSearchPaths :: "'w platform \<Rightarrow> string list" where
  "getSearchPaths pf = [pf_MODULES_PATH pf]"

definition getLibs :: "'w platform \<Rightarrow> string list" where
  "getLibs pf = concat (map (\<lambda>searchPath.
     case pf_glob pf (searchPath @ ''/*.so'') of
       Glob_matches paths \<Rightarrow> paths
     | Glob_nomatch \<Rightarrow> []
     | Glob_failed ret \<Rightarrow> []) (getSearchPaths pf))"

definition loadLibrary :: "'w platform \<Rightarrow> string \<Rightarrow> 'w registry \<Rightarrow> 'w registry" where
  "loadLibrary pf path r = (case pf_dlopen pf path r of None \<Rightarrow> r | Some r \<Rightarrow> r)"

definition scanModules :: "'w platform \<Rightarrow> 'w registry \<Rightarrow> 'w registry" where
  "scanModules pf r = fold (loadLibrary pf) (getLibs pf) r"

section \<open>Starting\<close>

fun configure_drivers :: "string list \<Rightarrow> config \<times> 'w registry \<Rightarrow> config \<times> 'w registry" where
  "configure_drivers [] s = s"
| "configure_drivers (driver # ds) (c, r) =
     (case getDriverConfig driver c of (args, c) \<Rightarrow>
        configure_drivers ds (c, configureDriver driver args r))"

fun load_devices :: "(dev \<Rightarrow> string list) \<Rightarrow> string list \<Rightarrow> (config \<times> 'w registry, unit) operation" where
  "load_devices codecs [] s = (Inr (), s)"
| "load_devices codecs (device # ds) (c, r) =
     (case getDeviceConfig device c of (args, c) \<Rightarrow>
       (case loadDeviceFromConfig codecs args r of
          (Inl e, r) \<Rightarrow> (Inl e, (c, r))
        | (Inr _, r) \<Rightarrow> load_devices codecs ds (c, r)))"

definition server_of_type :: "string \<Rightarrow> server_type option" where
  "server_of_type type =
     (if type = ''unixdomainsockets'' then Some new_UnixDomainSocketServer
      else if type = ''tcp4'' then Some new_Tcp4Server
      else if type = ''tcp'' \<or> type = ''tcp6'' then Some new_Tcp6Server
      else None)"

definition is_runtime_error :: "error \<Rightarrow> bool" where
  "is_runtime_error e = (case e of Raise (Runtime_error m) \<Rightarrow> True | _ \<Rightarrow> False)"

text \<open>The loop over the servers; \<open>sys\<close> is what the system calls for each type return.\<close>

fun setup_servers ::
  "(string \<Rightarrow> sock_calls) \<Rightarrow> string list \<Rightarrow> (config \<times> socket_server list, unit) operation" where
  "setup_servers sys [] s = (Inr (), s)"
| "setup_servers sys (type # types) (c, servers) =
     (case getServerConfig type c of (args, c) \<Rightarrow>
       (case server_of_type type of
          None \<Rightarrow> setup_servers sys types (c, servers)
        | Some t \<Rightarrow>
            (case readConfig args t of
               Inl e \<Rightarrow> (Inl e, (c, servers))
             | Inr t \<Rightarrow>
                 (case setupSocket (sys type) (new_SocketServer t) of
                    (Inr _, server) \<Rightarrow> setup_servers sys types (c, servers @ [server])
                  | (Inl e, server) \<Rightarrow>
                      if is_runtime_error e then setup_servers sys types (c, servers)
                      else (Inl e, (c, servers))))))"

text \<open>\<open>Serving\<close> is \<^verbatim>\<open>main\<close> after its calls of \<^verbatim>\<open>start\<close>, waiting in \<^verbatim>\<open>join\<close>.\<close>

datatype main_state = Returned int | Serving "socket_server list"

definition server_main ::
  "'w platform \<Rightarrow> (dev \<Rightarrow> string list) \<Rightarrow> option_result list \<Rightarrow> ('w registry, main_state) operation" where
  "server_main pf codecs opts r =
     (case parseOptions opts (pf_CONFIG pf) of
        (False, configFile) \<Rightarrow> (Inr (Returned 0), r)
      | (True, configFile) \<Rightarrow>
          (case new_Config (pf_files pf configFile) of
             Inl e \<Rightarrow> (Inl e, r)
           | Inr c \<Rightarrow>
               (case configure_drivers (getDrivers c) (c, scanModules pf r) of (c, r) \<Rightarrow>
               (case load_devices codecs (getDevices c) (c, r) of
                  (Inl e, (c, r)) \<Rightarrow> (Inl e, r)
                | (Inr _, (c, r)) \<Rightarrow>
                    (case setup_servers (pf_sockets pf) (getServers c) (c, []) of
                       (Inl e, _) \<Rightarrow> (Inl e, autoDetectDevices codecs r)
                     | (Inr _, (c, servers)) \<Rightarrow>
                         (Inr (if servers = [] then Returned 1 else Serving servers),
                          autoDetectDevices codecs r))))))"

text \<open>
  The end of \<^verbatim>\<open>main\<close>: it joins the server threads one after the other and deletes each; \<open>events\<close>
  are those of each server's \<^verbatim>\<open>accept\<close>.
\<close>

fun join_servers :: "accept_event list list \<Rightarrow> socket_server list \<Rightarrow> error + socket_server list" where
  "join_servers events [] = Inr []"
| "join_servers events (server # servers) =
     (if snd (server_run True (case events of [] \<Rightarrow> [] | ev # _ \<Rightarrow> ev))
      then bindE (join_servers (tl events) servers) (\<lambda>ss. Inr (delete_server server # ss))
      else Inl Waits)"

text \<open>The program: \<^verbatim>\<open>main\<close> of \<^verbatim>\<open>codecserver.cpp\<close>, its exit status, given what each server's loop accepts.\<close>

definition codecserver ::
  "'w platform \<Rightarrow> (dev \<Rightarrow> string list) \<Rightarrow> option_result list \<Rightarrow> accept_event list list \<Rightarrow>
    ('w registry, int) operation" where
  "codecserver pf codecs opts events r =
     (case server_main pf codecs opts r of
        (Inl e, r) \<Rightarrow> (Inl e, r)
      | (Inr (Returned rc), r) \<Rightarrow> (Inr rc, r)
      | (Inr (Serving servers), r) \<Rightarrow> (bindE (join_servers events servers) (\<lambda>_. Inr 0), r))"

section \<open>Which servers run\<close>

text \<open>A reference: the server that a section describes, if it can be set up.\<close>

definition usable_server :: "(string \<Rightarrow> sock_calls) \<Rightarrow> config \<Rightarrow> string \<Rightarrow> socket_server option" where
  "usable_server sys c type =
     (case server_of_type type of
        None \<Rightarrow> None
      | Some t \<Rightarrow>
          (case readConfig (fst (getServerConfig type c)) t of
             Inl e \<Rightarrow> None
           | Inr t \<Rightarrow>
               (case setupSocket (sys type) (new_SocketServer t) of
                  (Inr _, server) \<Rightarrow> Some server
                | (Inl e, server) \<Rightarrow> None)))"

text \<open>A section whose configuration throws, or whose setup ends with something else than a runtime error.\<close>

definition fatal_server :: "(string \<Rightarrow> sock_calls) \<Rightarrow> config \<Rightarrow> string \<Rightarrow> bool" where
  "fatal_server sys c type =
     (case server_of_type type of
        None \<Rightarrow> False
      | Some t \<Rightarrow>
          (case readConfig (fst (getServerConfig type c)) t of
             Inl e \<Rightarrow> True
           | Inr t \<Rightarrow>
               (case setupSocket (sys type) (new_SocketServer t) of
                  (Inr _, server) \<Rightarrow> False
                | (Inl e, server) \<Rightarrow> \<not> is_runtime_error e)))"

lemma map_index_present: "map_get m k = Some v \<Longrightarrow> map_index d k m = (v, m)"
  by (simp add: map_index_def)

lemma getSections_present:
  assumes "map_valid (cf_sections c)" "name \<in> set (getSections type c)"
  shows "snd (getSection (type @ '':'' @ name) c) = c"
proof -
  have keys: "set (map_keys (cf_sections c)) = {k. map_get (cf_sections c) k \<noteq> None}"
    using dom_map_of_conv_image_fst [of "cf_sections c"] by (auto simp: map_keys_def map_get_def)
  from assms(2) obtain k where "k \<in> set (map_keys (cf_sections c))" "take (length type + 1) k = type @ '':''"
    "name = drop (length type + 1) k" by (auto simp: getSections_def Let_def)
  then have "k = type @ '':'' @ name" "map_get (cf_sections c) k \<noteq> None"
    using append_take_drop_id [of "length type + 1" k] keys by auto
  then obtain v where "map_get (cf_sections c) (type @ '':'' @ name) = Some v" by auto
  then show ?thesis by (simp add: getSection_def map_index_present)
qed

lemma setup_servers_spec:
  assumes "map_valid (cf_sections c)" "set types \<subseteq> set (getServers c)"
    and "list_all (\<lambda>type. \<not> fatal_server sys c type) types"
  shows "setup_servers sys types (c, servers) = (Inr (), (c, servers @ List.map_filter (usable_server sys c) types))"
  using assms(2,3)
proof (induction types arbitrary: servers)
  case (Cons type types)
  have "snd (getServerConfig type c) = c"
    using getSections_present [OF assms(1), of type "''server''"] Cons.prems(1)
    by (simp add: getServerConfig_def getServers_def)
  then obtain args where args: "getServerConfig type c = (args, c)" by (metis prod.collapse)
  note IH = Cons.IH [OF _ _]
  show ?case
  proof (cases "server_of_type type")
    case None
    with Cons args show ?thesis by (simp add: usable_server_def map_filter_simps)
  next
    case (Some t)
    with Cons.prems(2) args obtain t' where t': "readConfig args t = Inr t'"
      by (cases "readConfig args t") (simp_all add: fatal_server_def)
    obtain x server where x: "setupSocket (sys type) (new_SocketServer t') = (x, server)" by fastforce
    with Cons args Some t' show ?thesis
      by (cases x) (simp_all add: usable_server_def fatal_server_def map_filter_simps)
  qed
qed (simp add: map_filter_simps)

text \<open>Looking up the sections of drivers and devices leaves the configuration as it is.\<close>

lemma configure_drivers_config:
  "map_valid (cf_sections c) \<Longrightarrow> set ds \<subseteq> set (getDrivers c) \<Longrightarrow> fst (configure_drivers ds (c, r)) = c"
proof (induction ds arbitrary: r)
  case (Cons d ds)
  have "snd (getDriverConfig d c) = c"
    using getSections_present [OF Cons.prems(1), of d "''driver''"] Cons.prems(2)
    by (simp add: getDriverConfig_def getDrivers_def)
  with Cons show ?case by (simp add: split_beta)
qed simp

lemma load_devices_config:
  "map_valid (cf_sections c) \<Longrightarrow> set ds \<subseteq> set (getDevices c) \<Longrightarrow> fst (snd (load_devices codecs ds (c, r))) = c"
proof (induction ds arbitrary: r)
  case (Cons d ds)
  have "snd (getDeviceConfig d c) = c"
    using getSections_present [OF Cons.prems(1), of d "''device''"] Cons.prems(2)
    by (simp add: getDeviceConfig_def getDevices_def)
  with Cons show ?case by (auto simp: split_beta split: sum.split)
qed simp

lemma join_stopped:
  "length sockss = length servers \<Longrightarrow>
   join_servers (map (\<lambda>socks. map Accepted socks @ [Stopped]) sockss) servers = Inr (map delete_server servers)"
  by (induction sockss servers rule: list_induct2) (simp_all add: server_run_stopped)


text \<open>A configuration with two servers, one of which is of no known type.\<close>

definition two_servers :: string where
  "two_servers = ''[server:tcp4]'' @ [CHR 0x0A] @ ''[server:udp]'' @ [CHR 0x0A]"

lemma two_servers_read:
  "getServers (read_config two_servers) = [''tcp4'', ''udp'']" "getDrivers (read_config two_servers) = []"
  "getDevices (read_config two_servers) = []"
  "fst (getServerConfig ''tcp4'' (read_config two_servers)) = []"
  by code_simp+

definition test_platform :: "ambe_world platform" where
  "test_platform = \<lparr>pf_CONFIG = ''codecserver.conf'', pf_MODULES_PATH = ''modules'',
     pf_files = (\<lambda>_. Some two_servers), pf_glob = (\<lambda>_. Glob_matches [''ambe3k.so'']),
     pf_dlopen = (\<lambda>_ r. Some (snd (registerDriver (ambe3k_driver working_site) r))),
     pf_sockets = (\<lambda>_. quiet_calls)\<rparr>"

lemma test_platform_scan: "scanModules test_platform (new_Registry new_world) = started_registry working_site"
  by (simp add: scanModules_def getLibs_def getSearchPaths_def loadLibrary_def test_platform_def
      started_registry_def)


section \<open>How the program ends\<close>

text \<open>While no signal arrives the program waits. After a signal other than \<^verbatim>\<open>SIGPIPE\<close> every server's
  loop ends, whatever it has accepted before, and \<^verbatim>\<open>main\<close> returns; but every socket is closed a
  second time by the destructor of its server.\<close>

theorem main_ends:
  assumes "length sockss = length servers" "sig \<noteq> SIGPIPE"
  shows "(\<exists>ended. join_servers (map (\<lambda>socks. map Accepted socks @ [Stopped]) sockss) (handle_signal sig servers) =
        Inr ended \<and> map so_closed ended = map (\<lambda>s. so_closed s @ [so_sock s, so_sock s]) servers) \<and>
    join_servers (map (map Accepted) sockss) (handle_signal SIGPIPE servers) =
      (if servers = [] then Inr [] else Inl Waits)"
proof
  have "length sockss = length (handle_signal sig servers)"
    using assms by (simp add: handle_signal_def stop_all_def)
  from join_stopped [OF this]
  show "\<exists>ended. join_servers (map (\<lambda>socks. map Accepted socks @ [Stopped]) sockss) (handle_signal sig servers) =
      Inr ended \<and> map so_closed ended = map (\<lambda>s. so_closed s @ [so_sock s, so_sock s]) servers"
    using assms(2) by (simp add: handle_signal_def stop_all_def delete_server_def stop_server_def)
  show "join_servers (map (map Accepted) sockss) (handle_signal SIGPIPE servers) =
      (if servers = [] then Inr [] else Inl Waits)"
    using assms(1) by (cases servers; cases sockss) (simp_all add: handle_signal_def server_run_waits)
qed

theorem main_ends_witness:
  "\<exists>ended. join_servers [[Accepted 7, Stopped]] (handle_signal 2 [(new_SocketServer new_Tcp4Server)\<lparr>so_sock := 3\<rparr>]) =
     Inr ended \<and> map so_closed ended = [[3, 3]]"
  using main_ends [of "[[7]]" "[(new_SocketServer new_Tcp4Server)\<lparr>so_sock := 3\<rparr>]" 2]
  by (simp add: SIGPIPE_def new_SocketServer_def)

end
