(* ===== verification/Data_Path.thy ===== *)
theory Data_Path
  imports Queue_Worker Server_Sessions
begin

text \<open>
  The way of the data through the components: from the socket of a client to the serial line of a
  device, and from the line back to the socket. The thread of a device's \<^verbatim>\<open>QueueWorker\<close> works on the
  device that the registry holds; \<open>worker_turn\<close> is one of its steps there, and \<open>coupled\<close> relates
  what the worker's own model knows of its device to the registry.
\<close>

section \<open>Workers of registered devices\<close>

definition worker_turn ::
  "(nat \<Rightarrow> byte) \<Rightarrow> dev \<Rightarrow> worker \<times> server_registry \<Rightarrow> worker \<times> server_registry" where
  "worker_turn uninit d s =
     (case live (snd s) d of
        None \<Rightarrow> (work uninit ((fst s)\<lparr>wk_alive := False\<rparr>), snd s)
      | Some dev \<Rightarrow>
          (let w = work uninit ((fst s)\<lparr>wk_device := dev\<rparr>); r = set_device d (wk_device w) (snd s) in
           (w, if wk_alive w then r else unregisterDevice d r)))"

definition coupled :: "dev \<Rightarrow> worker \<Rightarrow> server_registry \<Rightarrow> bool" where
  "coupled d w r \<longleftrightarrow>
     (wk_alive w \<longleftrightarrow> live r d \<noteq> None) \<and> (wk_registered w \<longleftrightarrow> (\<exists>c. d \<in> set (devices_of r c)))"

text \<open>
  What a step of the worker does to its device: it takes a packet, hands one in, or leaves the device
  as it is, and perhaps has it unregistered.
\<close>

definition device_effect :: "ambe_device \<Rightarrow> ambe_device \<Rightarrow> bool" where
  "device_effect dev dev' \<longleftrightarrow> dev' = dev \<or>
     (\<exists>p q. queue_get (dv_queue dev) = Some (p, q) \<and> dev' = dev\<lparr>dv_queue := q\<rparr>) \<or>
     (\<exists>p. device_receivePacket p dev = (Inr (), dev'))"

definition registration_effect :: "worker \<Rightarrow> worker \<Rightarrow> bool" where
  "registration_effect w w' \<longleftrightarrow>
     wk_registered w' = wk_registered w \<and> wk_alive w' = wk_alive w \<or>
     wk_registered w \<and> \<not> wk_registered w' \<and> \<not> wk_alive w'"

lemma device_effect_ok:
  assumes "device_effect dev dev'" "device_ok dev"
  shows "device_ok dev'"
  using assms(1) unfolding device_effect_def
proof (elim disjE exE conjE)
  fix p q
  assume "queue_get (dv_queue dev) = Some (p, q)" "dev' = dev\<lparr>dv_queue := q\<rparr>"
  with assms(2) queue_ok_get [of "dv_queue dev" p q] show ?thesis by (simp add: device_ok_def)
qed (use assms(2) receivePacket_ok in auto)

lemma onQueueError_effect:
  "wk_device (onQueueError w) = wk_device w" "registration_effect w (onQueueError w)"
  by (auto simp: onQueueError_def unregister_def Let_def registration_effect_def)

lemma registration_effect_same [simp]:
  "wk_registered w' = wk_registered w \<Longrightarrow> wk_alive w' = wk_alive w \<Longrightarrow> registration_effect w w'"
  by (simp add: registration_effect_def)

lemma device_effect_same [simp]: "device_effect dev dev"
  by (simp add: device_effect_def)

lemma die_frame [simp]:
  "wk_device (die e w) = wk_device w" "wk_alive (die e w) = wk_alive w"
  "wk_registered (die e w) = wk_registered w"
  by (simp_all add: die_def)

lemma work_pop_effect:
  "device_effect (wk_device w) (wk_device (work_pop w)) \<and> registration_effect w (work_pop w)"
proof (cases "pop (dv_queue (wk_device w))")
  case (Pop_returns p q)
  then have "queue_get (dv_queue (wk_device w)) = Some (p, q)" by (simp add: queue_get_def)
  with Pop_returns show ?thesis
    by (auto simp: work_pop_def Let_def device_effect_def split: sum.split)
next
  case Pop_null
  then show ?thesis using onQueueError_effect [of w] by (simp add: work_pop_def)
qed (simp add: work_pop_def)

lemma work_receive_effect:
  "device_effect (wk_device w) (wk_device (work_receive uninit w)) \<and>
   registration_effect w (work_receive uninit w)"
proof (cases "receiveFrom uninit (wk_tty w)")
  case (Inr rt)
  obtain x t where rt: "rt = (x, t)" by fastforce
  show ?thesis
  proof (cases x)
    case None
    with Inr rt onQueueError_effect [of "w\<lparr>wk_tty := t\<rparr>"] show ?thesis
      by (simp add: work_receive_def registration_effect_def)
  next
    case (Some p)
    obtain y dev where y: "device_receivePacket p (wk_device w) = (y, dev)" by fastforce
    then show ?thesis
      using Inr rt Some by (cases y) (auto simp: work_receive_def device_effect_def)
  qed
qed (simp add: work_receive_def)

lemma work_effect:
  "device_effect (wk_device w) (wk_device (work uninit w)) \<and> registration_effect w (work uninit w)"
  using work_pop_effect [of w] work_receive_effect [of w uninit]
  by (cases "wk_pc w") (auto simp: work_def work_send_def work_until_def)

lemma queue_effect_steps:
  assumes "live (sv_registry sv) d = Some dev" "device_effect dev dev'"
  shows "(server_step pb version uninit)\<^sup>*\<^sup>* sv (sv\<lparr>sv_registry := set_device d dev' (sv_registry sv)\<rparr>)"
  using assms(2) unfolding device_effect_def
proof (elim disjE exE conjE)
  assume "dev' = dev"
  with assms(1) show ?thesis by simp
next
  fix p q
  assume "queue_get (dv_queue dev) = Some (p, q)" "dev' = dev\<lparr>dv_queue := q\<rparr>"
  with assms(1) show ?thesis by (simp add: r_into_rtranclp take_packet)
next
  fix p
  assume "device_receivePacket p dev = (Inr (), dev')"
  with assms(1) show ?thesis by (simp add: r_into_rtranclp receive_packet)
qed

lemma worker_turn_steps:
  assumes "snd (worker_turn u d (w, sv_registry sv)) = r'"
  shows "(server_step pb version uninit)\<^sup>*\<^sup>* sv (sv\<lparr>sv_registry := r'\<rparr>)"
proof (cases "live (sv_registry sv) d")
  case None
  with assms have "sv\<lparr>sv_registry := r'\<rparr> = sv" by (auto simp: worker_turn_def)
  then show ?thesis by simp
next
  case (Some dev)
  let ?w = "work u (w\<lparr>wk_device := dev\<rparr>)"
  let ?sv = "sv\<lparr>sv_registry := set_device d (wk_device ?w) (sv_registry sv)\<rparr>"
  have steps: "(server_step pb version uninit)\<^sup>*\<^sup>* sv ?sv"
    by (rule queue_effect_steps [OF Some]) (use work_effect [of "w\<lparr>wk_device := dev\<rparr>" u] in simp)
  show ?thesis
  proof (cases "wk_alive ?w")
    case True
    with assms Some steps show ?thesis by (simp add: worker_turn_def Let_def)
  next
    case False
    with assms Some have "r' = unregisterDevice d (sv_registry ?sv)" by (simp add: worker_turn_def Let_def)
    with queue_error [of pb version uninit ?sv d] have "server_step pb version uninit ?sv (sv\<lparr>sv_registry := r'\<rparr>)"
      by simp
    with steps show ?thesis by (rule rtranclp.rtrancl_into_rtrancl)
  qed
qed

lemma unregister_coupled:
  assumes "registry_inv site r" "\<exists>c. d \<in> set (devices_of r c)"
  shows "live (unregisterDevice d r) d = None" "d \<notin> set (devices_of (unregisterDevice d r) c)"
proof -
  have ok: "registry_ok r" "distinct (devices_of r c)" for c
    using assms(1) by (simp_all add: registry_inv_def registered_def)
  show "live (unregisterDevice d r) d = None"
    using unregisterDevice_deleted [OF ok(1), of d] assms(2) by (simp add: live_def)
  show "d \<notin> set (devices_of (unregisterDevice d r) c)"
    using unregisterDevice_devices [OF ok(1), of d c] ok(2) by simp
qed

lemma worker_turn_coupled:
  assumes "registry_inv site r" "coupled d w r" "worker_turn u d (w, r) = (w', r')"
  shows "coupled d w' r'"
proof (cases "live r d")
  case None
  then have "w\<lparr>wk_alive := False\<rparr> = w" using assms(2) by (simp add: coupled_def)
  moreover have "\<not> wk_registered w"
    using assms(1,2) registry_inv_live None by (fastforce simp: coupled_def)
  ultimately show ?thesis
    using assms(2,3) None work_effect [of w u]
    by (auto simp: worker_turn_def coupled_def registration_effect_def)
next
  case (Some dev)
  let ?w = "work u (w\<lparr>wk_device := dev\<rparr>)" and ?r = "set_device d (wk_device (work u (w\<lparr>wk_device := dev\<rparr>))) r"
  have eff: "registration_effect (w\<lparr>wk_device := dev\<rparr>) ?w" using work_effect by blast
  have w: "wk_alive w" using assms(2) Some by (simp add: coupled_def)
  have inv: "registry_inv site ?r"
    using registry_inv_set_device [OF assms(1) Some] device_effect_ok registry_inv_device_ok [OF assms(1) Some]
      work_effect [of "w\<lparr>wk_device := dev\<rparr>" u] by fastforce
  show ?thesis
  proof (cases "wk_alive ?w")
    case True
    with assms(2,3) eff w Some live_not_deleted [OF Some] show ?thesis
      by (auto simp: worker_turn_def Let_def coupled_def registration_effect_def)
  next
    case False
    then have "wk_registered w" "\<not> wk_registered ?w" using eff w by (auto simp: registration_effect_def)
    moreover from this assms(2) have "\<exists>c. d \<in> set (devices_of ?r c)" by (simp add: coupled_def)
    ultimately show ?thesis
      using unregister_coupled [OF inv] False assms(3) Some
      by (auto simp: worker_turn_def Let_def coupled_def)
  qed
qed

section \<open>One frame through the server\<close>

text \<open>
  The order in which the threads work on one frame when nothing else happens: the client's thread
  takes the message from the socket and hands the data to the channel; the worker takes the packet,
  sends it, receives the answer and goes back to waiting for the queue; the client's reader reads
  the answer and sends it.
\<close>

definition exchange ::
  "'c protobuf \<Rightarrow> string \<Rightarrow> (nat \<Rightarrow> short) \<Rightarrow> (nat \<Rightarrow> byte) \<Rightarrow> dev \<Rightarrow>
    (client \<times> worker \<times> server_registry, unit) operation" where
  "exchange pb version uninit u d s =
     (case s of (cl, w, r) \<Rightarrow>
        (case client_work pb version uninit (cl, r) of
           (Inl e, (cl, r)) \<Rightarrow> (Inl e, (cl, w, r))
         | (Inr _, (cl, r)) \<Rightarrow>
             (case (worker_turn u d ^^ 6) (w, r) of (w, r) \<Rightarrow>
               (case bindS (reader_work pb) (\<lambda>_. reader_work pb) (cl, r) of (x, (cl, r)) \<Rightarrow>
                 (x, (cl, w, r))))))"

primrec exchanges ::
  "'c protobuf \<Rightarrow> string \<Rightarrow> (nat \<Rightarrow> short) \<Rightarrow> (nat \<Rightarrow> byte) \<Rightarrow> dev \<Rightarrow> nat \<Rightarrow>
    (client \<times> worker \<times> server_registry, unit) operation" where
  "exchanges pb version uninit u d 0 s = (Inr (), s)"
| "exchanges pb version uninit u d (Suc n) s =
     bindS (exchange pb version uninit u d) (\<lambda>_. exchanges pb version uninit u d n) s"

text \<open>What the chip is asked for a message of the client on channel \<open>c\<close>, and what its answer holds.\<close>

fun frame_for :: "byte \<Rightarrow> message \<Rightarrow> bytes option" where
  "frame_for c (ChannelData bs) =
     Some (frame AMBE3K_TYPE_AMBE ([0x40 + c, 0x01, of_nat (length bs * 8)] @ take (length bs mod 32) bs))"
| "frame_for c (SpeechData bs) =
     Some (frame AMBE3K_TYPE_AUDIO
       ([0x40 + c, 0x00, of_nat (length bs div 2)] @ take (length bs div 2 mod 256 * 2) bs))"
| "frame_for c _ = None"

fun answer_data :: "wire_field \<Rightarrow> bytes option" where
  "answer_data (WSpeechD ws) = Some (concat (map le16 ws))"
| "answer_data (WChanD bits cd) = Some cd"
| "answer_data _ = None"

text \<open>The frame with which the chip answers.\<close>

definition answer_kind :: "wire_field \<Rightarrow> packet_kind" where
  "answer_kind f = (case f of WSpeechD ws \<Rightarrow> SpeechPacket | _ \<Rightarrow> ChannelPacket)"

definition answer_frame :: "nat \<Rightarrow> wire_field \<Rightarrow> bytes" where
  "answer_frame i x =
     frame (type_byte (answer_kind x)) (encode_fields (answer_kind x) [WChannel (of_nat i), x])"

text \<open>The client's turn puts one packet into the device's queue.\<close>

lemma handle_data:
  assumes "frame_for (ch_index c) m = Some out" "ch_index c \<le> 3" "queue_open q"
    "length (bq_items q) < queue_capacity q"
    and "cl_session cl = Some (d, i)" "live r d = Some dev" "dv_channels dev ! i = c" "dv_queue dev = q"
  obtains p where "handle pb uninit m (cl, r) =
      (Inr (), (cl, set_device d (dev\<lparr>dv_queue := q\<lparr>bq_items := bq_items q @ [p]\<rparr>\<rparr>) r))"
    "\<forall>t. writeTo p t = Inr (p\<lparr>p_data := out\<rparr>, t\<lparr>tx := tx t @ out\<rparr>)"
proof -
  have same: "dev\<lparr>dv_channels := (dv_channels dev)[i := c], dv_queue := q'\<rparr> = dev\<lparr>dv_queue := q'\<rparr>" for q'
    using list_update_id [of "dv_channels dev" i] unfolding assms(7) by simp
  show ?thesis
  proof (cases m)
    case (ChannelData bs)
    from decode_sends [OF assms(2-4), of bs] obtain p where
      p: "decode bs (length bs) (c, q) = (Inr (), (c, q\<lparr>bq_items := bq_items q @ [p]\<rparr>))"
      "outgoing p AMBE3K_TYPE_AMBE
        ([0x40 + ch_index c, 0x01, of_nat (length bs * 8)] @ take (length bs mod 32) bs)" by blast
    with ChannelData assms that [of p] same writeTo_frame [OF p(2)] show ?thesis
      by (simp add: process_ChannelData_def on_registry_def on_device_live on_channel_def)
  next
    case (SpeechData bs)
    from encode_sends [OF assms(2-4), of bs] obtain p where
      p: "encode bs (length bs) (c, q) = (Inr (), (c, q\<lparr>bq_items := bq_items q @ [p]\<rparr>))"
      "outgoing p AMBE3K_TYPE_AUDIO
        ([0x40 + ch_index c, 0x00, of_nat (length bs div 2)] @ take (length bs div 2 mod 256 * 2) bs)" by blast
    with SpeechData assms that [of p] same writeTo_frame [OF p(2)] show ?thesis
      by (simp add: process_SpeechData_def on_registry_def on_device_live on_channel_def)
  qed (use assms(1) in simp_all)
qed

text \<open>A data packet that answers on a channel with room ends in the channel's queue.\<close>

lemma answer_received:
  assumes "answer_data x = Some bs" "wf_field (answer_kind x) x" "i < length (dv_channels dev)" "i \<le> 2"
    and "covers hs 4" "covers ks (length (encode_fields (answer_kind x) [WChannel (of_nat i), x]) + 2)"
    and "rx t = frame (type_byte (answer_kind x)) (encode_fields (answer_kind x) [WChannel (of_nat i), x]) @ rest"
    and "schedule t = map Ready hs @ map Ready ks @ es"
  obtains p where "receiveFrom u t = Inr (Some p, t\<lparr>rx := rest, schedule := es\<rparr>)"
    "device_receivePacket p dev = (Inr (), set_channel i (channel_receive p) dev)" "packet_output p = Inr bs"
proof -
  let ?k = "answer_kind x" and ?fs = "[WChannel (of_nat i), x]"
  have i: "unat (of_nat i :: byte) = i" "(of_nat i :: byte) \<le> 2"
    using assms(4) by (simp_all add: unat_of_nat word_le_nat_alt)
  have k: "?k = SpeechPacket \<and> (\<exists>ws. x = WSpeechD ws) \<or> ?k = ChannelPacket \<and> (\<exists>bits cd. x = WChanD bits cd)"
    using assms(1) by (cases x) (simp_all add: answer_kind_def)
  have "(unat bits + 7) div 8 < 32763" for bits :: byte
    using unsigned_less [of bits, where 'a = nat] by simp
  then have "length (encode_fields ?k ?fs) < 32766"
    using assms(2) k by (auto simp: encode_fields_def)
  then obtain p where p: "receiveFrom u t = Inr (Some p, t\<lparr>rx := rest, schedule := es\<rparr>)" "p_kind p = ?k"
    "view p = fold store_view ?fs empty_view"
    by (rule receiveFrom_frame [of ?k ?fs hs ks t rest es u, rotated]) (use assms i in simp_all)
  have "hasChannel p" "getChannel p = Inr (of_nat i)"
    using p(3) k by (auto simp: view_def empty_view_def split: if_splits)
  then have "device_receivePacket p dev = (Inr (), set_channel i (channel_receive p) dev)"
    using p(2) k i assms(3) by (auto simp: device_receivePacket_def device_getChannelNumber_def)
  moreover have "packet_output p = Inr bs"
    using p(2,3) k assms(1) by (auto simp: packet_output_def view_def empty_view_def split: if_splits)
  ultimately show ?thesis using that p(1) by blast
qed

text \<open>The worker's turns: it sends the packet, sees that the queue is empty, and receives.\<close>

lemma set_device_again [simp]: "set_device d x (set_device d y r) = set_device d x r"
  by (simp add: set_device_def)

definition idle_worker :: "worker \<Rightarrow> bool" where
  "idle_worker w \<longleftrightarrow> wk_pc w = At_pop \<and> wk_alive w \<and> wk_dorun w \<and> wk_in_progress w = 0"

lemma worker_turn_live:
  "live r d = Some dev \<Longrightarrow> work u (w\<lparr>wk_device := dev\<rparr>) = w' \<Longrightarrow> wk_alive w' \<Longrightarrow>
   worker_turn u d (w, r) = (w', set_device d (wk_device w') r)"
  by (auto simp: worker_turn_def Let_def)

lemma worker_exchanges:
  assumes "live r d = Some dev" "bq_items (dv_queue dev) = [p]" "bq_run (dv_queue dev)"
    and "idle_worker w"
    and "writeTo p (wk_tty w) = Inr (p', t1)" "receiveFrom u t1 = Inr (Some a, t2)"
    and "device_receivePacket a (dev\<lparr>dv_queue := (dv_queue dev)\<lparr>bq_items := []\<rparr>\<rparr>) = (Inr (), dev2)"
    and "bq_items (dv_queue dev2) = []"
  obtains w' where "(worker_turn u d ^^ 6) (w, r) = (w', set_device d dev2 r)" "wk_tty w' = t2" "idle_worker w'"
proof -
  let ?dev1 = "dev\<lparr>dv_queue := (dv_queue dev)\<lparr>bq_items := []\<rparr>\<rparr>"
  let ?w1 = "w\<lparr>wk_device := ?dev1, wk_tty := t1, wk_in_progress := 1, wk_sent := wk_sent w + 1, wk_pc := At_send\<rparr>"
  let ?w2 = "?w1\<lparr>wk_pc := At_receive\<rparr>"
  let ?w3 = "?w2\<lparr>wk_tty := t2, wk_device := dev2, wk_received := wk_received w + 1, wk_in_progress := 0, wk_pc := At_until\<rparr>"
  let ?w4 = "?w3\<lparr>wk_pc := At_outer\<rparr>" and ?w5 = "?w3\<lparr>wk_pc := At_send\<rparr>" and ?w6 = "?w3\<lparr>wk_pc := At_pop\<rparr>"
  let ?r1 = "set_device d ?dev1 r" and ?r2 = "set_device d dev2 r"
  have del: "d \<notin> set (rg_deleted r)" using assms(1) by (rule live_not_deleted)
  have w: "wk_pc w = At_pop" "wk_alive w" "wk_dorun w" "wk_in_progress w = 0"
    using assms(4) by (simp_all add: idle_worker_def)
  have turn: "worker_turn u d (v, set_device d x r) = (work u v, set_device d (wk_device (work u v)) r)"
    if "wk_device v = x" "wk_alive (work u v)" for v x
    using worker_turn_live [of "set_device d x r" d x u v "work u v"] del that by (cases v) simp
  have "worker_turn u d (w, r) = (?w1, set_device d (wk_device ?w1) r)"
    by (rule worker_turn_live [OF assms(1)]) (use assms w in \<open>simp_all add: work_def work_pop_def pop_def Let_def\<close>)
  moreover have "work u ?w1 = ?w2" "work u ?w2 = ?w3" "work u ?w3 = ?w4" "work u ?w4 = ?w5" "work u ?w5 = ?w6"
    using assms w by (simp_all add: work_def work_send_def work_receive_def work_until_def)
  then have "worker_turn u d (?w1, ?r1) = (?w2, ?r1)" "worker_turn u d (?w2, ?r1) = (?w3, ?r2)"
    "worker_turn u d (?w3, ?r2) = (?w4, ?r2)" "worker_turn u d (?w4, ?r2) = (?w5, ?r2)"
    "worker_turn u d (?w5, ?r2) = (?w6, ?r2)"
    using w turn [of ?w1 ?dev1] turn [of ?w2 ?dev1] turn [of ?w3 dev2] turn [of ?w4 dev2] turn [of ?w5 dev2]
    by simp_all
  ultimately have "(worker_turn u d ^^ 6) (w, r) = (?w6, ?r2)"
    by (simp add: eval_nat_numeral)
  then show ?thesis using that [of ?w6] w by (simp add: idle_worker_def)
qed

text \<open>The reader's turns.\<close>

lemma reader_exchanges:
  assumes "cl_reader cl = Some Reading" "cl_run cl" "cl_session cl = Some (d, i)" "cn_sends (cl_conn cl) = []"
    and "live r d = Some dev" "session_read i dev = (Inr bs, dev')" "bs \<noteq> []"
  shows "bindS (reader_work pb) (\<lambda>_. reader_work pb) (cl, r) =
    (Inr (), ((snd (send_client pb (SpeechData bs) cl))\<lparr>cl_reader := Some Reading\<rparr>, set_device d dev' r))"
proof -
  have "reader_work pb (cl, r) = (Inr (), (cl\<lparr>cl_reader := Some (Got bs)\<rparr>, set_device d dev' r))"
    using assms by (simp add: reader_work_def on_registry_def on_device_live bindS_def)
  then show ?thesis
    using assms(4) by (simp add: reader_work_def send_client_scheduled)
qed

lemma received_read:
  assumes "i < length (dv_channels dev)" "ch_outQueue (dv_channels dev ! i) = Some q" "queue_ok q" "bq_items q = []"
    and "packet_output p = Inr bs"
  shows "session_read i (set_channel i (channel_receive p) dev) = (Inr bs, dev)"
proof -
  have q: "bq_run q" "q\<lparr>bq_items := []\<rparr> = q" "\<not> full q"
    using assms(3,4) full_iff [of q] by (cases q; simp_all add: queue_ok_def queue_open_def)+
  let ?c = "dv_channels dev ! i"
  have "?c\<lparr>ch_outQueue := Some q\<rparr> = ?c" using assms(2) by (cases ?c) simp
  then have "(dv_channels dev)[i := ?c\<lparr>ch_outQueue := Some (q\<lparr>bq_items := []\<rparr>)\<rparr>] = dv_channels dev"
    by (simp add: q(2))
  then show ?thesis
    using assms q(1,3) by (simp add: session_read_def on_channel_def set_channel_def channel_receive_def push_def
        channel_read_def pop_def packet_output_def)
qed

text \<open>
  A session between two frames: its client is in the loop with a reader that waits, and nothing is
  in the queues of the device and of the channel.
\<close>

definition idle_session :: "dev \<Rightarrow> nat \<Rightarrow> ambe_device \<Rightarrow> client \<times> server_registry \<Rightarrow> bool" where
  "idle_session d i dev s \<longleftrightarrow>
     cl_pc (fst s) = Looping \<and> cl_run (fst s) \<and> cl_session (fst s) = Some (d, i) \<and>
     cl_reader (fst s) = Some Reading \<and> cn_sends (cl_conn (fst s)) = [] \<and>
     live (snd s) d = Some dev \<and> device_ok dev \<and> i < length (dv_channels dev) \<and>
     bq_items (dv_queue dev) = [] \<and>
     map_option bq_items (ch_outQueue (dv_channels dev ! i)) = Some []"

lemma idle_session_device:
  assumes "idle_session d i dev s"
  shows "ch_index (dv_channels dev ! i) = of_nat i" "i \<le> 2" "queue_open (dv_queue dev)"
    "queue_capacity (dv_queue dev) = 10" "dev\<lparr>dv_queue := (dv_queue dev)\<lparr>bq_items := []\<rparr>\<rparr> = dev"
    "\<exists>q. ch_outQueue (dv_channels dev ! i) = Some q \<and> queue_ok q \<and> bq_items q = []"
proof -
  have ok: "device_ok dev" "i < length (dv_channels dev)" "bq_items (dv_queue dev) = []"
    using assms by (simp_all add: idle_session_def)
  then have "map ch_index (dv_channels dev) ! i = map of_nat [0..<length (dv_channels dev)] ! i"
    by (simp add: device_ok_def)
  with ok(2) show "ch_index (dv_channels dev ! i) = of_nat i" by simp
  show "i \<le> 2" "queue_open (dv_queue dev)" "queue_capacity (dv_queue dev) = 10"
    using ok by (simp_all add: device_ok_def queue_ok_def)
  have "(dv_queue dev)\<lparr>bq_items := []\<rparr> = dv_queue dev" using ok(3) by (cases "dv_queue dev") simp
  then show "dev\<lparr>dv_queue := (dv_queue dev)\<lparr>bq_items := []\<rparr>\<rparr> = dev" by simp
  obtain q where q: "ch_outQueue (dv_channels dev ! i) = Some q" "bq_items q = []"
    using assms by (auto simp: idle_session_def)
  moreover have "chan_ok (dv_channels dev ! i)" using ok by (simp add: device_ok_def list_all_length)
  ultimately show "\<exists>q. ch_outQueue (dv_channels dev ! i) = Some q \<and> queue_ok q \<and> bq_items q = []"
    by (auto simp: chan_ok_def)
qed

text \<open>The first leg of a frame, from the socket to the queue of the device.\<close>

lemma client_forwards:
  assumes "idle_session d i dev (cl, r)" "frame_for (of_nat i) m = Some out"
    and "receiveMessage pb (cl_conn cl) = Some (Inr (Some m), cn)"
  obtains p where "client_work pb version uninit (cl, r) =
      (Inr (), (cl\<lparr>cl_conn := cn\<rparr>, set_device d (dev\<lparr>dv_queue := (dv_queue dev)\<lparr>bq_items := [p]\<rparr>\<rparr>) r))"
    "\<And>t. writeTo p t = Inr (p\<lparr>p_data := out\<rparr>, t\<lparr>tx := tx t @ out\<rparr>)"
proof -
  let ?cl = "cl\<lparr>cl_conn := cn\<rparr>" and ?q = "dv_queue dev"
  note idle = idle_session_device [OF assms(1)]
  have cl: "cl_pc cl = Looping" "cl_run cl" "cl_session cl = Some (d, i)" "live r d = Some dev" "bq_items ?q = []"
    using assms(1) by (simp_all add: idle_session_def)
  have out: "frame_for (ch_index (dv_channels dev ! i)) m = Some out" "ch_index (dv_channels dev ! i) \<le> 3"
    "length (bq_items ?q) < queue_capacity ?q" "cl_session ?cl = Some (d, i)"
    using assms(2) idle cl by (simp_all add: word_le_nat_alt unat_of_nat)
  obtain p where p: "handle pb uninit m (?cl, r) =
      (Inr (), (?cl, set_device d (dev\<lparr>dv_queue := ?q\<lparr>bq_items := bq_items ?q @ [p]\<rparr>\<rparr>) r))"
    "\<forall>t. writeTo p t = Inr (p\<lparr>p_data := out\<rparr>, t\<lparr>tx := tx t @ out\<rparr>)"
    by (rule handle_data [OF out(1,2) idle(3) out(3,4) cl(4) refl refl, of pb uninit])
  have "client_work pb version uninit (cl, r) =
      (Inr (), (?cl, set_device d (dev\<lparr>dv_queue := ?q\<lparr>bq_items := [p]\<rparr>\<rparr>) r))"
    using cl assms(3) p(1) by (simp add: client_work_def catch_connection_def loop_turn_def)
  with p(2) that show ?thesis by blast
qed

text \<open>The last leg, from the queue of the channel to the socket.\<close>

lemma reader_forwards:
  assumes "cl_reader cl = Some Reading" "cl_run cl" "cl_session cl = Some (d, i)" "cn_sends (cl_conn cl) = []"
    and "live r d = Some dev'" "session_read i dev' = (Inr bs, dev)" "bs \<noteq> []"
  shows "bindS (reader_work pb) (\<lambda>_. reader_work pb) (cl, r) =
    (Inr (), (cl\<lparr>cl_conn := (cl_conn cl)\<lparr>cn_out := cn_out (cl_conn cl) @ wire pb [SpeechData bs]\<rparr>\<rparr>,
      set_device d dev r))"
proof -
  have "bindS (reader_work pb) (\<lambda>_. reader_work pb) (cl, r) =
      (Inr (), ((snd (send_client pb (SpeechData bs) cl))\<lparr>cl_reader := Some Reading\<rparr>, set_device d dev r))"
    using assms by (intro reader_exchanges [OF _ _ _ _ _ _ assms(7)]) simp_all
  moreover have "(snd (send_client pb (SpeechData bs) cl))\<lparr>cl_reader := Some Reading\<rparr> =
      cl\<lparr>cl_conn := (cl_conn cl)\<lparr>cn_out := cn_out (cl_conn cl) @ wire pb [SpeechData bs]\<rparr>\<rparr>"
    using assms(1,4) by (cases cl) (simp add: send_client_scheduled)
  ultimately show ?thesis by simp
qed

text \<open>One frame, from the socket to the line and back, leaves everything as it was in between.\<close>

lemma exchange_once:
  assumes "idle_session d i dev (cl, r)" "idle_worker w"
    and "frame_for (of_nat i) m = Some out" "answer_data x = Some bs" "bs \<noteq> []" "wf_field (answer_kind x) x"
    and "receiveMessage pb (cl_conn cl) = Some (Inr (Some m), cn)" "cn_sends cn = []"
    and "covers hs 4" "covers ks (length (encode_fields (answer_kind x) [WChannel (of_nat i), x]) + 2)"
    and "rx (wk_tty w) = answer_frame i x @ rest" "schedule (wk_tty w) = map Ready hs @ map Ready ks @ es"
  obtains w' where "exchange pb version uninit u d (cl, w, r) =
      (Inr (), (cl\<lparr>cl_conn := cn\<lparr>cn_out := cn_out cn @ wire pb [SpeechData bs]\<rparr>\<rparr>, w', r))"
    "idle_worker w'" "wk_tty w' = \<lparr>rx = rest, schedule = es, tx = tx (wk_tty w) @ out\<rparr>"
proof -
  let ?cl = "cl\<lparr>cl_conn := cn\<rparr>" and ?q = "dv_queue dev"
  note idle = idle_session_device [OF assms(1)]
  have cl: "cl_run cl" "cl_session cl = Some (d, i)" "cl_reader cl = Some Reading"
    "live r d = Some dev" "i < length (dv_channels dev)" "bq_items ?q = []"
    using assms(1) by (simp_all add: idle_session_def)
  obtain p where turn: "client_work pb version uninit (cl, r) =
      (Inr (), (?cl, set_device d (dev\<lparr>dv_queue := ?q\<lparr>bq_items := [p]\<rparr>\<rparr>) r))"
    and written: "\<And>t. writeTo p t = Inr (p\<lparr>p_data := out\<rparr>, t\<lparr>tx := tx t @ out\<rparr>)"
    by (rule client_forwards [OF assms(1,3,7)]) blast
  let ?dev = "dev\<lparr>dv_queue := ?q\<lparr>bq_items := [p]\<rparr>\<rparr>"
  let ?r = "set_device d ?dev r"
  obtain a where a: "receiveFrom u ((wk_tty w)\<lparr>tx := tx (wk_tty w) @ out\<rparr>) =
      Inr (Some a, (wk_tty w)\<lparr>tx := tx (wk_tty w) @ out, rx := rest, schedule := es\<rparr>)"
    "device_receivePacket a dev = (Inr (), set_channel i (channel_receive a) dev)" "packet_output a = Inr bs"
    by (rule answer_received [OF assms(4,6) cl(5) idle(2) assms(9,10),
        of "(wk_tty w)\<lparr>tx := tx (wk_tty w) @ out\<rparr>" rest es u])
      (use assms in \<open>simp_all add: answer_frame_def\<close>)
  let ?dev2 = "set_channel i (channel_receive a) dev"
  have live: "live ?r d = Some ?dev" "live (set_device d ?dev2 ?r) d = Some ?dev2"
    using live_not_deleted [OF cl(4)] by simp_all
  have dev1: "?dev\<lparr>dv_queue := (dv_queue ?dev)\<lparr>bq_items := []\<rparr>\<rparr> = dev" using idle(5) by simp
  obtain w' where w': "(worker_turn u d ^^ 6) (w, ?r) = (w', set_device d ?dev2 ?r)"
    "wk_tty w' = (wk_tty w)\<lparr>tx := tx (wk_tty w) @ out, rx := rest, schedule := es\<rparr>" "idle_worker w'"
    by (rule worker_exchanges [OF live(1) _ _ assms(2) written a(1), unfolded dev1, OF _ _ a(2)])
      (use idle(3) cl(6) in \<open>simp_all add: queue_open_def set_channel_def\<close>)
  have read: "session_read i ?dev2 = (Inr bs, dev)"
    using idle(6) received_read [OF cl(5) _ _ _ a(3)] by blast
  have "exchange pb version uninit u d (cl, w, r) =
      (Inr (), (cl\<lparr>cl_conn := cn\<lparr>cn_out := cn_out cn @ wire pb [SpeechData bs]\<rparr>\<rparr>, w', r))"
    using turn w'(1) reader_forwards [of ?cl d i _ ?dev2 _ _ pb, OF _ _ _ _ live(2) read assms(5)] cl assms(8)
    by (simp add: exchange_def)
  with that w' show ?thesis by (cases "wk_tty w") simp
qed

section \<open>Any number of frames\<close>

text \<open>
  A frame of a session: the client's message with the number of calls of \<^verbatim>\<open>poll\<close> that time out before
  it, and the chip's answer with the sizes in which the line delivers its header and the rest.
\<close>

record traffic =
  tf_message :: message
  tf_timeouts :: nat
  tf_answer :: wire_field
  tf_header :: "nat list"
  tf_payload :: "nat list"

definition traffic_ok :: "nat \<Rightarrow> traffic \<Rightarrow> bool" where
  "traffic_ok i f \<longleftrightarrow> frame_for (of_nat i) (tf_message f) \<noteq> None \<and>
     (case answer_data (tf_answer f) of None \<Rightarrow> False | Some bs \<Rightarrow> bs \<noteq> []) \<and>
     wf_field (answer_kind (tf_answer f)) (tf_answer f) \<and> covers (tf_header f) 4 \<and>
     covers (tf_payload f)
       (length (encode_fields (answer_kind (tf_answer f)) [WChannel (of_nat i), tf_answer f]) + 2)"

text \<open>What the two ends of the server hold when the frames are about to come.\<close>

definition incoming :: "'c protobuf \<Rightarrow> nat \<Rightarrow> traffic list \<Rightarrow> connection \<Rightarrow> tty \<Rightarrow> bool" where
  "incoming pb i fs cn t \<longleftrightarrow> cn_sock cn \<noteq> - 1 \<and>
     (\<exists>polls. cn_polls cn = ready_polls (map tf_timeouts fs) @ polls) \<and>
     (\<exists>more. cn_stream cn = Some (wire pb (map tf_message fs) @ more)) \<and>
     (\<exists>rest. rx t = concat (map (\<lambda>f. answer_frame i (tf_answer f)) fs) @ rest) \<and>
     (\<exists>es. schedule t = concat (map (\<lambda>f. map Ready (tf_header f) @ map Ready (tf_payload f)) fs) @ es)"

text \<open>What they have sent for the frames.\<close>

definition requested :: "nat \<Rightarrow> traffic list \<Rightarrow> bytes" where
  "requested i fs = concat (map (\<lambda>f. the (frame_for (of_nat i) (tf_message f))) fs)"

definition answered :: "traffic list \<Rightarrow> message list" where
  "answered fs = map (\<lambda>f. SpeechData (the (answer_data (tf_answer f)))) fs"

lemma exchange_first:
  assumes "idle_session d i dev (cl, r)" "idle_worker w" "traffic_ok i f"
    and "protobuf_ok pb M" "tf_message f \<in> M" "incoming pb i (f # fs) (cl_conn cl) (wk_tty w)"
  obtains cl' w' where "exchange pb version uninit u d (cl, w, r) = (Inr (), (cl', w', r))"
    "idle_session d i dev (cl', r)" "idle_worker w'" "incoming pb i fs (cl_conn cl') (wk_tty w')"
    "cn_out (cl_conn cl') = cn_out (cl_conn cl) @ wire pb (answered [f])"
    "tx (wk_tty w') = tx (wk_tty w) @ requested i [f]"
proof -
  from assms(3) obtain out bs where f: "frame_for (of_nat i) (tf_message f) = Some out"
    "answer_data (tf_answer f) = Some bs" "bs \<noteq> []" "wf_field (answer_kind (tf_answer f)) (tf_answer f)"
    "covers (tf_header f) 4"
    "covers (tf_payload f) (length (encode_fields (answer_kind (tf_answer f)) [WChannel (of_nat i), tf_answer f]) + 2)"
    by (auto simp: traffic_ok_def split: option.splits)
  from assms(6) obtain polls more rest es where inc: "cn_sock (cl_conn cl) \<noteq> - 1"
    "cn_polls (cl_conn cl) = ready_polls (map tf_timeouts (f # fs)) @ polls"
    "cn_stream (cl_conn cl) = Some (wire pb (map tf_message (f # fs)) @ more)"
    "rx (wk_tty w) = concat (map (\<lambda>f. answer_frame i (tf_answer f)) (f # fs)) @ rest"
    "schedule (wk_tty w) = concat (map (\<lambda>f. map Ready (tf_header f) @ map Ready (tf_payload f)) (f # fs)) @ es"
    unfolding incoming_def by blast
  let ?cn = "(cl_conn cl)\<lparr>cn_polls := ready_polls (map tf_timeouts fs) @ polls,
    cn_stream := Some (wire pb (map tf_message fs) @ more)\<rparr>"
  have recv: "receiveMessage pb (cl_conn cl) = Some (Inr (Some (tf_message f)), ?cn)"
    by (rule receive_sent [OF assms(4,5) inc(1), where k = "tf_timeouts f"])
      (simp_all add: inc ready_polls_def wire_def)
  have sends: "cn_sends ?cn = []" using assms(1) by (simp add: idle_session_def)
  let ?cl = "cl\<lparr>cl_conn := ?cn\<lparr>cn_out := cn_out ?cn @ wire pb [SpeechData bs]\<rparr>\<rparr>"
  obtain w' where w': "exchange pb version uninit u d (cl, w, r) = (Inr (), (?cl, w', r))" "idle_worker w'"
    "wk_tty w' = \<lparr>rx = concat (map (\<lambda>f. answer_frame i (tf_answer f)) fs) @ rest,
      schedule = concat (map (\<lambda>f. map Ready (tf_header f) @ map Ready (tf_payload f)) fs) @ es,
      tx = tx (wk_tty w) @ out\<rparr>"
    by (rule exchange_once [OF assms(1,2) f(1-4) recv sends f(5,6)]) (simp_all add: inc)
  show ?thesis
  proof (rule that [OF w'(1) _ w'(2)])
    show "idle_session d i dev (?cl, r)" using assms(1) by (simp add: idle_session_def)
    show "incoming pb i fs (cl_conn ?cl) (wk_tty w')" using inc(1) by (simp add: incoming_def w'(3))
    show "cn_out (cl_conn ?cl) = cn_out (cl_conn cl) @ wire pb (answered [f])" by (simp add: answered_def f(2))
    show "tx (wk_tty w') = tx (wk_tty w) @ requested i [f]" by (simp add: requested_def f(1) w'(3))
  qed
qed

end
