(* ===== verification/Packet_Memory.thy ===== *)
theory Packet_Memory
  imports "HOL-Library.Multiset" Wire_Format
begin

text \<open>
  The memory of packets (\<^verbatim>\<open>src/modules/ambe3k/protocol.cpp\<close>): the \<^verbatim>\<open>new\<close> and \<^verbatim>\<open>delete\<close> of field objects
  while a buffer is parsed, and the destructors.

  The heap is the multiset of what is allocated and belongs to one packet: its buffer and its field
  objects. The objects of one packet start at different places of its buffer, so a field stands for
  its own address. To delete what is not allocated is the fault \<open>Invalid_free\<close>; to delete a null
  pointer does nothing.
\<close>

section \<open>The heap of a packet\<close>

datatype heap_object = Buffer | Field_object field

type_synonym heap = "heap_object multiset"

definition delete_object :: "heap_object \<Rightarrow> (heap, unit) operation" where
  "delete_object x h = (if x \<in># h then (Inr (), h - {#x#}) else (Inl (Crash Invalid_free), h))"

primrec delete_field :: "field option \<Rightarrow> (heap, unit) operation" where
  "delete_field None = liftS (Inr ())"
| "delete_field (Some f) = delete_object (Field_object f)"

section \<open>Destructors\<close>

definition Packet_destructor :: "packet \<Rightarrow> (heap, unit) operation" where
  "Packet_destructor p =
     bindS (delete_object Buffer) (\<lambda>_.
     delete_field (p_checksum p))"

definition ControlPacket_destructor :: "packet \<Rightarrow> (heap, unit) operation" where
  "ControlPacket_destructor p =
     bindS (delete_field (p_ready p)) (\<lambda>_.
     bindS (delete_field (p_prodid p)) (\<lambda>_.
     bindS (delete_field (p_version p)) (\<lambda>_.
     bindS (delete_field (p_channelResponse p)) (\<lambda>_.
     bindS (delete_field (p_ratePResponse p)) (\<lambda>_.
     bindS (delete_field (p_rateTResponse p)) (\<lambda>_.
     bindS (delete_field (p_initResponse p)) (\<lambda>_.
     Packet_destructor p)))))))"

definition ResetPacket_destructor :: "packet \<Rightarrow> (heap, unit) operation" where
  "ResetPacket_destructor p = bindS (delete_field (p_request p)) (\<lambda>_. ControlPacket_destructor p)"

definition ProdIdRequest_destructor :: "packet \<Rightarrow> (heap, unit) operation" where
  "ProdIdRequest_destructor p = bindS (delete_field (p_request p)) (\<lambda>_. ControlPacket_destructor p)"

definition VersionStringRequest_destructor :: "packet \<Rightarrow> (heap, unit) operation" where
  "VersionStringRequest_destructor p =
     bindS (delete_field (p_request p)) (\<lambda>_. ControlPacket_destructor p)"

definition SetupRequest_destructor :: "packet \<Rightarrow> (heap, unit) operation" where
  "SetupRequest_destructor p =
     bindS (delete_field (p_channel p)) (\<lambda>_.
     bindS (delete_field (p_request p)) (\<lambda>_.
     bindS (delete_field (p_init p)) (\<lambda>_.
     ControlPacket_destructor p)))"

definition ChannelPacket_destructor :: "packet \<Rightarrow> (heap, unit) operation" where
  "ChannelPacket_destructor p =
     bindS (delete_field (p_channel p)) (\<lambda>_.
     bindS (delete_field (p_chanD p)) (\<lambda>_.
     Packet_destructor p))"

definition SpeechPacket_destructor :: "packet \<Rightarrow> (heap, unit) operation" where
  "SpeechPacket_destructor p =
     bindS (delete_field (p_channel p)) (\<lambda>_.
     bindS (delete_field (p_speechD p)) (\<lambda>_.
     Packet_destructor p))"

text \<open>The destructor is virtual. \<open>delete_parsed\<close> is \<^verbatim>\<open>delete\<close> of a packet that \<^verbatim>\<open>parse\<close> has made.\<close>

definition delete_parsed :: "packet \<Rightarrow> (heap, unit) operation" where
  "delete_parsed p =
     (case p_kind p of
        ControlPacket \<Rightarrow> ControlPacket_destructor p
      | ChannelPacket \<Rightarrow> ChannelPacket_destructor p
      | SpeechPacket \<Rightarrow> SpeechPacket_destructor p)"

section \<open>Parsing with its allocations\<close>

text \<open>\<^verbatim>\<open>scanFields\<close> and \<^verbatim>\<open>parse\<close> again, with every \<^verbatim>\<open>new\<close> and \<^verbatim>\<open>delete\<close>.\<close>

function scan_memory :: "packet \<Rightarrow> nat \<Rightarrow> nat \<Rightarrow> heap \<Rightarrow> (error + packet) \<times> heap" where
  "scan_memory p current remaining h =
     (if remaining = 0 then (Inr p, h)
      else case buildField (p_kind p) (p_data p) current of
          Inl e \<Rightarrow> (Inl e, h)
        | Inr None \<Rightarrow> (Inr p, h)
        | Inr (Some (f, d)) \<Rightarrow>
            (let h = add_mset (Field_object f) h; p = p\<lparr>p_data := d\<rparr>; l = getLength f in
             if l > remaining then bindS (delete_field (Some f)) (\<lambda>_. liftS (Inr p)) h
             else scan_memory (storeField p f) (current + l) (remaining - l) h))"
  by pat_completeness auto
termination
  by (relation "measure (\<lambda>(p, current, remaining, h). remaining)") auto

declare scan_memory.simps [simp del]

definition parse_as_memory :: "packet_kind \<Rightarrow> bytes \<Rightarrow> nat \<Rightarrow> (heap, packet option) operation" where
  "parse_as_memory k d sz =
     bindS (liftS (Packet_around k d sz)) (\<lambda>p.
     bindS (scan_memory p 4 (p_dataSize p - 4)) (\<lambda>p.
     bindS (liftS (isChecksumValid p)) (\<lambda>valid.
     if valid then liftS (Inr (Some p))
     else bindS (delete_parsed p) (\<lambda>_. liftS (Inr None)))))"

definition parse_memory :: "bytes \<Rightarrow> nat \<Rightarrow> (heap, packet option) operation" where
  "parse_memory d sz =
     bindS (liftS (get_byte d 3)) (\<lambda>type.
     if type = AMBE3K_TYPE_CONTROL then parse_as_memory ControlPacket d sz
     else if type = AMBE3K_TYPE_AUDIO then parse_as_memory SpeechPacket d sz
     else if type = AMBE3K_TYPE_AMBE then parse_as_memory ChannelPacket d sz
     else liftS (Inr None))"

section \<open>What destructors free\<close>

text \<open>An operation frees \<open>X\<close> if it succeeds wherever \<open>X\<close> is allocated, and takes away just that.\<close>

definition frees :: "(heap, unit) operation \<Rightarrow> heap \<Rightarrow> bool" where
  "frees m X \<longleftrightarrow> (\<forall>h. m (X + h) = (Inr (), h))"

lemma frees_object: "frees (delete_object x) {#x#}"
  by (simp add: frees_def delete_object_def)

lemma frees_seq: "frees m X \<Longrightarrow> frees n Y \<Longrightarrow> frees (bindS m (\<lambda>_. n)) (X + Y)"
  by (simp add: frees_def add.assoc)

primrec held :: "field option \<Rightarrow> heap" where
  "held None = {#}"
| "held (Some f) = {#Field_object f#}"

lemma frees_field: "frees (delete_field s) (held s)"
  by (cases s) (simp_all add: frees_object frees_def liftS_def delete_object_def)

text \<open>All that a packet points to.\<close>

definition pointees :: "packet \<Rightarrow> heap" where
  "pointees p = {#Buffer#} + held (p_checksum p) + held (p_channel p) + held (p_ready p) + held (p_prodid p) +
     held (p_version p) + held (p_rateTResponse p) + held (p_ratePResponse p) + held (p_initResponse p) +
     held (p_channelResponse p) + held (p_chanD p) + held (p_speechD p) + held (p_request p) + held (p_init p)"

lemmas destructor_defs =
  Packet_destructor_def ControlPacket_destructor_def ResetPacket_destructor_def
  ProdIdRequest_destructor_def VersionStringRequest_destructor_def SetupRequest_destructor_def
  ChannelPacket_destructor_def SpeechPacket_destructor_def

lemmas frees_intros = frees_seq frees_field frees_object

text \<open>The slots that a class of packets has.\<close>

definition slots_of_kind :: "packet \<Rightarrow> bool" where
  "slots_of_kind p \<longleftrightarrow> p_request p = None \<and> p_init p = None \<and>
     (if p_kind p = ControlPacket then p_channel p = None \<and> p_chanD p = None \<and> p_speechD p = None
      else p_ready p = None \<and> p_prodid p = None \<and> p_version p = None \<and> p_rateTResponse p = None \<and>
        p_ratePResponse p = None \<and> p_initResponse p = None \<and> p_channelResponse p = None) \<and>
     (p_kind p = ChannelPacket \<longrightarrow> p_speechD p = None) \<and> (p_kind p = SpeechPacket \<longrightarrow> p_chanD p = None)"

lemma frees_Packet: "frees (Packet_destructor p) ({#Buffer#} + held (p_checksum p))"
  unfolding Packet_destructor_def by (intro frees_intros)

lemma frees_ControlPacket:
  "frees (ControlPacket_destructor p) (held (p_ready p) + (held (p_prodid p) + (held (p_version p) +
     (held (p_channelResponse p) + (held (p_ratePResponse p) + (held (p_rateTResponse p) +
     (held (p_initResponse p) + ({#Buffer#} + held (p_checksum p)))))))))"
  unfolding ControlPacket_destructor_def by (intro frees_intros frees_Packet)

lemma frees_same: "frees m X \<Longrightarrow> X = Y \<Longrightarrow> frees m Y"
  by simp

lemma frees_ChannelPacket:
  "frees (ChannelPacket_destructor p)
     (held (p_channel p) + (held (p_chanD p) + ({#Buffer#} + held (p_checksum p))))"
  unfolding ChannelPacket_destructor_def by (intro frees_intros frees_Packet)

lemma frees_SpeechPacket:
  "frees (SpeechPacket_destructor p)
     (held (p_channel p) + (held (p_speechD p) + ({#Buffer#} + held (p_checksum p))))"
  unfolding SpeechPacket_destructor_def by (intro frees_intros frees_Packet)

lemma frees_parsed: "slots_of_kind p \<Longrightarrow> frees (delete_parsed p) (pointees p)"
  by (cases "p_kind p")
    (auto simp: delete_parsed_def slots_of_kind_def pointees_def
      intro!: frees_same [OF frees_ControlPacket] frees_same [OF frees_ChannelPacket]
        frees_same [OF frees_SpeechPacket])

section \<open>What parsing allocates\<close>

text \<open>The dynamic type of a field object; a packet has one slot for each type.\<close>

primrec typeid :: "field \<Rightarrow> nat" where
  "typeid (ChecksumField d) = 0"
| "typeid (ResetField d) = 1"
| "typeid (ReadyField d) = 2"
| "typeid (ProdIdRequestField d) = 3"
| "typeid (ProdIdResponseField d s) = 4"
| "typeid (VersionStringRequestField d) = 5"
| "typeid (VersionStringResponseField d) = 6"
| "typeid (ChannelField d) = 7"
| "typeid (ChannelResponseField d) = 8"
| "typeid (RateTRequestField d) = 9"
| "typeid (RateTResponseField d) = 10"
| "typeid (RatePRequestField d) = 11"
| "typeid (RatePResponseField d) = 12"
| "typeid (InitRequestField d) = 13"
| "typeid (InitResponseField d) = 14"
| "typeid (ChanDField d bits) = 15"
| "typeid (SpeechDField d samples) = 16"

text \<open>The fields that a scan stores, and those of a list that a later field of their type replaces.\<close>

function stored_fields :: "packet_kind \<Rightarrow> bytes \<Rightarrow> nat \<Rightarrow> nat \<Rightarrow> field list" where
  "stored_fields k d current remaining =
     (if remaining = 0 then []
      else case buildField k d current of
          Inr (Some (f, d)) \<Rightarrow>
            if getLength f > remaining then []
            else f # stored_fields k d (current + getLength f) (remaining - getLength f)
        | _ \<Rightarrow> [])"
  by pat_completeness auto
termination
  by (relation "measure (\<lambda>(k, d, current, remaining). remaining)") auto

declare stored_fields.simps [simp del]

primrec shadowed :: "field list \<Rightarrow> field list" where
  "shadowed [] = []"
| "shadowed (f # fs) = (if typeid f \<in> typeid ` set fs then f # shadowed fs else shadowed fs)"

lemma shadowed_distinct: "shadowed fs = [] \<longleftrightarrow> distinct (map typeid fs)"
  by (induction fs) auto

definition objects :: "field list \<Rightarrow> heap" where
  "objects fs = image_mset Field_object (mset fs)"

lemma objects_simps [simp]:
  "objects [] = {#}"
  "objects (f # fs) = add_mset (Field_object f) (objects fs)"
  by (simp_all add: objects_def)

text \<open>What of a packet the fields \<open>fs\<close> replace when they are stored.\<close>

definition replaced :: "field list \<Rightarrow> heap \<Rightarrow> heap" where
  "replaced fs = filter_mset (\<lambda>x. \<exists>f. x = Field_object f \<and> typeid f \<in> typeid ` set fs)"

lemma replaced_simps [simp]:
  "replaced [] h = {#}"
  "replaced fs {#} = {#}"
  "replaced fs (add_mset Buffer h) = replaced fs h"
  "replaced fs (add_mset (Field_object f) h) =
     (if typeid f \<in> typeid ` set fs then add_mset (Field_object f) (replaced fs h) else replaced fs h)"
  "replaced fs (h + h') = replaced fs h + replaced fs h'"
  by (auto simp: replaced_def)

text \<open>Every slot holds a field of its own type.\<close>

definition typed :: "nat \<Rightarrow> field option \<Rightarrow> bool" where
  "typed t s \<longleftrightarrow> (case s of None \<Rightarrow> True | Some f \<Rightarrow> typeid f = t)"

lemma typed_simps [simp]: "typed t None" "typed t (Some f) \<longleftrightarrow> typeid f = t"
  by (simp_all add: typed_def)

lemma replaced_held: "typed t s \<Longrightarrow> replaced fs (held s) = (if t \<in> typeid ` set fs then held s else {#})"
  by (cases s) simp_all

definition typed_slots :: "packet \<Rightarrow> bool" where
  "typed_slots p \<longleftrightarrow> typed 0 (p_checksum p) \<and> typed 7 (p_channel p) \<and> typed 2 (p_ready p) \<and>
     typed 4 (p_prodid p) \<and> typed 6 (p_version p) \<and> typed 10 (p_rateTResponse p) \<and>
     typed 12 (p_ratePResponse p) \<and> typed 14 (p_initResponse p) \<and> typed 8 (p_channelResponse p) \<and>
     typed 15 (p_chanD p) \<and> typed 16 (p_speechD p)"

lemma replaced_slots:
  assumes "typed_slots p"
  shows "replaced fs (held (p_checksum p)) = (if 0 \<in> typeid ` set fs then held (p_checksum p) else {#})"
    and "replaced fs (held (p_channel p)) = (if 7 \<in> typeid ` set fs then held (p_channel p) else {#})"
    and "replaced fs (held (p_ready p)) = (if 2 \<in> typeid ` set fs then held (p_ready p) else {#})"
    and "replaced fs (held (p_prodid p)) = (if 4 \<in> typeid ` set fs then held (p_prodid p) else {#})"
    and "replaced fs (held (p_version p)) = (if 6 \<in> typeid ` set fs then held (p_version p) else {#})"
    and "replaced fs (held (p_rateTResponse p)) =
      (if 10 \<in> typeid ` set fs then held (p_rateTResponse p) else {#})"
    and "replaced fs (held (p_ratePResponse p)) =
      (if 12 \<in> typeid ` set fs then held (p_ratePResponse p) else {#})"
    and "replaced fs (held (p_initResponse p)) =
      (if 14 \<in> typeid ` set fs then held (p_initResponse p) else {#})"
    and "replaced fs (held (p_channelResponse p)) =
      (if 8 \<in> typeid ` set fs then held (p_channelResponse p) else {#})"
    and "replaced fs (held (p_chanD p)) = (if 15 \<in> typeid ` set fs then held (p_chanD p) else {#})"
    and "replaced fs (held (p_speechD p)) = (if 16 \<in> typeid ` set fs then held (p_speechD p) else {#})"
  by (rule replaced_held; use assms in \<open>simp add: typed_slots_def\<close>)+

definition memory_ok :: "packet \<Rightarrow> bool" where
  "memory_ok p \<longleftrightarrow> typed_slots p \<and> slots_of_kind p"

lemma memory_ok_fresh: "Packet_around k d sz = Inr p \<Longrightarrow> memory_ok p \<and> pointees p = {#Buffer#}"
  by (auto simp: Packet_around_def memory_ok_def typed_slots_def slots_of_kind_def pointees_def split: if_splits)

definition storable :: "packet_kind \<Rightarrow> field \<Rightarrow> bool" where
  "storable k f \<longleftrightarrow> is_ChecksumField f \<or>
     (case k of
        ControlPacket \<Rightarrow> is_ReadyField f \<or> is_ProdIdResponseField f \<or> is_VersionStringResponseField f \<or>
          is_RateTResponseField f \<or> is_RatePResponseField f \<or> is_InitResponseField f \<or>
          is_ChannelResponseField f
      | ChannelPacket \<Rightarrow> is_ChannelField f \<or> is_ChanDField f
      | SpeechPacket \<Rightarrow> is_ChannelField f \<or> is_SpeechDField f)"

lemma buildField_storable: "buildField k d current = Inr (Some (f, d')) \<Longrightarrow> storable k f"
  by (cases k) (auto simp: buildField_defs field_ctor_defs storable_def split: if_splits)

lemma storeField_memory_ok:
  "memory_ok p \<Longrightarrow> storable (p_kind p) f \<Longrightarrow> memory_ok (storeField p f)"
  by (cases f; cases "p_kind p")
    (auto simp: memory_ok_def typed_slots_def slots_of_kind_def storable_def storeField_defs)

text \<open>Nothing gets lost but the field whose slot is used again.\<close>

lemma storeField_pointees:
  assumes "memory_ok p" "storable (p_kind p) f"
  shows "pointees (storeField p f) + replaced [f] (pointees p) = add_mset (Field_object f) (pointees p)"
proof -
  have "typed_slots p" "slots_of_kind p" using assms(1) by (simp_all add: memory_ok_def)
  with assms(2) show ?thesis
    by (cases f; cases "p_kind p")
      (simp_all add: slots_of_kind_def storable_def storeField_defs pointees_def replaced_slots)
qed

lemma replaced_Cons:
  assumes "pointees q + replaced [f] (pointees p) = add_mset (Field_object f) (pointees p)"
  shows "replaced fs (pointees q) + objects (shadowed fs) + replaced [f] (pointees p) =
    replaced (f # fs) (pointees p) + objects (shadowed (f # fs))"
proof (rule multiset_eqI)
  fix x
  let ?n = "if typeid f \<in> typeid ` set fs \<and> x = Field_object f then 1 else 0 :: nat"
  have "count (replaced fs (pointees q)) x + count (replaced fs (replaced [f] (pointees p))) x =
      count (replaced fs (pointees p)) x + ?n"
    using arg_cong [OF assms, of "\<lambda>h. count (replaced fs h) x"] by (simp split: if_splits)
  moreover have "count (replaced fs (replaced [f] (pointees p))) x + count (replaced (f # fs) (pointees p)) x =
      count (replaced fs (pointees p)) x + count (replaced [f] (pointees p)) x"
    unfolding replaced_def by auto
  moreover have "count (objects (shadowed (f # fs))) x = count (objects (shadowed fs)) x + ?n"
    by simp
  ultimately show "count (replaced fs (pointees q) + objects (shadowed fs) + replaced [f] (pointees p)) x =
      count (replaced (f # fs) (pointees p) + objects (shadowed (f # fs))) x"
    unfolding count_union by linarith
qed

lemma stored_fields_simps [simp]:
  "stored_fields k d current 0 = []"
  "buildField k d current = Inl e \<Longrightarrow> stored_fields k d current remaining = []"
  "buildField k d current = Inr None \<Longrightarrow> stored_fields k d current remaining = []"
  "buildField k d current = Inr (Some (f, d')) \<Longrightarrow> 0 < remaining \<Longrightarrow>
     stored_fields k d current remaining =
       (if remaining < getLength f then []
        else f # stored_fields k d' (current + getLength f) (remaining - getLength f))"
  by (subst stored_fields.simps; simp)+

lemma scan_memory_simps:
  "scan_memory p current 0 h = (Inr p, h)"
  "0 < remaining \<Longrightarrow> buildField (p_kind p) (p_data p) current = Inl e \<Longrightarrow>
     scan_memory p current remaining h = (Inl e, h)"
  "buildField (p_kind p) (p_data p) current = Inr None \<Longrightarrow> scan_memory p current remaining h = (Inr p, h)"
  "buildField (p_kind p) (p_data p) current = Inr (Some (f, p_data p)) \<Longrightarrow> 0 < remaining \<Longrightarrow>
     scan_memory p current remaining h =
       (if remaining < getLength f then (Inr p, h)
        else scan_memory (storeField p f) (current + getLength f) (remaining - getLength f)
          (add_mset (Field_object f) h))"
  by (subst scan_memory.simps;
      simp add: packet_data_same Let_def delete_object_def liftS_def bindS_def)+

text \<open>The scan with allocations is the scan, and what it allocates is in the packet or has been replaced.\<close>

lemma scan_memory_spec:
  assumes "memory_ok p"
  shows "case scan_loop p current remaining of
      Inl e \<Rightarrow> fst (scan_memory p current remaining (pointees p + h)) = Inl e
    | Inr q \<Rightarrow> memory_ok q \<and> p_kind q = p_kind p \<and> p_dataSize q = p_dataSize p \<and>
        scan_memory p current remaining (pointees p + h) =
          (Inr q, pointees q + replaced (stored_fields (p_kind p) (p_data p) current remaining) (pointees p) +
            objects (shadowed (stored_fields (p_kind p) (p_data p) current remaining)) + h)"
  using assms
proof (induction p current remaining arbitrary: h rule: scan_loop_induct)
  case (step p current remaining f)
  let ?q = "storeField p f"
    and ?fs = "stored_fields (p_kind p) (p_data p) (current + getLength f) (remaining - getLength f)"
  have storable: "storable (p_kind p) f" by (rule buildField_storable [OF step(2)])
  note keep = storeField_pointees [OF step(6) storable]
  have scan: "scan_memory p current remaining (pointees p + h) =
      scan_memory ?q (current + getLength f) (remaining - getLength f) (pointees ?q + (replaced [f] (pointees p) + h))"
    using step(1,2,4) keep by (simp add: scan_memory_simps add.assoc [symmetric])
  have move: "X + replaced ?fs (pointees ?q) + objects (shadowed ?fs) + (replaced [f] (pointees p) + h) =
      X + replaced (f # ?fs) (pointees p) + objects (shadowed (f # ?fs)) + h" for X
    using arg_cong [OF replaced_Cons [OF keep, of ?fs], of "\<lambda>Y. X + Y + h"] by (simp only: add.assoc)
  have fs: "stored_fields (p_kind p) (p_data p) current remaining = f # ?fs"
    and loop: "scan_loop p current remaining = scan_loop ?q (current + getLength f) (remaining - getLength f)"
    using step(1,2,4) by (simp_all add: scan_loop_simps)
  note IH = step(5) [OF storeField_memory_ok [OF step(6) storable], of "replaced [f] (pointees p) + h"]
  show ?case
  proof (cases "scan_loop ?q (current + getLength f) (remaining - getLength f)")
    case (Inl e)
    with IH show ?thesis by (simp only: scan loop sum.case)
  next
    case (Inr q)
    with IH show ?thesis by (simp only: scan loop fs sum.case move storeField_frame)
  qed
qed (simp_all add: scan_loop_simps scan_memory_simps)

section \<open>Received packets\<close>

definition kind_of_type :: "byte \<Rightarrow> packet_kind option" where
  "kind_of_type ty =
     (if ty = AMBE3K_TYPE_CONTROL then Some ControlPacket
      else if ty = AMBE3K_TYPE_AUDIO then Some SpeechPacket
      else if ty = AMBE3K_TYPE_AMBE then Some ChannelPacket
      else None)"

definition scanned :: "bytes \<Rightarrow> field list" where
  "scanned d =
     (case kind_of_type (d ! 3) of
        None \<Rightarrow> []
      | Some k \<Rightarrow> stored_fields k d 4 (length d - 4))"

lemma frees_all: "frees m X \<Longrightarrow> m (X + h) = (Inr (), h)"
  by (simp add: frees_def)

lemma parse_as_memory_spec:
  assumes "parse_as_memory k d sz {#Buffer#} = (r, h)"
  shows "r = parse_as k d sz \<and>
    (case r of
       Inl e \<Rightarrow> True
     | Inr None \<Rightarrow> h = objects (shadowed (stored_fields k d 4 (sz - 4)))
     | Inr (Some p) \<Rightarrow> delete_parsed p h = (Inr (), objects (shadowed (stored_fields k d 4 (sz - 4)))))"
proof (cases "Packet_around k d sz")
  case (Inr p)
  let ?lost = "objects (shadowed (stored_fields k d 4 (sz - 4)))"
  have p: "memory_ok p" "pointees p = {#Buffer#}" using memory_ok_fresh [OF Inr] by simp_all
  have k: "p_kind p = k" "p_data p = d" "p_dataSize p = sz"
    using Inr by (auto simp: Packet_around_def split: if_splits)
  from scan_memory_spec [OF p(1), of 4 "sz - 4" "{#}"]
  have scan: "case scan_loop p 4 (sz - 4) of
      Inl e \<Rightarrow> fst (scan_memory p 4 (sz - 4) {#Buffer#}) = Inl e
    | Inr q \<Rightarrow> memory_ok q \<and> scan_memory p 4 (sz - 4) {#Buffer#} = (Inr q, pointees q + ?lost)"
    by (simp add: p(2) k split: sum.splits)
  show ?thesis
  proof (cases "scan_loop p 4 (sz - 4)")
    case (Inl e)
    with scan Inr assms show ?thesis
      by (auto simp: parse_as_memory_def parse_as_def scanFields_def k bindS_def liftS_def split: prod.splits)
  next
    case (Inr q)
    with scan have q: "memory_ok q" "scan_memory p 4 (sz - 4) {#Buffer#} = (Inr q, pointees q + ?lost)"
      by simp_all
    from q(1) have "delete_parsed q (pointees q + ?lost) = (Inr (), ?lost)"
      by (intro frees_all frees_parsed) (simp add: memory_ok_def)
    with q(2) Inr \<open>Packet_around k d sz = Inr p\<close> assms show ?thesis
      by (cases "isChecksumValid q")
        (auto simp: parse_as_memory_def parse_as_def scanFields_def k bindS_def liftS_def split: if_splits)
  qed
qed (use assms in \<open>auto simp: parse_as_memory_def parse_as_def bindS_def liftS_def\<close>)

lemma parse_by_kind:
  assumes "get_byte d 3 = Inr ty"
  shows "parse d sz = (case kind_of_type ty of None \<Rightarrow> Inr None | Some k \<Rightarrow> parse_as k d sz)"
    and "parse_memory d sz h =
      (case kind_of_type ty of None \<Rightarrow> (Inr None, h) | Some k \<Rightarrow> parse_as_memory k d sz h)"
    and "d ! 3 = ty"
  using assms by (auto simp: parse_def parse_memory_def kind_of_type_def liftS_def bindS_def get_byte_def
      split: if_splits)

text \<open>C8: Whatever bytes a packet is parsed from, the allocations of parsing do not change its result, and
  to delete the packet that results, or the one that was dropped for its checksum, deletes nothing
  twice. What stays allocated are exactly the fields that a later field of their type has replaced,
  so nothing if no type comes twice; of a packet of unknown type the buffer stays.\<close>

theorem packet_memory:
  assumes "parse_memory d (length d) {#Buffer#} = (r, h)"
  shows "r = parse d (length d) \<and>
    (case r of
       Inl e \<Rightarrow> True
     | Inr None \<Rightarrow> h = (if kind_of_type (d ! 3) = None then {#Buffer#} else objects (shadowed (scanned d)))
     | Inr (Some p) \<Rightarrow> delete_parsed p h = (Inr (), objects (shadowed (scanned d)))) \<and>
    (objects (shadowed (scanned d)) = {#} \<longleftrightarrow> distinct (map typeid (scanned d)))"
    (is "_ \<and> ?freed \<and> ?none")
proof -
  have ?none by (simp add: shadowed_distinct [symmetric] objects_def)
  moreover have "r = parse d (length d) \<and> ?freed"
  proof (cases "get_byte d 3")
    case (Inl e)
    with assms show ?thesis by (auto simp: parse_memory_def parse_def bindS_def liftS_def)
  next
    case (Inr ty)
    show ?thesis
    proof (cases "kind_of_type ty")
      case None
      with assms show ?thesis by (auto simp: parse_by_kind [OF Inr])
    next
      case (Some k)
      with assms have memory: "parse_as_memory k d (length d) {#Buffer#} = (r, h)" by (simp add: parse_by_kind(2) [OF Inr])
      have scanned: "scanned d = stored_fields k d 4 (length d - 4)"
        using Some by (simp add: parse_by_kind(3) [OF Inr] scanned_def)
      have "parse d (length d) = parse_as k d (length d)" "kind_of_type (d ! 3) \<noteq> None"
        using Some by (simp_all add: parse_by_kind [OF Inr])
      with parse_as_memory_spec [OF memory] show ?thesis
        unfolding scanned by (auto split: sum.splits option.splits)
    qed
  qed
  ultimately show ?thesis by blast
qed

text \<open>Two ready fields in one packet: the first is lost.\<close>

theorem packet_memory_witness:
  "\<exists>p h. parse_memory [0x61, 0, 2, 0, 0x39, 0x39] 6 {#Buffer#} = (Inr (Some p), h) \<and>
     delete_parsed p h = (Inr (), {#Field_object (ReadyField 4)#})"
proof -
  let ?d = "[0x61, 0, 2, 0, 0x39, 0x39] :: bytes"
  have len: "length ?d = 6" by simp
  obtain r h where m: "parse_memory ?d (length ?d) {#Buffer#} = (r, h)" by fastforce
  have "map_option p_kind (case_sum Map.empty id (parse ?d (length ?d))) = Some ControlPacket" by code_simp
  then obtain p where "parse ?d (length ?d) = Inr (Some p)" by (auto split: sum.splits)
  moreover have "scanned ?d = [ReadyField 4, ReadyField 5]" by code_simp
  ultimately show ?thesis using packet_memory [OF m] m unfolding len by auto
qed

section \<open>Requests\<close>

lemma frees_SetupRequest:
  assumes "p_chanD p = None" "p_speechD p = None"
  shows "frees (SetupRequest_destructor p) (pointees p)"
proof -
  note f = frees_ControlPacket [of p]
  have "frees (SetupRequest_destructor p) (held (p_channel p) + (held (p_request p) + (held (p_init p) +
      (held (p_ready p) + (held (p_prodid p) + (held (p_version p) +
     (held (p_channelResponse p) + (held (p_ratePResponse p) + (held (p_rateTResponse p) +
     (held (p_initResponse p) + ({#Buffer#} + held (p_checksum p))))))))))))"
    unfolding SetupRequest_destructor_def by (intro frees_seq frees_field f)
  then show ?thesis using assms by (elim frees_same) (simp add: pointees_def)
qed

text \<open>The requests without a channel have destructors with the same body, that of one slot less.\<close>

lemma frees_simple_request:
  assumes "p_channel p = None" "p_init p = None" "p_chanD p = None" "p_speechD p = None"
  shows "frees (ResetPacket_destructor p) (pointees p)"
    and "frees (ProdIdRequest_destructor p) (pointees p)"
    and "frees (VersionStringRequest_destructor p) (pointees p)"
proof -
  have "bindS (liftS (Inr ())) (\<lambda>_. m) = m" for m :: "(heap, unit) operation"
    by (simp add: fun_eq_iff)
  then have "SetupRequest_destructor p = ResetPacket_destructor p"
    using assms(1,2) by (simp add: SetupRequest_destructor_def ResetPacket_destructor_def)
  with frees_SetupRequest [OF assms(3,4)]
  show "frees (ResetPacket_destructor p) (pointees p)" "frees (ProdIdRequest_destructor p) (pointees p)"
    "frees (VersionStringRequest_destructor p) (pointees p)"
    by (simp_all add: ResetPacket_destructor_def ProdIdRequest_destructor_def VersionStringRequest_destructor_def)
qed

lemma Packet_new_slots:
  "Packet_new k sz ty = Inr p \<Longrightarrow> p_kind p = k \<and> slots_of_kind p \<and> p_channel p = None \<and> p_chanD p = None \<and>
     p_speechD p = None \<and> p_init p = None"
  by (auto simp: Packet_new_def Packet_alloc_def Packet_around_def slots_of_kind_def split: if_splits)

text \<open>Every packet that is built to be sent is freed as a whole by its destructor.\<close>

lemma requests_freed:
  "ResetPacket = Inr p \<Longrightarrow> frees (ResetPacket_destructor p) (pointees p)"
  "ProdIdRequest = Inr p \<Longrightarrow> frees (ProdIdRequest_destructor p) (pointees p)"
  "VersionStringRequest = Inr p \<Longrightarrow> frees (VersionStringRequest_destructor p) (pointees p)"
  "SetupRequest_index ch index dir = Inr p \<Longrightarrow> frees (SetupRequest_destructor p) (pointees p)"
  "SetupRequest_ratep ch cwds dir = Inr p \<Longrightarrow> frees (SetupRequest_destructor p) (pointees p)"
  "new_ChannelPacket ch cdata bits = Inr p \<Longrightarrow> frees (delete_parsed p) (pointees p)"
  "new_SpeechPacket ch sdata samples = Inr p \<Longrightarrow> frees (delete_parsed p) (pointees p)"
proof -
  show "ResetPacket = Inr p \<Longrightarrow> frees (ResetPacket_destructor p) (pointees p)"
    "ProdIdRequest = Inr p \<Longrightarrow> frees (ProdIdRequest_destructor p) (pointees p)"
    "VersionStringRequest = Inr p \<Longrightarrow> frees (VersionStringRequest_destructor p) (pointees p)"
    by (rule frees_simple_request; auto simp: request_defs dest: Packet_new_slots)+
  show "SetupRequest_index ch index dir = Inr p \<Longrightarrow> frees (SetupRequest_destructor p) (pointees p)"
    "SetupRequest_ratep ch cwds dir = Inr p \<Longrightarrow> frees (SetupRequest_destructor p) (pointees p)"
    by (rule frees_SetupRequest; auto simp: request_defs Let_def dest: Packet_new_slots split: if_splits)+
  show "new_ChannelPacket ch cdata bits = Inr p \<Longrightarrow> frees (delete_parsed p) (pointees p)"
    "new_SpeechPacket ch sdata samples = Inr p \<Longrightarrow> frees (delete_parsed p) (pointees p)"
    by (rule frees_parsed; auto simp: new_ChannelPacket_def new_SpeechPacket_def Let_def slots_of_kind_def
        dest!: Packet_new_slots)+
qed

end
