(* ===== verification/Device_Memory.thy ===== *)
theory Device_Memory
  imports "HOL-Library.Multiset" Ambe_Device
begin

text \<open>
  The packets that a device holds in memory: those in the queues of its channels
  (\<^verbatim>\<open>src/modules/ambe3k/channel.cpp\<close>) and in the queue of the device (\<^verbatim>\<open>ambe3kdevice.cpp\<close>), and the
  destructors. The heap is the multiset of the packets that are allocated. A queue holds pointers,
  and \<^verbatim>\<open>~BlockingQueue\<close> does not delete what they point to.
\<close>

section \<open>Channels with their packets\<close>

type_synonym packet_heap = "packet multiset"

text \<open>\<^verbatim>\<open>Channel::receive\<close> takes over a packet that is allocated.\<close>

definition receive_memory :: "packet \<Rightarrow> chan \<times> packet_heap \<Rightarrow> chan \<times> packet_heap" where
  "receive_memory p s =
     (case s of (c, h) \<Rightarrow>
       (case ch_outQueue c of
          None \<Rightarrow> (c, h - {#p#})
        | Some q \<Rightarrow>
            (case push q p False of
               Push_returns q' \<Rightarrow> (c\<lparr>ch_outQueue := Some q'\<rparr>, h)
             | Push_throws \<Rightarrow> (c\<lparr>ch_outQueue := None\<rparr>, h - {#p#})
             | Push_waits \<Rightarrow> (c, h))))"

definition read_memory :: "chan \<times> packet_heap \<Rightarrow> (error + bytes) \<times> chan \<times> packet_heap" where
  "read_memory s =
     (case s of (c, h) \<Rightarrow>
       (case ch_outQueue c of
          None \<Rightarrow> (Inr [], c, h)
        | Some q \<Rightarrow>
            (case pop q of
               Pop_waits \<Rightarrow> (Inl Waits, c, h)
             | Pop_null \<Rightarrow> (Inr [], c, h)
             | Pop_returns p q' \<Rightarrow> (packet_output p, c\<lparr>ch_outQueue := Some q'\<rparr>, h - {#p#}))))"

text \<open>The destructor of a channel releases it, that of a device destroys its queue and its channels.\<close>

definition Channel_destructor :: "chan \<Rightarrow> chan" where
  "Channel_destructor c = release c"

definition Device_destructor :: "ambe_device \<Rightarrow> ambe_device" where
  "Device_destructor d =
     d\<lparr>dv_queue := close_queue (dv_queue d), dv_channels := map Channel_destructor (dv_channels d)\<rparr>"

text \<open>These are the operations of \<^verbatim>\<open>Ambe_Channel\<close> with a heap beside them.\<close>

lemma receive_memory_channel: "fst (receive_memory p (c, h)) = channel_receive p c"
  by (simp add: receive_memory_def channel_receive_def split: option.split push_outcome.split)

lemma read_memory_channel:
  "fst (read_memory (c, h)) = fst (channel_read c) \<and> fst (snd (read_memory (c, h))) = snd (channel_read c)"
  by (simp add: read_memory_def channel_read_def packet_output_def split: option.split pop_outcome.split)

section \<open>What is lost\<close>

text \<open>A packet is handed over by the worker, which has allocated it.\<close>

definition arrive :: "packet \<Rightarrow> chan \<times> packet_heap \<Rightarrow> chan \<times> packet_heap" where
  "arrive p s = receive_memory p (fst s, add_mset p (snd s))"

primrec read_times :: "nat \<Rightarrow> chan \<times> packet_heap \<Rightarrow> chan \<times> packet_heap" where
  "read_times 0 s = s"
| "read_times (Suc n) s = read_times n (snd (read_memory s))"

definition release_memory :: "chan \<times> packet_heap \<Rightarrow> chan \<times> packet_heap" where
  "release_memory s = (release (fst s), snd s)"

lemma arrive_closed: "ch_outQueue c = None \<Longrightarrow> fold arrive ps (c, h) = (c, h)"
  by (induction ps) (simp_all add: arrive_def receive_memory_def)

lemma arrive_all:
  assumes "ch_outQueue c = Some q" "queue_open q" "queue_capacity q = n" "length (bq_items q) \<le> n"
  shows "fold arrive ps (c, h) =
    (if length (bq_items q) + length ps \<le> n
     then (c\<lparr>ch_outQueue := Some (q\<lparr>bq_items := bq_items q @ ps\<rparr>)\<rparr>, h + mset ps)
     else (c\<lparr>ch_outQueue := None\<rparr>, h + mset (take (n - length (bq_items q)) ps)))"
  using assms
proof (induction ps arbitrary: c q h)
  case Nil
  then show ?case by (cases c; cases q) simp
next
  case (Cons p ps)
  have push: "push q p False =
      (if length (bq_items q) < n then Push_returns (q\<lparr>bq_items := bq_items q @ [p]\<rparr>) else Push_throws)"
    using full_iff [OF Cons.prems(2)] Cons.prems(3) by (simp add: push_def)
  show ?case
  proof (cases "length (bq_items q) < n")
    case True
    let ?q = "q\<lparr>bq_items := bq_items q @ [p]\<rparr>"
    have "arrive p (c, h) = (c\<lparr>ch_outQueue := Some ?q\<rparr>, add_mset p h)"
      using True Cons.prems(1) by (simp add: arrive_def receive_memory_def push)
    moreover have "queue_open ?q" "queue_capacity ?q = n" "length (bq_items ?q) \<le> n"
      using True Cons.prems(2,3) by (simp_all add: queue_open_def queue_capacity_def)
    moreover obtain k where "n - length (bq_items q) = Suc k" "n - length (bq_items ?q) = k"
      using True by (cases "n - length (bq_items q)") auto
    ultimately show ?thesis
      using Cons.IH [of "c\<lparr>ch_outQueue := Some ?q\<rparr>" ?q "add_mset p h"] True by auto
  next
    case False
    then have "arrive p (c, h) = (c\<lparr>ch_outQueue := None\<rparr>, h)"
      using Cons.prems(1) by (simp add: arrive_def receive_memory_def push)
    with False Cons.prems(4) show ?thesis by (simp add: arrive_closed)
  qed
qed

lemma read_times_closed: "ch_outQueue c = None \<Longrightarrow> read_times n (c, h) = (c, h)"
  by (induction n) (simp_all add: read_memory_def)

lemma read_times_items:
  assumes "ch_outQueue c = Some q" "bq_run q" "n \<le> length (bq_items q)"
  shows "read_times n (c, mset (bq_items q) + h) =
    (c\<lparr>ch_outQueue := Some (q\<lparr>bq_items := drop n (bq_items q)\<rparr>)\<rparr>, mset (drop n (bq_items q)) + h)"
  using assms
proof (induction n arbitrary: c q)
  case 0
  then show ?case by (cases c; cases q) simp
next
  case (Suc n)
  then obtain p ps where ps: "bq_items q = p # ps" by (cases "bq_items q") auto
  with Suc have "read_memory (c, mset (bq_items q) + h) =
      (packet_output p, c\<lparr>ch_outQueue := Some (q\<lparr>bq_items := ps\<rparr>)\<rparr>, mset ps + h)"
    by (simp add: read_memory_def pop_def)
  with Suc.IH [of "c\<lparr>ch_outQueue := Some (q\<lparr>bq_items := ps\<rparr>)\<rparr>" "q\<lparr>bq_items := ps\<rparr>"] Suc.prems ps
  show ?case by simp
qed

text \<open>C15: A session that ends loses the memory of every packet that has arrived and has not been read: after
  \<open>n\<close> reads of \<open>length ps \<le> 10\<close> packets the rest stays allocated for good. If more than ten packets are
  unread the first ten stay allocated as well, whatever is read afterwards.\<close>

theorem session_loses_unread:
  assumes "n \<le> length ps"
  shows "release_memory (read_times n (fold arrive ps (reserve c, {#}))) =
    (if length ps \<le> 10 then (c\<lparr>ch_busy := False, ch_outQueue := None\<rparr>, mset (drop n ps))
     else (c\<lparr>ch_busy := False, ch_outQueue := None\<rparr>, mset (take 10 ps)))"
proof -
  let ?q = "new_BlockingQueue 10 :: packet bqueue"
  have q: "ch_outQueue (reserve c) = Some ?q" "queue_open ?q" "queue_capacity ?q = 10" "bq_items ?q = []"
    by (simp_all add: reserve_def queue_open_def queue_capacity_def)
  note arrived = arrive_all [OF q(1-3), of ps "{#}"]
  show ?thesis
  proof (cases "length ps \<le> 10")
    case True
    with arrived have "fold arrive ps (reserve c, {#}) =
        ((reserve c)\<lparr>ch_outQueue := Some (?q\<lparr>bq_items := ps\<rparr>)\<rparr>, mset ps)" by (simp add: q(4))
    with read_times_items [of "(reserve c)\<lparr>ch_outQueue := Some (?q\<lparr>bq_items := ps\<rparr>)\<rparr>" "?q\<lparr>bq_items := ps\<rparr>" n "{#}"]
      assms True show ?thesis by (simp add: release_memory_def release_def reserve_def)
  next
    case False
    with arrived have "fold arrive ps (reserve c, {#}) = ((reserve c)\<lparr>ch_outQueue := None\<rparr>, mset (take 10 ps))"
      by (simp add: q(4))
    with False show ?thesis
      by (simp add: read_times_closed release_memory_def release_def reserve_def)
  qed
qed

theorem session_loses_unread_witness:
  "snd (release_memory (read_times 1 (fold arrive [blank_packet ChannelPacket [], blank_packet SpeechPacket []]
     (reserve (new_Channel 0), {#})))) = {#blank_packet SpeechPacket []#}"
  using session_loses_unread [of 1 "[blank_packet ChannelPacket [], blank_packet SpeechPacket []]" "new_Channel 0"]
  by simp

text \<open>A device that is destroyed leaves the packets of its own queue, and its channels are released.\<close>

lemma Device_destructor_waits:
  "dv_queue (Device_destructor d) = close_queue (dv_queue d) \<and>
   list_all (\<lambda>c. \<not> isBusy c \<and> ch_outQueue c = None) (dv_channels (Device_destructor d))"
  by (simp add: Device_destructor_def Channel_destructor_def release_def isBusy_def list_all_iff)

end
