(* ===== verification/Proto_Messages.thy ===== *)
theory Proto_Messages
  imports Connection Ambe_Device Std_Map
begin

text \<open>
  The messages of \<^verbatim>\<open>src/lib/proto/*.proto\<close> in the encoding that protobuf documents: a message is a
  sequence of records of a field number and a value, a number is a varint of seven bits per byte,
  fields with their default values are left out. This is an instance of the parameter that
  \<^verbatim>\<open>Connection\<close> has for the protobuf library, for every message of the protocol; field numbers and
  types are those of the \<^verbatim>\<open>.proto\<close> files. That strings have to be UTF-8 is not checked.
\<close>

section \<open>Numbers\<close>

fun varint :: "nat \<Rightarrow> bytes" where
  "varint n = (if n < 128 then [of_nat n] else of_nat (128 + n mod 128) # varint (n div 128))"

declare varint.simps [simp del]

text \<open>A number of at most \<open>k\<close> bytes, and what is behind it.\<close>

fun read_varint :: "nat \<Rightarrow> bytes \<Rightarrow> (nat \<times> bytes) option" where
  "read_varint 0 bs = None"
| "read_varint (Suc k) [] = None"
| "read_varint (Suc k) (b # bs) =
     (if unat b < 128 then Some (unat b, bs)
      else map_option (\<lambda>(n, rest). (unat b - 128 + 128 * n, rest)) (read_varint k bs))"

lemma unat_byte: "n < 256 \<Longrightarrow> unat (of_nat n :: byte) = n"
  by (simp add: unsigned_of_nat take_bit_nat_eq_self)

lemma unat_high_byte: "n < 128 \<Longrightarrow> unat (128 + of_nat n :: byte) = 128 + n"
  using unat_byte [of "128 + n"] by simp

lemma read_varint: "n < 128 ^ Suc k \<Longrightarrow> read_varint (Suc k) (varint n @ rest) = Some (n, rest)"
proof (induction k arbitrary: n)
  case 0
  then show ?case by (subst varint.simps) (simp add: unat_byte)
next
  case (Suc k)
  show ?case
  proof (cases "n < 128")
    case True
    then show ?thesis by (subst varint.simps) (simp add: unat_byte)
  next
    case False
    have "n mod 128 < 128" by simp
    moreover have "n div 128 < 128 ^ Suc k" using Suc.prems by (simp add: less_mult_imp_div_less)
    ultimately show ?thesis
      using False Suc.IH [of "n div 128"] by (subst varint.simps) (simp add: unat_high_byte)
  qed
qed

lemma read_varint_Nil [simp]: "read_varint k [] = None"
  by (cases k) simp_all

lemma varint_not_Nil [simp]: "varint n \<noteq> []"
  by (subst varint.simps) simp

lemma read_varint_shorter: "read_varint k bs = Some (n, rest) \<Longrightarrow> length rest < length bs"
  by (induction k bs arbitrary: n rest rule: read_varint.induct) (fastforce split: if_splits)+

text \<open>Ten bytes hold any number of 64 bits.\<close>

lemma read_varint64: "n < 2 ^ 64 \<Longrightarrow> read_varint 10 (varint n @ rest) = Some (n, rest)"
  using read_varint [of n 9] by simp

section \<open>Records\<close>

datatype wire_value = Varint nat | Fixed64 bytes | Chunk bytes | Fixed32 bytes

type_synonym wire_record = "nat \<times> wire_value"

fun put_record :: "wire_record \<Rightarrow> bytes" where
  "put_record (field, Varint n) = varint (8 * field) @ varint n"
| "put_record (field, Fixed64 bs) = varint (8 * field + 1) @ bs"
| "put_record (field, Chunk bs) = varint (8 * field + 2) @ varint (length bs) @ bs"
| "put_record (field, Fixed32 bs) = varint (8 * field + 5) @ bs"

definition put_records :: "wire_record list \<Rightarrow> bytes" where
  "put_records rs = concat (map put_record rs)"

definition split_bytes :: "nat \<Rightarrow> bytes \<Rightarrow> (bytes \<times> bytes) option" where
  "split_bytes n bs = (if n \<le> length bs then Some (take n bs, drop n bs) else None)"

definition get_value :: "nat \<Rightarrow> bytes \<Rightarrow> (wire_value \<times> bytes) option" where
  "get_value wire_type bs =
     (if wire_type = 0 then map_option (\<lambda>(n, rest). (Varint (n mod 2 ^ 64), rest)) (read_varint 10 bs)
      else if wire_type = 1 then map_option (\<lambda>(b, rest). (Fixed64 b, rest)) (split_bytes 8 bs)
      else if wire_type = 2 then
        Option.bind (read_varint 10 bs) (\<lambda>(n, rest).
          map_option (\<lambda>(b, rest). (Chunk b, rest)) (split_bytes n rest))
      else if wire_type = 5 then map_option (\<lambda>(b, rest). (Fixed32 b, rest)) (split_bytes 4 bs)
      else None)"

definition get_record :: "bytes \<Rightarrow> (wire_record \<times> bytes) option" where
  "get_record bs =
     Option.bind (read_varint 10 bs) (\<lambda>(tag, rest).
       if tag div 8 = 0 then None
       else map_option (\<lambda>(v, rest). ((tag div 8, v), rest)) (get_value (tag mod 8) rest))"

lemma get_value_shorter: "get_value t bs = Some (v, rest) \<Longrightarrow> length rest \<le> length bs"
  by (fastforce simp: get_value_def split_bytes_def bind_eq_Some_conv dest: read_varint_shorter
      split: if_splits)

lemma get_record_shorter: "get_record bs = Some (r, rest) \<Longrightarrow> length rest < length bs"
  by (fastforce simp: get_record_def bind_eq_Some_conv dest: read_varint_shorter get_value_shorter
      split: if_splits)

text \<open>The records of a message up to one that cannot be read, and whether there is none such.\<close>

function get_records :: "bytes \<Rightarrow> bool \<times> wire_record list" where
  "get_records bs =
     (if bs = [] then (True, [])
      else case get_record bs of
          None \<Rightarrow> (False, [])
        | Some (r, rest) \<Rightarrow> (case get_records rest of (ok, rs) \<Rightarrow> (ok, r # rs)))"
  by pat_completeness auto
termination
  by (relation "measure length") (auto dest: get_record_shorter)

declare get_records.simps [simp del]

fun record_ok :: "wire_record \<Rightarrow> bool" where
  "record_ok (field, Varint n) \<longleftrightarrow> 0 < field \<and> field < 2 ^ 29 \<and> n < 2 ^ 64"
| "record_ok (field, Chunk bs) \<longleftrightarrow> 0 < field \<and> field < 2 ^ 29 \<and> length bs < 2 ^ 64"
| "record_ok (field, Fixed64 bs) \<longleftrightarrow> 0 < field \<and> field < 2 ^ 29 \<and> length bs = 8"
| "record_ok (field, Fixed32 bs) \<longleftrightarrow> 0 < field \<and> field < 2 ^ 29 \<and> length bs = 4"

lemma tag_simps:
  "Suc (8 * f) div 8 = f" "Suc (8 * f) mod 8 = 1" "Suc (Suc (8 * f)) div 8 = f" "Suc (Suc (8 * f)) mod 8 = 2"
  for f :: nat by presburger+

lemma get_put_record: "record_ok r \<Longrightarrow> get_record (put_record r @ rest) = Some (r, rest)"
  by (cases r rule: record_ok.cases)
    (simp_all add: get_record_def get_value_def split_bytes_def read_varint64 tag_simps)

lemma put_record_not_Nil [simp]: "put_record r \<noteq> []"
  by (cases r rule: put_record.cases) simp_all

theorem get_put_records: "list_all record_ok rs \<Longrightarrow> get_records (put_records rs) = (True, rs)"
proof (induction rs)
  case Nil
  then show ?case by (subst get_records.simps) (simp add: put_records_def)
next
  case (Cons r rs)
  then have "get_record (put_records (r # rs)) = Some (r, put_records rs)"
    by (simp add: put_records_def get_put_record)
  moreover have "put_records (r # rs) \<noteq> []" by (simp add: put_records_def)
  ultimately show ?case using Cons by (subst get_records.simps) simp
qed

section \<open>Fields of a message\<close>

text \<open>A field with its default value is left out; a message that is a field is a chunk of its records.\<close>

definition number_field :: "nat \<Rightarrow> nat \<Rightarrow> wire_record list" where
  "number_field field n = (if n = 0 then [] else [(field, Varint n)])"

definition bytes_field :: "nat \<Rightarrow> bytes \<Rightarrow> wire_record list" where
  "bytes_field field bs = (if bs = [] then [] else [(field, Chunk bs)])"

definition string_field :: "nat \<Rightarrow> string \<Rightarrow> wire_record list" where
  "string_field field s = bytes_field field (ascii s)"

definition message_field :: "nat \<Rightarrow> wire_record list \<Rightarrow> wire_record list" where
  "message_field field rs = [(field, Chunk (put_records rs))]"

text \<open>
  Reading: of a field that is there several times the last value counts, several chunks of one
  message are merged, and records of other fields are passed over.
\<close>

primrec numbers_of :: "wire_value \<Rightarrow> nat list" where
  "numbers_of (Varint n) = [n]"
| "numbers_of (Fixed64 bs) = []"
| "numbers_of (Chunk bs) = []"
| "numbers_of (Fixed32 bs) = []"

primrec chunks_of :: "wire_value \<Rightarrow> bytes list" where
  "chunks_of (Varint n) = []"
| "chunks_of (Fixed64 bs) = []"
| "chunks_of (Chunk bs) = [bs]"
| "chunks_of (Fixed32 bs) = []"

definition field_values :: "nat \<Rightarrow> wire_record list \<Rightarrow> wire_value list" where
  "field_values field rs = map snd (filter (\<lambda>r. fst r = field) rs)"

definition chunks :: "nat \<Rightarrow> wire_record list \<Rightarrow> bytes list" where
  "chunks field rs = concat (map chunks_of (field_values field rs))"

definition get_number :: "nat \<Rightarrow> wire_record list \<Rightarrow> nat" where
  "get_number field rs = last (0 # concat (map numbers_of (field_values field rs)))"

definition get_bytes :: "nat \<Rightarrow> wire_record list \<Rightarrow> bytes" where
  "get_bytes field rs = last ([] # chunks field rs)"

definition text_of :: "bytes \<Rightarrow> string" where
  "text_of bs = map (\<lambda>b. char_of (unat b)) bs"

definition get_string :: "nat \<Rightarrow> wire_record list \<Rightarrow> string" where
  "get_string field rs = text_of (get_bytes field rs)"

definition get_message :: "nat \<Rightarrow> wire_record list \<Rightarrow> wire_record list" where
  "get_message field rs = snd (get_records (concat (chunks field rs)))"

function read_packed :: "bytes \<Rightarrow> nat list" where
  "read_packed bs =
     (case read_varint 10 bs of None \<Rightarrow> [] | Some (n, rest) \<Rightarrow> n mod 2 ^ 64 # read_packed rest)"
  by pat_completeness auto
termination
  by (relation "measure length") (auto dest: read_varint_shorter)

declare read_packed.simps [simp del]

primrec repeated_of :: "wire_value \<Rightarrow> nat list" where
  "repeated_of (Varint n) = [n]"
| "repeated_of (Fixed64 bs) = []"
| "repeated_of (Chunk bs) = read_packed bs"
| "repeated_of (Fixed32 bs) = []"

section \<open>The messages\<close>

definition framing_fields :: "framing_hint \<Rightarrow> wire_record list" where
  "framing_fields fr = number_field 1 (fr_channelBits fr) @ number_field 2 (fr_channelBytes fr) @
     number_field 3 (fr_audioSamples fr) @ number_field 4 (fr_audioBytes fr)"

definition framing_of :: "wire_record list \<Rightarrow> framing_hint" where
  "framing_of rs = \<lparr>fr_channelBits = get_number 1 rs mod 2 ^ 32, fr_channelBytes = get_number 2 rs mod 2 ^ 32,
     fr_audioSamples = get_number 3 rs mod 2 ^ 32, fr_audioBytes = get_number 4 rs mod 2 ^ 32\<rparr>"

text \<open>An entry of the map \<^verbatim>\<open>args\<close> is a message of a key and a value; directions are packed.\<close>

definition entry_fields :: "string \<Rightarrow> string \<Rightarrow> wire_record list" where
  "entry_fields k v = [(1, Chunk (ascii k)), (2, Chunk (ascii v))]"

definition args_list :: "(string \<rightharpoonup> string) \<Rightarrow> string list" where
  "args_list args = sorted_list_of_set (dom args)"

definition direction_number :: "int \<Rightarrow> nat" where
  "direction_number dir = unat (word_of_int dir :: 64 word)"

definition direction_of :: "nat \<Rightarrow> int" where
  "direction_of n = sint (word_of_nat n :: 32 word)"

definition settings_fields :: "settings \<Rightarrow> wire_record list" where
  "settings_fields st =
     concat (map (\<lambda>k. message_field 1 (entry_fields k (the (st_args st k)))) (args_list (st_args st))) @
     bytes_field 2 (concat (map (\<lambda>dir. varint (direction_number dir)) (st_directions st)))"

definition put_entry :: "bytes \<Rightarrow> (string \<rightharpoonup> string) \<Rightarrow> (string \<rightharpoonup> string)" where
  "put_entry bs args = (let e = snd (get_records bs) in args(get_string 1 e \<mapsto> get_string 2 e))"

definition settings_of :: "wire_record list \<Rightarrow> settings" where
  "settings_of rs = \<lparr>st_directions = map direction_of (concat (map repeated_of (field_values 2 rs))),
     st_args = fold put_entry (chunks 1 rs) Map.empty\<rparr>"

primrec status_number :: "status \<Rightarrow> nat" where
  "status_number Status_OK = 0"
| "status_number Status_ERROR = 1"

definition response_fields :: "response \<Rightarrow> wire_record list" where
  "response_fields rs = number_field 1 (status_number (rs_result rs)) @ string_field 2 (rs_message rs) @
     (case rs_framing rs of None \<Rightarrow> [] | Some fr \<Rightarrow> message_field 3 (framing_fields fr))"

definition response_of :: "wire_record list \<Rightarrow> response" where
  "response_of rs = \<lparr>rs_result = (if get_number 1 rs = 0 then Status_OK else Status_ERROR),
     rs_message = get_string 2 rs,
     rs_framing = (if chunks 3 rs = [] then None else Some (framing_of (get_message 3 rs)))\<rparr>"

definition handshake_fields :: "string \<Rightarrow> string \<Rightarrow> 32 word \<Rightarrow> wire_record list" where
  [simp]: "handshake_fields serverName serverVersion protocolVersion =
     string_field 1 serverName @ string_field 2 serverVersion @ number_field 3 (unat protocolVersion)"

definition request_fields :: "string \<Rightarrow> settings \<Rightarrow> wire_record list" where
  [simp]: "request_fields codec st = string_field 1 codec @ message_field 3 (settings_fields st)"

definition renegotiation_fields :: "settings \<Rightarrow> wire_record list" where
  [simp]: "renegotiation_fields st = message_field 1 (settings_fields st)"

definition check_fields :: "string \<Rightarrow> wire_record list" where
  [simp]: "check_fields codec = string_field 1 codec"

definition data_fields :: "bytes \<Rightarrow> wire_record list" where
  [simp]: "data_fields bs = bytes_field 1 bs"

primrec message_fields :: "message \<Rightarrow> wire_record list" where
  "message_fields (Handshake name version proto) = handshake_fields name version proto"
| "message_fields (Request codec st) = request_fields codec st"
| "message_fields (Check codec) = check_fields codec"
| "message_fields (Renegotiation st) = renegotiation_fields st"
| "message_fields (Response r) = response_fields r"
| "message_fields (ChannelData bs) = data_fields bs"
| "message_fields (SpeechData bs) = data_fields bs"
| "message_fields Unknown_type = []"

primrec message_name :: "message \<Rightarrow> string" where
  "message_name (Handshake name version proto) = ''Handshake''"
| "message_name (Request codec st) = ''Request''"
| "message_name (Check codec) = ''Check''"
| "message_name (Renegotiation st) = ''Renegotiation''"
| "message_name (Response r) = ''Response''"
| "message_name (ChannelData bs) = ''ChannelData''"
| "message_name (SpeechData bs) = ''SpeechData''"
| "message_name Unknown_type = []"

definition message_of :: "string \<Rightarrow> wire_record list \<Rightarrow> message" where
  "message_of name rs =
     (if name = ''Handshake'' then
        Handshake (get_string 1 rs) (get_string 2 rs) (word_of_nat (get_number 3 rs))
      else if name = ''Request'' then Request (get_string 1 rs) (settings_of (get_message 3 rs))
      else if name = ''Check'' then Check (get_string 1 rs)
      else if name = ''Renegotiation'' then Renegotiation (settings_of (get_message 1 rs))
      else if name = ''Response'' then Response (response_of rs)
      else if name = ''ChannelData'' then ChannelData (get_bytes 1 rs)
      else if name = ''SpeechData'' then SpeechData (get_bytes 1 rs)
      else Unknown_type)"

text \<open>\<^verbatim>\<open>Any\<close>: the name of the message's type behind the last slash of an URL, and its records.\<close>

definition package :: string where
  "package = ''CodecServer.proto.''"

definition any_record :: "string \<Rightarrow> wire_record list \<Rightarrow> wire_record list" where
  "any_record name rs = string_field 1 (''type.googleapis.com/'' @ package @ name) @ bytes_field 2 (put_records rs)"

definition any_fields :: "message \<Rightarrow> wire_record list" where
  "any_fields m = any_record (message_name m) (message_fields m)"

definition any_of :: "wire_record list \<Rightarrow> message" where
  "any_of rs =
     (let name = rev (takeWhile (\<lambda>c. c \<noteq> CHR ''/'') (rev (get_string 1 rs))) in
      if take (length package) name = package
      then message_of (drop (length package) name) (snd (get_records (get_bytes 2 rs)))
      else Unknown_type)"

text \<open>The bytes of a check for the codec \<open>ambe\<close> and of an empty response.\<close>

lemma encoding_examples:
  "put_records (check_fields ''ambe'') = [0x0A, 0x04, 0x61, 0x6D, 0x62, 0x65]"
  "put_records (response_fields \<lparr>rs_result = Status_ERROR, rs_message = ''no'', rs_framing = None\<rparr>) =
     [0x08, 0x01, 0x12, 0x02, 0x6E, 0x6F]"
  "put_records (number_field 3 160) = [0x18, 0xA0, 0x01]"
  by code_simp+

section \<open>Reading back what was put\<close>

declare One_nat_def [simp del]

lemma field_values_simps [simp]:
  "field_values f [] = []"
  "field_values f (r # rs) = (if fst r = f then snd r # field_values f rs else field_values f rs)"
  "field_values f (rs @ rs') = field_values f rs @ field_values f rs'"
  "field_values f (number_field g n) = (if f = g \<and> n \<noteq> 0 then [Varint n] else [])"
  "field_values f (bytes_field g bs) = (if f = g \<and> bs \<noteq> [] then [Chunk bs] else [])"
  "field_values f (string_field g s) = (if f = g \<and> s \<noteq> [] then [Chunk (ascii s)] else [])"
  "field_values f (message_field g ms) = (if f = g then [Chunk (put_records ms)] else [])"
  by (auto simp: field_values_def number_field_def bytes_field_def string_field_def message_field_def ascii_def)

lemma text_of_ascii [simp]: "text_of (ascii s) = s"
proof -
  have "unat (of_nat (of_char c) :: byte) = of_char c" for c :: char
    by (rule unat_byte) simp
  then show ?thesis by (simp add: text_of_def ascii_def comp_def)
qed

lemma text_of_Nil [simp]: "text_of [] = []"
  by (simp add: text_of_def)

lemmas get_defs = get_number_def get_bytes_def get_string_def get_message_def chunks_def

text \<open>Records whose fields and numbers are in range are read back if they are not too long altogether.\<close>

fun in_range :: "wire_record \<Rightarrow> bool" where
  "in_range (field, Varint n) \<longleftrightarrow> 0 < field \<and> field < 2 ^ 29 \<and> n < 2 ^ 64"
| "in_range (field, Chunk bs) \<longleftrightarrow> 0 < field \<and> field < 2 ^ 29"
| "in_range _ \<longleftrightarrow> False"

lemma put_records_simps [simp]:
  "put_records [] = []"
  "put_records (r # rs) = put_record r @ put_records rs"
  by (simp_all add: put_records_def)

lemma get_put_in_range:
  assumes "list_all in_range rs" "length (put_records rs) < 2 ^ 64"
  shows "get_records (put_records rs) = (True, rs)"
proof (rule get_put_records)
  have "record_ok r" if "in_range r" "length (put_record r) < 2 ^ 64" for r
    using that by (cases r rule: record_ok.cases) auto
  with assms show "list_all record_ok rs" by (induction rs) auto
qed

lemma chunk_length: "(f, Chunk bs) \<in> set rs \<Longrightarrow> length bs \<le> length (put_records rs)"
  by (induction rs) auto

lemma in_range_fields:
  "0 < f \<Longrightarrow> f < 2 ^ 29 \<Longrightarrow> n < 2 ^ 64 \<Longrightarrow> list_all in_range (number_field f n)"
  "0 < f \<Longrightarrow> f < 2 ^ 29 \<Longrightarrow> list_all in_range (bytes_field f bs)"
  "0 < f \<Longrightarrow> f < 2 ^ 29 \<Longrightarrow> list_all in_range (string_field f s)"
  "0 < f \<Longrightarrow> f < 2 ^ 29 \<Longrightarrow> list_all in_range (message_field f rs)"
  by (simp_all add: number_field_def bytes_field_def string_field_def message_field_def)

text \<open>A message within a message.\<close>

lemma get_message_put:
  assumes "chunks f rs = [put_records inner]" "list_all in_range inner" "length (put_records rs) < 2 ^ 64"
  shows "get_message f rs = inner"
proof -
  have "put_records inner \<in> set (chunks f rs)" using assms(1) by simp
  then obtain v where v: "(f, v) \<in> set rs" "put_records inner \<in> set (chunks_of v)"
    by (auto simp: chunks_def field_values_def)
  then have "(f, Chunk (put_records inner)) \<in> set rs" by (cases v) auto
  from chunk_length [OF this] assms show ?thesis
    by (simp add: get_message_def get_put_in_range)
qed

subsection \<open>Framing and settings\<close>

definition framing_ok :: "framing_hint \<Rightarrow> bool" where
  "framing_ok fr \<longleftrightarrow> fr_channelBits fr < 2 ^ 32 \<and> fr_channelBytes fr < 2 ^ 32 \<and>
     fr_audioSamples fr < 2 ^ 32 \<and> fr_audioBytes fr < 2 ^ 32"

lemma framing_fields: "framing_ok fr \<Longrightarrow> framing_of (framing_fields fr) = fr"
  by (simp add: framing_of_def framing_fields_def framing_ok_def get_defs)

lemma framing_in_range: "framing_ok fr \<Longrightarrow> list_all in_range (framing_fields fr)"
  by (simp add: framing_fields_def framing_ok_def in_range_fields)

definition settings_ok :: "settings \<Rightarrow> bool" where
  "settings_ok st \<longleftrightarrow> finite (dom (st_args st)) \<and>
     (\<forall>dir \<in> set (st_directions st). - (2 ^ 31) \<le> dir \<and> dir < 2 ^ 31)"

lemma read_packed_put: "read_packed (concat (map (\<lambda>dir. varint (direction_number dir)) dirs)) = map direction_number dirs"
proof (induction dirs)
  case Nil
  then show ?case by (subst read_packed.simps) simp
next
  case (Cons dir dirs)
  have "direction_number dir < 2 ^ 64" 
    using unsigned_less [of "word_of_int dir :: 64 word", where ?'a = nat] by (simp add: direction_number_def)
  with Cons show ?case by (subst read_packed.simps) (simp add: read_varint64)
qed

lemma direction_of_number: "- (2 ^ 31) \<le> dir \<Longrightarrow> dir < 2 ^ 31 \<Longrightarrow> direction_of (direction_number dir) = dir"
  by (simp add: direction_of_def direction_number_def ucast_down_wi is_down sint_sbintrunc'
      signed_take_bit_int_eq_self)

lemma put_entry_fields:
  assumes "length (put_records (entry_fields k v)) < 2 ^ 64"
  shows "put_entry (put_records (entry_fields k v)) args = args(k \<mapsto> v)"
proof -
  have "get_records (put_records (entry_fields k v)) = (True, entry_fields k v)"
    by (rule get_put_in_range [OF _ assms]) (simp add: entry_fields_def)
  then show ?thesis by (simp add: put_entry_def Let_def entry_fields_def get_defs)
qed

lemma fold_put_entry:
  assumes "\<And>k. k \<in> set ks \<Longrightarrow> length (put_records (entry_fields k (the (m k)))) < 2 ^ 64"
  shows "fold put_entry (map (\<lambda>k. put_records (entry_fields k (the (m k)))) ks) args =
    (\<lambda>k. if k \<in> set ks then Some (the (m k)) else args k)"
  using assms by (induction ks arbitrary: args) (auto simp: put_entry_fields fun_eq_iff)

lemma settings_values:
  "field_values f (settings_fields st) =
     (if f = 1 then map (\<lambda>k. Chunk (put_records (entry_fields k (the (st_args st k))))) (args_list (st_args st))
      else field_values f (bytes_field 2 (concat (map (\<lambda>dir. varint (direction_number dir)) (st_directions st)))))"
proof -
  have "field_values f (concat (map (\<lambda>k. message_field 1 (entry_fields k (the (m k)))) ks)) =
      (if f = 1 then map (\<lambda>k. Chunk (put_records (entry_fields k (the (m k))))) ks else [])"
    for m :: "string \<rightharpoonup> string" and ks
    by (induction ks) auto
  then show ?thesis by (simp add: settings_fields_def)
qed

lemma settings_in_range: "list_all in_range (settings_fields st)"
proof -
  have "list_all in_range (concat (map (\<lambda>k. message_field 1 (entry_fields k (the (m k)))) ks))"
    for m :: "string \<rightharpoonup> string" and ks
    by (induction ks) (simp_all add: in_range_fields)
  then show ?thesis by (simp add: settings_fields_def in_range_fields)
qed

lemma settings_fields:
  assumes "settings_ok st" "length (put_records (settings_fields st)) < 2 ^ 64"
  shows "settings_of (settings_fields st) = st"
proof -
  let ?ks = "args_list (st_args st)"
  have ks: "set ?ks = dom (st_args st)" using assms(1) by (simp add: settings_ok_def args_list_def)
  have chunks: "chunks 1 (settings_fields st) = map (\<lambda>k. put_records (entry_fields k (the (st_args st k)))) ?ks"
    by (simp add: chunks_def settings_values comp_def)
  have "length (put_records (entry_fields k (the (st_args st k)))) < 2 ^ 64" if "k \<in> set ?ks" for k
  proof -
    from that have "(1, Chunk (put_records (entry_fields k (the (st_args st k))))) \<in> set (settings_fields st)"
      by (auto simp: settings_fields_def message_field_def)
    from chunk_length [OF this] assms(2) show ?thesis by simp
  qed
  from fold_put_entry [of ?ks "st_args st", OF this]
  have "fold put_entry (chunks 1 (settings_fields st)) Map.empty = st_args st"
    by (auto simp: chunks ks fun_eq_iff domIff)
  moreover have "map direction_of (concat (map repeated_of (field_values 2 (settings_fields st)))) = st_directions st"
  proof -
    have "map direction_of (map direction_number (st_directions st)) = st_directions st"
      using assms(1) by (simp add: settings_ok_def map_idI direction_of_number)
    then show ?thesis by (auto simp: settings_values read_packed_put)
  qed
  ultimately show ?thesis by (simp add: settings_of_def)
qed

subsection \<open>Messages\<close>

fun fields_ok :: "message \<Rightarrow> bool" where
  "fields_ok (Request codec st) \<longleftrightarrow> settings_ok st"
| "fields_ok (Renegotiation st) \<longleftrightarrow> settings_ok st"
| "fields_ok (Response r) \<longleftrightarrow> (case rs_framing r of None \<Rightarrow> True | Some fr \<Rightarrow> framing_ok fr)"
| "fields_ok Unknown_type \<longleftrightarrow> False"
| "fields_ok _ \<longleftrightarrow> True"

definition message_ok :: "message \<Rightarrow> bool" where
  "message_ok m \<longleftrightarrow> fields_ok m \<and> length (put_records (any_fields m)) < 2 ^ 64"

lemma response_fields:
  assumes "fields_ok (Response r)" "length (put_records (response_fields r)) < 2 ^ 64"
  shows "response_of (response_fields r) = r"
proof -
  have vs: "field_values 1 (response_fields r) = (if rs_result r = Status_OK then [] else [Varint 1])"
    "field_values 2 (response_fields r) = (if rs_message r = [] then [] else [Chunk (ascii (rs_message r))])"
    "field_values 3 (response_fields r) =
      (case rs_framing r of None \<Rightarrow> [] | Some fr \<Rightarrow> [Chunk (put_records (framing_fields fr))])"
    by (cases "rs_result r"; simp add: response_fields_def split: option.split)+
  have "framing_of (get_message 3 (response_fields r)) = fr" if "rs_framing r = Some fr" for fr
    using assms that by (subst get_message_put [of _ _ "framing_fields fr"])
      (simp_all add: chunks_def vs framing_in_range framing_fields)
  then show ?thesis
    by (intro response.equality; cases "rs_result r"; cases "rs_framing r")
      (simp_all add: response_of_def get_number_def get_bytes_def get_string_def chunks_def vs)
qed

lemma message_in_range: "fields_ok m \<Longrightarrow> list_all in_range (message_fields m)"
proof (cases m)
  case (Handshake n v p)
  have "unat p < 2 ^ 64" using unsigned_less [of p, where ?'a = nat] by simp
  with Handshake show ?thesis by (simp add: in_range_fields)
next
  case (Response r)
  have "status_number (rs_result r) < 2 ^ 64" by (cases "rs_result r") simp_all
  then show ?thesis by (simp add: Response response_fields_def in_range_fields split: option.split)
qed (simp_all add: in_range_fields)

lemma message_of_fields:
  assumes "fields_ok m" "length (put_records (message_fields m)) < 2 ^ 64"
  shows "message_of (message_name m) (message_fields m) = m"
proof (cases m)
  case (Request codec st)
  then have "get_message 3 (message_fields m) = settings_fields st"
    using assms(2) by (intro get_message_put) (simp_all add: chunks_def settings_in_range)
  moreover have "length (put_records (settings_fields st)) < 2 ^ 64"
    using chunk_length [of 3 "put_records (settings_fields st)" "message_fields m"] assms(2)
    by (simp add: Request message_field_def)
  ultimately show ?thesis using assms(1) by (simp add: Request message_of_def get_defs settings_fields)
next
  case (Renegotiation st)
  then have "get_message 1 (message_fields m) = settings_fields st"
    using assms(2) by (intro get_message_put) (simp_all add: chunks_def settings_in_range)
  moreover have "length (put_records (settings_fields st)) < 2 ^ 64"
    using chunk_length [of 1 "put_records (settings_fields st)" "message_fields m"] assms(2)
    by (simp add: Renegotiation message_field_def)
  ultimately show ?thesis using assms(1) by (simp add: Renegotiation message_of_def settings_fields)
next
  case (Response r)
  with assms show ?thesis by (simp add: message_of_def response_fields)
qed (use assms in \<open>auto simp: message_of_def get_defs unat_eq_zero\<close>)

lemma behind_last: "c \<notin> set s \<Longrightarrow> rev (takeWhile (\<lambda>x. x \<noteq> c) (rev (u @ c # s))) = s"
  by (induction s rule: rev_induct) auto

lemma any_of_fields:
  assumes "message_ok m"
  shows "any_of (any_fields m) = m"
proof -
  have "get_string 1 (any_fields m) = ''type.googleapis.com/'' @ package @ message_name m"
    "get_bytes 2 (any_fields m) = put_records (message_fields m)"
    by (simp_all add: any_fields_def any_record_def get_defs)
  moreover have "CHR ''/'' \<notin> set (package @ message_name m)"
    by (cases m) (simp_all add: package_def)
  then have "rev (takeWhile (\<lambda>c. c \<noteq> CHR ''/'') (rev (''type.googleapis.com/'' @ package @ message_name m))) =
      package @ message_name m"
    using behind_last [of "CHR ''/''" "package @ message_name m" "''type.googleapis.com''"] by simp
  moreover have short: "length (put_records (message_fields m)) < 2 ^ 64"
    using assms chunk_length [of 2 "put_records (message_fields m)" "any_fields m"]
    by (cases "put_records (message_fields m)") (simp_all add: message_ok_def any_fields_def any_record_def bytes_field_def)
  moreover have "get_records (put_records (message_fields m)) = (True, message_fields m)"
    using assms short by (intro get_put_in_range message_in_range) (simp_all add: message_ok_def)
  ultimately show ?thesis
    using assms by (simp add: any_of_def message_of_fields message_ok_def)
qed

section \<open>The library\<close>

text \<open>
  A coded stream is the number of bytes up to its limit, if it has one, whether the last message
  ended there, and the bytes of the stream. A parse reads up to the limit.
\<close>

type_synonym coded_stream = "nat option \<times> bool \<times> bytes"

fun up_to_limit :: "coded_stream \<Rightarrow> bytes" where
  "up_to_limit (lim, ended, bs) = (case lim of None \<Rightarrow> bs | Some n \<Rightarrow> take n bs)"

fun behind_limit :: "bool \<Rightarrow> coded_stream \<Rightarrow> coded_stream" where
  "behind_limit ok (lim, ended, bs) = (Some 0, ok, case lim of None \<Rightarrow> [] | Some n \<Rightarrow> drop n bs)"

definition proto3 :: "coded_stream protobuf" where
  "proto3 =
     \<lparr>pb_serialize = (\<lambda>m. put_records (any_fields m)),
      pb_varint = varint,
      pb_open = (\<lambda>bs. (None, False, bs)),
      pb_read_varint = (\<lambda>(lim, ended, bs).
        case read_varint 10 bs of
          None \<Rightarrow> (None, (lim, ended, []))
        | Some (n, rest) \<Rightarrow> (Some (n mod 2 ^ 64), (lim, ended, rest))),
      pb_push_limit = (\<lambda>n (lim, ended, bs). (Some n, ended, bs)),
      pb_parse = (\<lambda>c. case get_records (up_to_limit c) of (ok, rs) \<Rightarrow> (ok, any_of rs, behind_limit ok c)),
      pb_merge = (\<lambda>m c. case get_records (up_to_limit c) of (ok, rs) \<Rightarrow> (ok, m, behind_limit ok c)),
      pb_consumed = (\<lambda>(lim, ended, bs). ended),
      pb_close = (\<lambda>(lim, ended, bs). bs)\<rparr>"

text \<open>
  The encoding keeps what \<open>protobuf_ok\<close> asks of the library, for every message of the protocol whose
  numbers are in range: it is read back as it was, with the bytes behind it left in the stream.
\<close>

lemma proto3_ok: "protobuf_ok proto3 {m. message_ok m}"
proof -
  have parse: "get_records (put_records (any_fields m)) = (True, any_fields m)" if "message_ok m" for m
    using that by (intro get_put_in_range) (simp_all add: message_ok_def any_fields_def any_record_def in_range_fields)
  have "put_records (any_fields m) \<noteq> []" for m
    by (simp add: any_fields_def any_record_def string_field_def bytes_field_def ascii_def)
  with parse show ?thesis
    by (auto simp: protobuf_ok_def proto3_def read_varint64 any_of_fields message_ok_def)
qed

section \<open>Over a connection\<close>


text \<open>The messages of a session's start: handshake, request and response.\<close>

definition first_messages :: "message list" where
  "first_messages = [Handshake ''codecserver'' ''0.1.0'' 1,
     Request ''ambe'' \<lparr>st_directions = [1], st_args = [''index'' \<mapsto> ''33'']\<rparr>,
     Response \<lparr>rs_result = Status_OK, rs_message = [], rs_framing =
       Some \<lparr>fr_channelBits = 72, fr_channelBytes = 9, fr_audioSamples = 160, fr_audioBytes = 320\<rparr>\<rparr>]"

lemma first_messages_ok: "list_all message_ok first_messages"
proof -
  have settings: "settings_fields \<lparr>st_directions = [1], st_args = [''index'' \<mapsto> ''33'']\<rparr> =
      [(1, Chunk (put_records (entry_fields ''index'' ''33''))), (2, Chunk (varint (direction_number 1)))]"
    by (simp add: settings_fields_def args_list_def message_field_def bytes_field_def)
  have "length (put_records (any_record ''Handshake'' (string_field 1 ''codecserver'' @
      string_field 2 ''0.1.0'' @ number_field 3 1))) < 200"
    "length (put_records (any_record ''Request'' (string_field 1 ''ambe'' @ message_field 3
        [(1, Chunk (put_records (entry_fields ''index'' ''33''))), (2, Chunk (varint (direction_number 1)))]))) < 200"
    "length (put_records (any_record ''Response'' (message_field 3 (number_field 1 72 @ number_field 2 9 @
        number_field 3 160 @ number_field 4 320)))) < 200"
    by code_simp+
  moreover have "n < 200 \<Longrightarrow> n < 2 ^ 64" for n :: nat by simp
  ultimately show ?thesis
    by (simp add: first_messages_def message_ok_def settings_ok_def framing_ok_def any_fields_def settings
        response_fields_def framing_fields_def string_field_def [of _ "[]"] bytes_field_def [of _ "[]"]
        number_field_def [of _ 0] ascii_simps(1) del: put_records_simps)
qed


declare One_nat_def [simp]

end
