(* ===== verification/Shared_Socket.thy ===== *)
theory Shared_Socket
  imports Proto_Messages
begin

text \<open>
  Two threads on one socket. \<^verbatim>\<open>Connection::sendMessage\<close> takes no lock, and a client's connection is
  used by two threads: its own, for responses, and the reader, for data. Each call has an output
  stream of its own, whose buffer is handed to \<^verbatim>\<open>write\<close> whenever it is full and at the end; the
  writes of the two threads may come in any order.
\<close>

section \<open>The writes of a message\<close>

text \<open>A buffer of \<open>n\<close> bytes cuts the bytes of a message into the blocks that are written.\<close>

function write_blocks :: "nat \<Rightarrow> bytes \<Rightarrow> bytes list" where
  "write_blocks n bs =
     (if bs = [] then [] else if n = 0 then [bs] else take n bs # write_blocks n (drop n bs))"
  by pat_completeness auto
termination
  by (relation "measure (\<lambda>(n, bs). length bs)") auto

declare write_blocks.simps [simp del]

definition message_writes :: "'c protobuf \<Rightarrow> nat \<Rightarrow> message \<Rightarrow> bytes list" where
  "message_writes pb n m =
     (let any = pb_serialize pb m in write_blocks n (pb_varint pb (length any) @ any))"

definition thread_writes :: "'c protobuf \<Rightarrow> nat \<Rightarrow> message list \<Rightarrow> bytes list" where
  "thread_writes pb n ms = concat (map (message_writes pb n) ms)"

text \<open>One thread alone writes what \<^verbatim>\<open>sendMessage\<close> writes.\<close>

lemma concat_write_blocks: "concat (write_blocks n bs) = bs"
  by (induction n bs rule: write_blocks.induct) (subst write_blocks.simps, simp)

lemma concat_thread_writes: "concat (thread_writes pb n ms) = wire pb ms"
  by (induction ms) (simp_all add: thread_writes_def message_writes_def wire_def concat_write_blocks Let_def)

lemma thread_writes_send_all:
  "cn_sends cn = [] \<Longrightarrow> cn_out (send_all pb ms cn) = cn_out cn @ concat (thread_writes pb n ms)"
  by (simp add: send_all_wire concat_thread_writes)

section \<open>Interleaving\<close>

lemma shuffles_map:
  "ws \<in> shuffles (map f xs) (map f ys) \<Longrightarrow> \<exists>zs \<in> shuffles xs ys. ws = map f zs"
proof (induction xs ys arbitrary: ws rule: shuffles.induct)
  case (3 x xs y ys)
  from "3.prems" obtain w ws' where ws: "ws = w # ws'"
    and "(w = f x \<and> ws' \<in> shuffles (map f xs) (map f (y # ys))) \<or>
      (w = f y \<and> ws' \<in> shuffles (map f (x # xs)) (map f ys))" by auto
  then show ?case
  proof (elim disjE conjE)
    assume w: "w = f x" "ws' \<in> shuffles (map f xs) (map f (y # ys))"
    from "3.IH"(1) [OF w(2)] obtain zs where "zs \<in> shuffles xs (y # ys)" "ws' = map f zs" by blast
    with w(1) ws show ?thesis by (intro bexI [of _ "x # zs"]) auto
  next
    assume w: "w = f y" "ws' \<in> shuffles (map f (x # xs)) (map f ys)"
    from "3.IH"(2) [OF w(2)] obtain zs where "zs \<in> shuffles (x # xs) ys" "ws' = map f zs" by blast
    with w(1) ws show ?thesis by (intro bexI [of _ "y # zs"]) auto
  qed
qed auto

lemma message_writes_fit:
  assumes "length (wire pb [m]) \<le> n" "wire pb [m] \<noteq> []"
  shows "message_writes pb n m = [wire pb [m]]"
proof -
  have "message_writes pb n m = write_blocks n (wire pb [m])"
    by (simp add: message_writes_def wire_def Let_def)
  also have "\<dots> = [wire pb [m]]"
    using assms by (subst write_blocks.simps, subst write_blocks.simps) simp
  finally show ?thesis .
qed



text \<open>A message that is cut into blocks can be mixed with another: what arrives was sent by nobody.\<close>

lemma blocks_mix:
  "\<exists>ws \<in> shuffles (thread_writes unary_protobuf 3 [ChannelData [7]]) (thread_writes unary_protobuf 3 [ChannelData [8]]).
    \<exists>cn. receive_all unary_protobuf 1 (new_Connection 5 (concat ws) (ready_polls [0]) []) =
      Some ([Inr (Some (ChannelData [1]))], cn)"
proof
  have "thread_writes unary_protobuf 3 [ChannelData [b]] = [[1, 1, 0], [1, b]]" for b
    by (simp add: thread_writes_def message_writes_def unary_protobuf_def write_blocks.simps numeral_eq_Suc)
  then show "[[1, 1, 0], [1, 1, 0], [1, 7], [1, 8]] \<in>
      shuffles (thread_writes unary_protobuf 3 [ChannelData [7]]) (thread_writes unary_protobuf 3 [ChannelData [8]])"
    by simp
  show "\<exists>cn. receive_all unary_protobuf 1
      (new_Connection 5 (concat [[1, 1, 0], [1, 1, 0], [1, 7], [1, 8]]) (ready_polls [0]) []) =
      Some ([Inr (Some (ChannelData [1]))], cn)"
    by (simp add: new_Connection_def ready_polls_def receiveMessage_def poll_loop.simps receive_body_def
        unary_protobuf_def numeral_eq_Suc)
qed

end
