(* ===== verification/Spec2Isabelle.thy ===== *)
theory Spec2Isabelle
  imports Queue_Monitor Queue_Worker Session_Race Server_Sessions Server_Main Data_Path Packet_Memory
    Device_Memory Shared_Socket
begin

text \<open>
  A model of the codec server: a daemon that owns AMBE-3000 vocoder chips on serial lines and lets
  clients on the network use their channels. This is the root of the development; it holds the
  properties of the components together and says what the other theories hold.

  The program and its theories.

  Requests and responses of the chip are packets of fields. \<^verbatim>\<open>Packet_Fields\<close> has the \<^verbatim>\<open>Field\<close> classes
  and \<^verbatim>\<open>Packets\<close> the \<^verbatim>\<open>Packet\<close> classes of \<^verbatim>\<open>src/modules/ambe3k/protocol.cpp\<close>, on buffers whose every
  access is checked (\<^verbatim>\<open>Prelude\<close>). \<^verbatim>\<open>Wire_Format\<close> is the packet format as a specification: parsing a
  framed sequence of well-formed fields reports exactly these fields, and a wrong parity is refused.
  \<^verbatim>\<open>Packet_Safety\<close> has what parsing does with arbitrary bytes, the accessors that never leave the
  buffer and the constructors that do. \<^verbatim>\<open>Serial_Port\<close> has \<^verbatim>\<open>Packet::writeTo\<close> and \<^verbatim>\<open>Packet::receiveFrom\<close>
  over a line that splits its bytes as it likes. \<^verbatim>\<open>Packet_Memory\<close> has the destructors, and parsing with its
  \<^verbatim>\<open>new\<close> and \<^verbatim>\<open>delete\<close>: what is freed, and which fields are lost.

  \<^verbatim>\<open>Blocking_Queue\<close> is one call of \<^verbatim>\<open>blockingqueue.cpp\<close> under the mutex, an instance of the locale
  \<open>fifo\<close>; \<^verbatim>\<open>Queue_Monitor\<close> adds threads, waits, spurious wakeups and the destructor as a step relation
  and refines it to runs of the queue. \<^verbatim>\<open>Ambe_Channel\<close> (\<^verbatim>\<open>channel.cpp\<close>), \<^verbatim>\<open>Ambe_Session\<close>
  (\<^verbatim>\<open>ambe3ksession.cpp\<close>, with the parts of the standard library that it uses in \<^verbatim>\<open>Std_Text\<close>) and
  \<^verbatim>\<open>Ambe_Device\<close> (\<^verbatim>\<open>ambe3kdevice.cpp\<close>) build on both: a device is its channels and one queue, and every
  operation is a function of both. \<^verbatim>\<open>Queue_Worker\<close> (\<^verbatim>\<open>queueworker.cpp\<close>) is the thread between a
  device's queue and its line, one function for each program point. \<^verbatim>\<open>Device_Memory\<close> follows the packets
  that channels hold until they are deleted, or not.

  \<^verbatim>\<open>Config_File\<close> (\<^verbatim>\<open>config.cpp\<close>, \<^verbatim>\<open>serverconfig.cpp\<close>) and \<^verbatim>\<open>Device_Registry\<close> (\<^verbatim>\<open>registry.cpp\<close>) use
  \<^verbatim>\<open>std::map\<close>, which is \<^verbatim>\<open>Std_Map\<close> and its locale \<open>ordered_map\<close>; the registry is a \<open>directory\<close> of devices.
  \<^verbatim>\<open>Ambe_Driver\<close> is the driver of the chips with its own registry of nodes and the udev monitor
  (\<^verbatim>\<open>ambe3kdriver.cpp\<close>, \<^verbatim>\<open>ambe3kregistry.cpp\<close>, \<^verbatim>\<open>udevmonitor.cpp\<close>).

  \<^verbatim>\<open>Connection\<close> (\<^verbatim>\<open>src/lib/connection.cpp\<close>) sends and receives messages over a protobuf library that is a
  parameter; \<^verbatim>\<open>Proto_Messages\<close> is the instance of it for \<^verbatim>\<open>src/lib/proto/*.proto\<close>, the documented encoding
  with the field numbers of these files, and \<^verbatim>\<open>Shared_Socket\<close> has two threads that send on one socket.
  \<^verbatim>\<open>Client_Connection\<close>
  (\<^verbatim>\<open>clientconnection.cpp\<close>) has the reaction to each message, the connection's thread and the reader
  thread. \<^verbatim>\<open>Channel_Table\<close> abstracts the registry and its devices to the table of the busy channels,
  \<^verbatim>\<open>Client_Turns\<close> says what one step of a client does to it, and \<^verbatim>\<open>Server_Sessions\<close> lets clients, readers,
  workers, the udev monitor and the loading of devices take turns. The table with the owners of its
  channels is an instance of the locale \<open>reusable_allocator\<close> of \<^verbatim>\<open>Resource_Allocation\<close>; the server refines it, and
  that no two clients own one channel, and that a client whose socket ends gives its channel back to
  the others, follows from the locale. \<^verbatim>\<open>Data_Path\<close> runs workers on the devices
  of the registry and follows frames from a socket to a line and back. \<^verbatim>\<open>Socket_Servers\<close>
  (\<^verbatim>\<open>socketserver.cpp\<close>, \<^verbatim>\<open>tcpserver.cpp\<close>, \<^verbatim>\<open>unixdomainsocketserver.cpp\<close>) and \<^verbatim>\<open>Server_Main\<close>
  (\<^verbatim>\<open>server.cpp\<close>, \<^verbatim>\<open>scanner.cpp\<close>, \<^verbatim>\<open>codecserver.cpp\<close>) are the start-up, the listening sockets and the end.

  Conventions.

  A class is a record of its data members, with history fields only where a comment says so. An
  operation returns its result or an \<open>error\<close>, which is a fault (a failed assertion, an access outside
  a buffer, a null or a freed object), an exception in flight, or \<open>Waits\<close> for a call that does not
  return; state that an exception leaves behind is kept. Integers have the width of the code where
  overflow can happen: bytes and shorts are words, \<^verbatim>\<open>size_t\<close> arithmetic is written with its modulus.
  The host is little-endian.

  What comes from outside is a parameter: the results of \<^verbatim>\<open>read\<close> on a line, of \<^verbatim>\<open>poll\<close> and of sends are
  schedules, fresh memory and the results of system calls are functions, and the protobuf library is
  a record of the functions that the code calls, with \<open>protobuf_ok\<close> as its documented behaviour.
  Properties quantify over all of them; each hypothesis is met by a concrete instance in a witness.

  Loops are structural or bounded as in the code (ten reads in \<open>read_loop\<close>); the scan over the fields
  of a packet has the size of the buffer as its measure. The loop around \<^verbatim>\<open>MergeFromCodedStream\<close> may
  run for ever and is a partial function; when it ends is a property. No property rests on fuel.

  Threads interleave at program points: in the queue monitor at each access to the mutex, in the
  worker between two of its program points, in the server between whole turns of a connection's
  thread (a message), of a reader (one read or one send), and of the others. The join in
  \<^verbatim>\<open>stopSession\<close> is a program point of its own, since the reader works on while the connection waits.
  What the properties of \<^verbatim>\<open>Server_Sessions\<close> say therefore holds as long as turns do not overlap:
  \<^verbatim>\<open>Session_Race\<close> splits \<^verbatim>\<open>Device::startSession\<close>, which has no lock, and shows two clients that overlap
  there with the same channel. \<^verbatim>\<open>Shared_Socket\<close> interleaves the writes of two threads. Other data races
  inside one turn are not modelled.

  Not modelled.

  The code that protobuf generates is a parameter. Printed texts and logs, the start of threads,
  \<^verbatim>\<open>std::signal\<close> itself, the result of \<^verbatim>\<open>chmod\<close> and the singletons' lazy construction have no effect on what
  is modelled. The memory of messages, sessions and devices is not followed, only that of packets.
  Build files, packaging and the sample configuration are no program code.
\<close>

section \<open>Components together\<close>


text \<open>A client with a session on the first channel of a stick; the worker waits, and one answer is due.\<close>

definition session_device :: ambe_device where
  "session_device = set_channel 0 reserve (idle_device (ascii ''AMBE3003F''))"

definition session_client :: client where
  "session_client = greeted_client\<lparr>cl_session := Some (0, 0), cl_reader := Some Reading,
     cl_conn := new_Connection 4 (wire unary_protobuf [ChannelData [0xB9, 0xE8]])
       (ready_polls [1]) []\<rparr>"

definition session_traffic :: traffic where
  "session_traffic = \<lparr>tf_message = ChannelData [0xB9, 0xE8], tf_timeouts = 1,
     tf_answer = WSpeechD [0x1234, 0xFFFE], tf_header = [3, 1], tf_payload = [4, 5]\<rparr>"

definition session_worker :: worker where
  "session_worker = (new_QueueWorker session_device
     \<lparr>rx = answer_frame 0 (WSpeechD [0x1234, 0xFFFE]), schedule = map Ready [3, 1, 4, 5], tx = []\<rparr>)
       \<lparr>wk_pc := At_pop\<rparr>"

lemma session_traffic:
  "idle_session 0 0 session_device (session_client, set_device 0 session_device one_stick)"
  "idle_worker session_worker" "list_all (traffic_ok 0) [session_traffic]"
  "protobuf_ok unary_protobuf (set (map tf_message [session_traffic]))"
  "incoming unary_protobuf 0 [session_traffic] (cl_conn session_client) (wk_tty session_worker)"
proof -
  have "device_ok (idle_device (ascii ''AMBE3003F''))" by (simp add: idle_device_def createChannels_ok)
  then have "device_ok session_device"
    unfolding session_device_def
    by (rule set_channel_ok) (simp_all add: idle_device_def createChannels_3003 channel_frame)
  moreover have "0 < length (dv_channels session_device)" "bq_items (dv_queue session_device) = []"
    "map_option bq_items (ch_outQueue (dv_channels session_device ! 0)) = Some []"
    by (simp_all add: session_device_def set_channel_def idle_device_def createChannels_3003 reserve_def)
  ultimately show "idle_session 0 0 session_device (session_client, set_device 0 session_device one_stick)"
    by (simp add: idle_session_def session_client_def one_stick new_Connection_def)
  show "idle_worker session_worker"
    by (simp add: idle_worker_def session_worker_def new_QueueWorker_def)
  show "list_all (traffic_ok 0) [session_traffic]"
    by (simp add: traffic_ok_def session_traffic_def answer_kind_def covers_def encode_fields_def le16_def)
  show "protobuf_ok unary_protobuf (set (map tf_message [session_traffic]))"
    by (rule protobuf_ok_mono [OF unary_protobuf_ok]) (simp add: session_traffic_def)
  show "incoming unary_protobuf 0 [session_traffic] (cl_conn session_client) (wk_tty session_worker)"
    by (simp add: incoming_def session_client_def session_worker_def session_traffic_def new_Connection_def
        new_QueueWorker_def)
qed




end
